(* ===== verification/Prelude.thy ===== *)
theory Prelude
  imports Main "HOL-Library.Word" "HOL-Library.AList"
begin

text \<open>
  Shared vocabulary of the development: machine integers and byte strings, Rust's
  \<open>Result\<close> as a sum type with the sequencing of the \<open>?\<close> operator, slices and in-place
  writes into fixed arrays, big-endian integer encodings, hash maps as association lists,
  and three interfaces that several components implement: a state machine with an
  invariant, a wire codec, and an admission guard that lets every key through once.
\<close>

section \<open>Types\<close>

type_synonym u8 = "8 word"
type_synonym u16 = "16 word"
type_synonym u32 = "32 word"
type_synonym u64 = "64 word"
type_synonym u128 = "128 word"
type_synonym bytes = "8 word list"
type_synonym ('e, 'a) result = "'e + 'a"
type_synonym ('k, 'v) hmap = "('k \<times> 'v) list"

text \<open>
  \<open>wire_simps\<close> collects the equations about slices, writes and integer encodings,
  \<open>result_simps\<close> those about the \<open>?\<close> operator.
\<close>

named_theorems wire_simps
named_theorems result_simps

section \<open>Results\<close>

definition bind_r :: "'e + 'a \<Rightarrow> ('a \<Rightarrow> 'e + 'b) \<Rightarrow> 'e + 'b" where
  "bind_r r f = (case r of Inl e \<Rightarrow> Inl e | Inr x \<Rightarrow> f x)"

definition map_err :: "('e \<Rightarrow> 'f) \<Rightarrow> 'e + 'a \<Rightarrow> 'f + 'a" where
  "map_err g r = (case r of Inl e \<Rightarrow> Inl (g e) | Inr x \<Rightarrow> Inr x)"

definition ok_or :: "'e \<Rightarrow> 'a option \<Rightarrow> 'e + 'a" where
  "ok_or e o' = (case o' of None \<Rightarrow> Inl e | Some x \<Rightarrow> Inr x)"

fun map_r :: "('a \<Rightarrow> 'e + 'b) \<Rightarrow> 'a list \<Rightarrow> 'e + 'b list" where
  "map_r f [] = Inr []"
| "map_r f (x # xs) = bind_r (f x) (\<lambda>y. bind_r (map_r f xs) (\<lambda>ys. Inr (y # ys)))"

lemma bind_r_simps [simp]:
  "bind_r (Inl e) f = Inl e"
  "bind_r (Inr x) f = f x"
  by (simp_all add: bind_r_def)

lemma map_err_simps [simp]:
  "map_err g (Inl e) = Inl (g e)"
  "map_err g (Inr x) = Inr x"
  by (simp_all add: map_err_def)

lemma ok_or_simps [simp]:
  "ok_or e None = Inl e"
  "ok_or e (Some x) = Inr x"
  by (simp_all add: ok_or_def)

lemma bind_r_Inr_iff [result_simps]:
  "bind_r r f = Inr y \<longleftrightarrow> (\<exists>x. r = Inr x \<and> f x = Inr y)"
  by (cases r) auto

lemma bind_r_Inl_iff [result_simps]:
  "bind_r r f = Inl e \<longleftrightarrow> r = Inl e \<or> (\<exists>x. r = Inr x \<and> f x = Inl e)"
  by (cases r) auto

lemma map_err_Inr_iff [result_simps]: "map_err g r = Inr y \<longleftrightarrow> r = Inr y"
  by (cases r) auto

lemma map_err_Inl_iff [result_simps]: "map_err g r = Inl e \<longleftrightarrow> (\<exists>e'. r = Inl e' \<and> e = g e')"
  by (cases r) auto

lemma ok_or_Inr_iff [result_simps]: "ok_or e r = Inr y \<longleftrightarrow> r = Some y"
  by (cases r) auto

lemma ok_or_Inl_iff [result_simps]: "ok_or e r = Inl e' \<longleftrightarrow> r = None \<and> e' = e"
  by (cases r) auto

lemma map_r_Inr_iff [result_simps]:
  "map_r f xs = Inr ys \<longleftrightarrow> list_all2 (\<lambda>x y. f x = Inr y) xs ys"
proof (induction xs arbitrary: ys)
  case Nil
  then show ?case by (cases ys) auto
next
  case (Cons x xs)
  then show ?case by (cases ys) (auto simp: result_simps)
qed

lemma map_r_total: "(\<And>x. x \<in> set xs \<Longrightarrow> f x = Inr (g x)) \<Longrightarrow> map_r f xs = Inr (map g xs)"
  by (induction xs) auto

lemma map_r_length: "map_r f xs = Inr ys \<Longrightarrow> length ys = length xs"
  by (auto simp: result_simps dest: list_all2_lengthD)

section \<open>Stateful operations\<close>

text \<open>
  An operation that may fail and changes a state: \<open>pure_m\<close> is a result that leaves the state
  alone, \<open>bind_m\<close> the \<open>?\<close> operator, \<open>from_m\<close> the conversion of the error, \<open>map_m\<close> collecting
  an iterator into a \<open>Result\<close> of a vector, which stops at the first error.
\<close>

type_synonym ('s, 'e, 'a) action = "'s \<Rightarrow> ('e + 'a) \<times> 's"

definition pure_m :: "'e + 'a \<Rightarrow> ('s, 'e, 'a) action" where
  "pure_m r s = (r, s)"

definition bind_m :: "('s, 'e, 'a) action \<Rightarrow> ('a \<Rightarrow> ('s, 'e, 'b) action) \<Rightarrow> ('s, 'e, 'b) action" where
  "bind_m m f s = (case m s of (Inl e, s) \<Rightarrow> (Inl e, s) | (Inr x, s) \<Rightarrow> f x s)"

definition from_m :: "('e \<Rightarrow> 'f) \<Rightarrow> ('s, 'e, 'a) action \<Rightarrow> ('s, 'f, 'a) action" where
  "from_m g m s = (case m s of (r, s) \<Rightarrow> (map_err g r, s))"

fun map_m :: "('a \<Rightarrow> ('s, 'e, 'b) action) \<Rightarrow> 'a list \<Rightarrow> ('s, 'e, 'b list) action" where
  "map_m f [] = pure_m (Inr [])"
| "map_m f (x # xs) = bind_m (f x) (\<lambda>y. bind_m (map_m f xs) (\<lambda>ys. pure_m (Inr (y # ys))))"

lemma pure_m_apply [simp]: "pure_m r s = (r, s)"
  by (simp add: pure_m_def)

lemma bind_m_pure [simp]: "bind_m (pure_m (Inr x)) f = f x" "bind_m (pure_m (Inl e)) f = pure_m (Inl e)"
  by (simp_all add: bind_m_def fun_eq_iff)

lemma bind_m_run: "m s = (Inr x, t) \<Longrightarrow> bind_m m f s = f x t" "m s = (Inl e, t) \<Longrightarrow> bind_m m f s = (Inl e, t)"
  by (simp_all add: bind_m_def)

lemma from_m_run: "m s = (r, t) \<Longrightarrow> from_m g m s = (map_err g r, t)"
  by (simp add: from_m_def)

lemma bind_m_cases:
  assumes "bind_m m f s = (r, s')"
  obtains (Err) e where "m s = (Inl e, s')" "r = Inl e" | (Ok) x t where "m s = (Inr x, t)" "f x t = (r, s')"
  using assms by (auto simp: bind_m_def split: prod.splits sum.splits)

lemma bind_m_Inr_iff [result_simps]:
  "bind_m m f s = (Inr y, s') \<longleftrightarrow> (\<exists>x t. m s = (Inr x, t) \<and> f x t = (Inr y, s'))"
  by (auto simp: bind_m_def split: prod.splits sum.splits)

lemma from_m_Inr_iff [result_simps]: "from_m g m s = (Inr y, s') \<longleftrightarrow> m s = (Inr y, s')"
  by (auto simp: from_m_def result_simps split: prod.splits)

text \<open>Collecting over a state that does not change is \<open>map_r\<close>.\<close>

lemma map_m_const:
  assumes "\<And>x. x \<in> set xs \<Longrightarrow> f x s = (g x, s)"
  shows "map_m f xs s = (map_r g xs, s)"
  using assms
proof (induction xs)
  case (Cons x xs)
  then show ?case by (auto simp: bind_m_def bind_r_def split: sum.splits)
qed simp

section \<open>Slices and writes into fixed arrays\<close>

text \<open>
  \<open>slice a b xs\<close> is Rust's \<open>xs[a..b]\<close>; \<open>write_at off src dst\<close> is
  \<open>dst[off..off + src.len()].copy_from_slice(src)\<close>, used only where the range is inside
  the array.
\<close>

definition slice :: "nat \<Rightarrow> nat \<Rightarrow> 'a list \<Rightarrow> 'a list" where
  "slice a b xs = take (b - a) (drop a xs)"

definition write_at :: "nat \<Rightarrow> 'a list \<Rightarrow> 'a list \<Rightarrow> 'a list" where
  "write_at off src dst = take off dst @ src @ drop (off + length src) dst"

lemma length_slice [simp]: "length (slice a b xs) = min (b - a) (length xs - a)"
  by (simp add: slice_def)

lemma length_write_at [simp]:
  "off + length src \<le> length dst \<Longrightarrow> length (write_at off src dst) = length dst"
  by (simp add: write_at_def)

lemma slice_split:
  assumes "a \<le> b" "b \<le> c"
  shows "slice a b xs @ slice b c xs = slice a c xs"
proof -
  have "take (b - a) (drop a xs) @ take (c - b) (drop (b - a) (drop a xs))
      = take ((b - a) + (c - b)) (drop a xs)"
    by (simp only: take_add)
  then show ?thesis using assms by (simp add: slice_def)
qed

lemma slice_0_length [simp]: "slice 0 (length xs) xs = xs"
  by (simp add: slice_def)

lemma slice_append_left [wire_simps]:
  "b \<le> length xs \<Longrightarrow> slice a b (xs @ ys) = slice a b xs"
  by (simp add: slice_def)

lemma slice_append_right [wire_simps]:
  "length xs \<le> a \<Longrightarrow> slice a b (xs @ ys) = slice (a - length xs) (b - length xs) ys"
  by (simp add: slice_def)

lemma slice_Cons [wire_simps]: "0 < a \<Longrightarrow> slice a b (x # xs) = slice (a - 1) (b - 1) xs"
  by (cases a; cases b) (simp_all add: slice_def)

lemma slice_exact [wire_simps]: "slice 0 n xs = take n xs"
  by (simp add: slice_def)

lemma slice_Suc_nth: "a < length xs \<Longrightarrow> slice a (Suc a) xs = [xs ! a]"
  by (simp add: slice_def Suc_diff_le take_Suc_conv_app_nth)

lemma take_eq_slice: "take n xs = slice 0 n xs"
  by (simp add: slice_def)

lemma drop_eq_slice: "drop n xs = slice n (length xs) xs"
  by (simp add: slice_def)

section \<open>Big-endian integers\<close>

text \<open>
  \<open>be_of_nat k x\<close> writes the low \<open>k\<close> bytes of \<open>x\<close> most significant first, and
  \<open>nat_of_be\<close> reads a byte string back; the Rust conversions \<open>to_be_bytes\<close> and
  \<open>from_be_bytes\<close> of each width are instances.
\<close>

fun be_of_nat :: "nat \<Rightarrow> nat \<Rightarrow> bytes" where
  "be_of_nat 0 x = []"
| "be_of_nat (Suc k) x = be_of_nat k (x div 256) @ [of_nat (x mod 256)]"

definition nat_of_be :: "bytes \<Rightarrow> nat" where
  "nat_of_be bs = foldl (\<lambda>a b. a * 256 + unat b) 0 bs"

definition u16_be :: "u16 \<Rightarrow> bytes" where "u16_be w = be_of_nat 2 (unat w)"
definition u32_be :: "u32 \<Rightarrow> bytes" where "u32_be w = be_of_nat 4 (unat w)"
definition u64_be :: "u64 \<Rightarrow> bytes" where "u64_be w = be_of_nat 8 (unat w)"

definition be_u16 :: "bytes \<Rightarrow> u16" where "be_u16 bs = of_nat (nat_of_be bs)"
definition be_u32 :: "bytes \<Rightarrow> u32" where "be_u32 bs = of_nat (nat_of_be bs)"
definition be_u64 :: "bytes \<Rightarrow> u64" where "be_u64 bs = of_nat (nat_of_be bs)"

lemma unat_bound: "unat (w :: 'a::len word) < 2 ^ LENGTH('a)"
  by (rule unsigned_less)

lemma u64_succ:
  assumes "(n :: u64) \<noteq> - 1"
  shows "unat (n + 1) = Suc (unat n)" "n < n + 1" "n + 1 \<noteq> 0"
proof -
  show nz: "n + 1 \<noteq> 0" using assms by (simp add: eq_neg_iff_add_eq_0)
  show u: "unat (n + 1) = Suc (unat n)" using nz by (metis unatSuc add.commute)
  show "n < n + 1" using u by (simp add: word_less_nat_alt)
qed

lemma unat_minus_1_u64: "unat (- 1 :: u64) = 2 ^ 64 - 1"
  by (simp add: unsigned_minus_1_eq_mask mask_eq_exp_minus_1)
text \<open>\<open>u64::checked_add(1)\<close>.\<close>

definition checked_add1 :: "u64 \<Rightarrow> u64 option" where
  "checked_add1 n = (if n = - 1 then None else Some (n + 1))"

lemma length_be_of_nat [simp]: "length (be_of_nat k x) = k"
  by (induction k arbitrary: x) auto

lemma nat_of_be_append [simp]: "nat_of_be (bs @ [b]) = nat_of_be bs * 256 + unat b"
  by (simp add: nat_of_be_def)

lemma nat_of_be_Nil [simp]: "nat_of_be [] = 0"
  by (simp add: nat_of_be_def)

lemma unat_of_nat_mod_256: "unat (of_nat (x mod 256) :: u8) = x mod 256"
  by (simp add: unat_of_nat)

lemma nat_of_be_of_nat: "nat_of_be (be_of_nat k x) = x mod 256 ^ k"
proof (induction k arbitrary: x)
  case 0
  then show ?case by simp
next
  case (Suc k)
  have "x mod (256 * 256 ^ k) = 256 * (x div 256 mod 256 ^ k) + x mod 256"
    by (rule mod_mult2_eq)
  with Suc show ?case by (simp add: unat_of_nat_mod_256)
qed

lemma nat_of_be_bound: "nat_of_be bs < 256 ^ length bs"
proof (induction bs rule: rev_induct)
  case Nil
  then show ?case by simp
next
  case (snoc b bs)
  have "unat b < 256" using unat_bound [of b] by simp
  with snoc show ?case by simp
qed

lemma be_of_nat_of_be: "be_of_nat (length bs) (nat_of_be bs) = bs"
proof (induction bs rule: rev_induct)
  case Nil
  then show ?case by simp
next
  case (snoc b bs)
  have b: "unat b < 256" using unat_bound [of b] by simp
  then have "(nat_of_be bs * 256 + unat b) div 256 = nat_of_be bs"
    and "(nat_of_be bs * 256 + unat b) mod 256 = unat b" by auto
  with snoc show ?case by simp
qed

lemma length_be [simp]:
  "length (u16_be a) = 2" "length (u32_be b) = 4" "length (u64_be c) = 8"
  by (simp_all add: u16_be_def u32_be_def u64_be_def)

lemma be_u16_be [simp]: "be_u16 (u16_be w) = w"
  using unat_bound [of w] by (simp add: be_u16_def u16_be_def nat_of_be_of_nat)

lemma be_u32_be [simp]: "be_u32 (u32_be w) = w"
  using unat_bound [of w] by (simp add: be_u32_def u32_be_def nat_of_be_of_nat)

lemma be_u64_be [simp]: "be_u64 (u64_be w) = w"
  using unat_bound [of w] by (simp add: be_u64_def u64_be_def nat_of_be_of_nat)

lemma u16_be_u16: "length bs = 2 \<Longrightarrow> u16_be (be_u16 bs) = bs"
  using nat_of_be_bound [of bs] be_of_nat_of_be [of bs]
  by (simp add: u16_be_def be_u16_def unat_of_nat)

lemma u32_be_u32: "length bs = 4 \<Longrightarrow> u32_be (be_u32 bs) = bs"
  using nat_of_be_bound [of bs] be_of_nat_of_be [of bs]
  by (simp add: u32_be_def be_u32_def unat_of_nat)

lemma u64_be_u64: "length bs = 8 \<Longrightarrow> u64_be (be_u64 bs) = bs"
  using nat_of_be_bound [of bs] be_of_nat_of_be [of bs]
  by (simp add: u64_be_def be_u64_def unat_of_nat)

section \<open>Hash maps\<close>

text \<open>
  A \<open>HashMap\<close> is an association list with distinct keys: \<open>map_of\<close> is \<open>get\<close>,
  \<open>AList.update\<close> is \<open>insert\<close>, \<open>AList.delete\<close> is \<open>remove\<close>, \<open>retain\<close> keeps the
  entries a predicate accepts and \<open>length\<close> is \<open>len\<close>. The position of an entry in the
  list plays no part except where the code iterates over a map.
\<close>

definition hm_wf :: "('k, 'v) hmap \<Rightarrow> bool" where
  "hm_wf m = distinct (map fst m)"

definition hm_contains :: "('k, 'v) hmap \<Rightarrow> 'k \<Rightarrow> bool" where
  "hm_contains m k = (map_of m k \<noteq> None)"

definition hm_retain :: "('k \<Rightarrow> 'v \<Rightarrow> bool) \<Rightarrow> ('k, 'v) hmap \<Rightarrow> ('k, 'v) hmap" where
  "hm_retain p m = filter (\<lambda>(k, v). p k v) m"

lemma hm_wf_empty [simp]: "hm_wf []"
  by (simp add: hm_wf_def)

lemma hm_wf_update [simp]: "hm_wf m \<Longrightarrow> hm_wf (AList.update k v m)"
  by (simp add: hm_wf_def distinct_update)

lemma hm_wf_delete [simp]: "hm_wf m \<Longrightarrow> hm_wf (AList.delete k m)"
  by (simp add: hm_wf_def distinct_delete)

lemma hm_wf_retain [simp]: "hm_wf m \<Longrightarrow> hm_wf (hm_retain p m)"
  by (auto simp: hm_wf_def hm_retain_def distinct_map inj_on_def)

lemma map_of_update [simp]: "map_of (AList.update k v m) k' = (if k' = k then Some v else map_of m k')"
  by (simp add: update_conv)

lemma map_of_delete [simp]: "map_of (AList.delete k m) k' = (if k' = k then None else map_of m k')"
  by (simp add: delete_conv)

lemma map_of_retain:
  assumes "hm_wf m"
  shows "map_of (hm_retain p m) k = (case map_of m k of None \<Rightarrow> None | Some v \<Rightarrow> if p k v then Some v else None)"
  using assms
proof (induction m)
  case Nil
  then show ?case by (simp add: hm_retain_def)
next
  case (Cons kv m)
  obtain k0 v0 where kv: "kv = (k0, v0)" by (cases kv)
  from Cons.prems have wf: "hm_wf m" and new: "map_of m k0 = None"
    by (auto simp: hm_wf_def kv map_of_eq_None_iff)
  show ?case
    using Cons.IH [OF wf] new by (auto simp: kv hm_retain_def split: option.splits)
qed

lemma length_update:
  "length (AList.update k v m) = (if hm_contains m k then length m else Suc (length m))"
  by (induction m) (auto simp: hm_contains_def)

lemma length_retain_le: "length (hm_retain p m) \<le> length m"
  by (simp add: hm_retain_def)

lemma set_retain [simp]: "set (hm_retain p m) = {(k, v). (k, v) \<in> set m \<and> p k v}"
  by (auto simp: hm_retain_def)

lemma hm_wf_map_of_iff: "hm_wf m \<Longrightarrow> (k, v) \<in> set m \<longleftrightarrow> map_of m k = Some v"
  by (auto simp: hm_wf_def)

lemma hm_forall_iff: "hm_wf m \<Longrightarrow> (\<forall>(k, v) \<in> set m. p k v) \<longleftrightarrow> (\<forall>k v. map_of m k = Some v \<longrightarrow> p k v)"
  by (auto simp: hm_wf_map_of_iff)

section \<open>Splitting into chunks\<close>

text \<open>\<open>slice::chunks(n)\<close> and \<open>usize::div_ceil\<close>.\<close>

function chunks :: "nat \<Rightarrow> 'a list \<Rightarrow> 'a list list" where
  "chunks n xs = (if n = 0 \<or> xs = [] then [] else take n xs # chunks n (drop n xs))"
  by pat_completeness auto
termination
  by (relation "measure (\<lambda>(n, xs). length xs)") auto

declare chunks.simps [simp del]

definition div_ceil :: "nat \<Rightarrow> nat \<Rightarrow> nat" where
  "div_ceil a b = (if a mod b = 0 then a div b else a div b + 1)"

lemma chunks_Nil [simp]: "chunks n [] = []"
  by (simp add: chunks.simps)

lemma chunks_step: "0 < n \<Longrightarrow> xs \<noteq> [] \<Longrightarrow> chunks n xs = take n xs # chunks n (drop n xs)"
  by (simp add: chunks.simps [of n xs])

lemma concat_chunks: "0 < n \<Longrightarrow> concat (chunks n xs) = xs"
proof (induction n xs rule: chunks.induct)
  case (1 n xs)
  then show ?case by (cases "xs = []") (simp_all add: chunks_step [of n xs])
qed

lemma chunks_sizes: "0 < n \<Longrightarrow> c \<in> set (chunks n xs) \<Longrightarrow> c \<noteq> [] \<and> length c \<le> n"
proof (induction n xs rule: chunks.induct)
  case (1 n xs)
  then show ?case by (cases "xs = []") (auto simp: chunks_step [of n xs])
qed

lemma div_ceil_step: "0 < b \<Longrightarrow> 0 < a \<Longrightarrow> div_ceil a b = Suc (div_ceil (a - b) b)"
proof -
  assume "0 < b" "0 < a"
  show ?thesis
  proof (cases "a < b")
    case True
    then show ?thesis using \<open>0 < a\<close> by (simp add: div_ceil_def)
  next
    case False
    then show ?thesis using \<open>0 < b\<close> by (simp add: div_ceil_def le_div_geq le_mod_geq)
  qed
qed

lemma length_chunks: "0 < n \<Longrightarrow> length (chunks n xs) = div_ceil (length xs) n"
proof (induction n xs rule: chunks.induct)
  case (1 n xs)
  then show ?case
    by (cases "xs = []") (simp_all add: chunks_step [of n xs] div_ceil_step div_ceil_def [of 0])
qed

section \<open>Interfaces shared by several components\<close>

text \<open>A component driven by inputs whose every step keeps an invariant.\<close>

locale state_machine =
  fixes step :: "'s \<Rightarrow> 'i \<Rightarrow> 's"
    and init :: "'s \<Rightarrow> bool"
    and inv :: "'s \<Rightarrow> bool"
  assumes init_inv: "init s \<Longrightarrow> inv s"
    and step_inv: "inv s \<Longrightarrow> inv (step s i)"
begin

lemma run_inv: "inv s \<Longrightarrow> inv (foldl step s is)"
  by (induction "is" arbitrary: s) (simp_all add: step_inv)

lemma reachable_inv: "init s \<Longrightarrow> inv (foldl step s is)"
  by (rule run_inv) (rule init_inv)

end

text \<open>
  A wire format: every valid value survives encoding, and a decoder accepts nothing but
  the encodings of valid values, so the format has no second spelling of any value.
\<close>

locale wire_codec =
  fixes encode :: "'a \<Rightarrow> bytes"
    and decode :: "bytes \<Rightarrow> 'e + 'a"
    and valid :: "'a \<Rightarrow> bool"
  assumes decode_encode: "valid x \<Longrightarrow> decode (encode x) = Inr x"
    and encode_decode: "decode bs = Inr x \<Longrightarrow> encode x = bs \<and> valid x"
begin

lemma decode_iff: "decode bs = Inr x \<longleftrightarrow> valid x \<and> encode x = bs"
  using decode_encode encode_decode by blast

lemma encode_inj: "valid x \<Longrightarrow> valid y \<Longrightarrow> encode x = encode y \<Longrightarrow> x = y"
  by (metis decode_encode sum.inject(2))

lemma not_malleable: "decode a = Inr x \<Longrightarrow> decode b = Inr x \<Longrightarrow> a = b"
  using encode_decode by metis

lemma rejects_iff: "(\<exists>e. decode bs = Inl e) \<longleftrightarrow> (\<forall>x. valid x \<longrightarrow> encode x \<noteq> bs)"
  by (cases "decode bs") (metis decode_encode sum.distinct(1), metis encode_decode sum.distinct(1))

end

text \<open>
  An admission guard: \<open>admit s k\<close> is the state after letting \<open>k\<close> through, or
  nothing when \<open>k\<close> is turned away. What is blocked is turned away and stays blocked,
  and letting a key through blocks it.
\<close>

fun accepted :: "('s \<Rightarrow> 'k \<Rightarrow> 's option) \<Rightarrow> 's \<Rightarrow> 'k list \<Rightarrow> 'k list" where
  "accepted admit s [] = []"
| "accepted admit s (k # ks) =
     (case admit s k of None \<Rightarrow> accepted admit s ks | Some s' \<Rightarrow> k # accepted admit s' ks)"

locale once_guard =
  fixes admit :: "'s \<Rightarrow> 'k \<Rightarrow> 's option"
    and blocked :: "'s \<Rightarrow> 'k \<Rightarrow> bool"
  assumes blocked_refused: "blocked s k \<Longrightarrow> admit s k = None"
    and admit_blocks: "admit s k = Some s' \<Longrightarrow> blocked s' k"
    and blocked_mono: "admit s k = Some s' \<Longrightarrow> blocked s k' \<Longrightarrow> blocked s' k'"
begin

lemma blocked_not_accepted: "blocked s k \<Longrightarrow> k \<notin> set (accepted admit s ks)"
proof (induction ks arbitrary: s)
  case Nil
  then show ?case by simp
next
  case (Cons k0 ks)
  show ?case
  proof (cases "admit s k0")
    case None
    with Cons show ?thesis by simp
  next
    case (Some s')
    from Cons.prems have "k \<noteq> k0" using Some blocked_refused by auto
    moreover from Cons.prems Some have "blocked s' k" by (rule blocked_mono [rotated])
    ultimately show ?thesis using Cons.IH Some by simp
  qed
qed

lemma accepted_distinct: "distinct (accepted admit s ks)"
proof (induction ks arbitrary: s)
  case Nil
  then show ?case by simp
next
  case (Cons k ks)
  then show ?case
    by (cases "admit s k") (auto dest: admit_blocks blocked_not_accepted)
qed

end

end
