(* ===== verification/Onion_Types.thy ===== *)
theory Onion_Types
  imports Prelude
begin

text \<open>
  Constants, error values, enumerations and the setup context of
  \<open>crates/peerless-onion-protocol\<close>, with the payload budget of a circuit. Sizes and
  counts are \<open>usize\<close> values that stay far below \<open>2 ^ 64\<close> and are natural numbers here;
  sequence numbers, epochs and times keep their width.
\<close>

section \<open>Constants\<close>

definition PROTOCOL_VERSION :: u16 where "PROTOCOL_VERSION = 1"
definition SETUP_REQUEST_SIZE :: nat where "SETUP_REQUEST_SIZE = 128"
definition SETUP_RESPONSE_SIZE :: nat where "SETUP_RESPONSE_SIZE = 160"
definition CELL_SIZE :: nat where "CELL_SIZE = 1024"
definition MAX_HOPS :: nat where "MAX_HOPS = 3"
definition MAX_FRAGMENT_COUNT :: nat where "MAX_FRAGMENT_COUNT = 1024"
definition MAX_MESSAGE_SIZE :: nat where "MAX_MESSAGE_SIZE = 512 * 1024"
definition SETUP_MAGIC :: bytes where "SETUP_MAGIC = [0x50, 0x4C, 0x53, 0x31]"
definition RESPONSE_MAGIC :: bytes where "RESPONSE_MAGIC = [0x50, 0x4C, 0x52, 0x31]"
definition CELL_MAGIC :: bytes where "CELL_MAGIC = [0x50, 0x4C, 0x43, 0x31]"
definition SETUP_FIELDS_SIZE :: nat where "SETUP_FIELDS_SIZE = 104"
definition RESPONSE_FIELDS_SIZE :: nat where "RESPONSE_FIELDS_SIZE = 152"
definition CELL_HEADER_SIZE :: nat where "CELL_HEADER_SIZE = 50"
definition TAG_SIZE :: nat where "TAG_SIZE = 16"
definition LAYER_HEADER_SIZE :: nat where "LAYER_HEADER_SIZE = 3"
definition MAX_LAYER_DATA :: nat where
  "MAX_LAYER_DATA = CELL_SIZE - CELL_HEADER_SIZE - TAG_SIZE - LAYER_HEADER_SIZE"
definition MAX_FUTURE_SEQUENCE_JUMP :: u64 where "MAX_FUTURE_SEQUENCE_JUMP = 64"
definition REPLAY_WINDOW_BITS :: u64 where "REPLAY_WINDOW_BITS = 128"
definition MAX_INFLIGHT_MESSAGES :: nat where "MAX_INFLIGHT_MESSAGES = 16"
definition FRAGMENT_HEADER_SIZE :: nat where "FRAGMENT_HEADER_SIZE = 16 + 4 + 4 + 4"

lemmas onion_sizes = SETUP_REQUEST_SIZE_def SETUP_RESPONSE_SIZE_def CELL_SIZE_def MAX_HOPS_def
  MAX_FRAGMENT_COUNT_def MAX_MESSAGE_SIZE_def SETUP_FIELDS_SIZE_def RESPONSE_FIELDS_SIZE_def
  CELL_HEADER_SIZE_def TAG_SIZE_def LAYER_HEADER_SIZE_def MAX_LAYER_DATA_def
  MAX_INFLIGHT_MESSAGES_def FRAGMENT_HEADER_SIZE_def

section \<open>Errors and enumerations\<close>

datatype onion_error =
    UnsupportedVersion
  | InvalidEncoding
  | Expired
  | TranscriptMismatch
  | KeyAgreementFailed
  | AuthenticationFailed
  | WrongScope
  | Replay
  | OutOfWindow
  | HopLimit
  | PayloadTooLarge
  | FragmentCapacity

definition max_payload_for_hops :: "nat \<Rightarrow> onion_error + nat" where
  "max_payload_for_hops hops =
     (if hops = 0 \<or> hops > MAX_HOPS then Inl HopLimit
      else
        let layer_overhead = CELL_HEADER_SIZE + TAG_SIZE + LAYER_HEADER_SIZE;
            used = (hops - 1) * layer_overhead
        in if used \<le> MAX_LAYER_DATA then Inr (MAX_LAYER_DATA - used) else Inl PayloadTooLarge)"

datatype direction = Forward | Reverse

fun direction_u8 :: "direction \<Rightarrow> u8" where
  "direction_u8 Forward = 1"
| "direction_u8 Reverse = 2"

definition direction_try_from :: "u8 \<Rightarrow> onion_error + direction" where
  "direction_try_from v =
     (if v = 1 then Inr Forward else if v = 2 then Inr Reverse else Inl InvalidEncoding)"

datatype cell_type = Setup | Data | Padding | Response | Rotation | Teardown

fun cell_type_u8 :: "cell_type \<Rightarrow> u8" where
  "cell_type_u8 Setup = 1"
| "cell_type_u8 Data = 2"
| "cell_type_u8 Padding = 3"
| "cell_type_u8 Response = 4"
| "cell_type_u8 Rotation = 5"
| "cell_type_u8 Teardown = 6"

definition cell_type_try_from :: "u8 \<Rightarrow> onion_error + cell_type" where
  "cell_type_try_from v =
     (if v = 1 then Inr Setup else if v = 2 then Inr Data else if v = 3 then Inr Padding
      else if v = 4 then Inr Response else if v = 5 then Inr Rotation
      else if v = 6 then Inr Teardown else Inl InvalidEncoding)"

section \<open>Setup context\<close>

record setup_context =
  ctx_circuit_id :: bytes
  ctx_hop :: u8
  ctx_epoch :: u64
  ctx_expires_at :: u64

definition context_validate :: "setup_context \<Rightarrow> u64 \<Rightarrow> onion_error + unit" where
  "context_validate c now =
     (if ctx_hop c \<ge> of_nat MAX_HOPS \<or> ctx_expires_at c \<le> now
      then Inl (if ctx_expires_at c \<le> now then Expired else HopLimit)
      else Inr ())"

section \<open>Lemmas\<close>

lemma direction_round_trip [simp]: "direction_try_from (direction_u8 d) = Inr d"
  by (cases d) (simp_all add: direction_try_from_def)

lemma direction_try_from_Inr: "direction_try_from v = Inr d \<longleftrightarrow> v = direction_u8 d"
  by (cases d) (auto simp: direction_try_from_def)

lemma cell_type_round_trip [simp]: "cell_type_try_from (cell_type_u8 t) = Inr t"
  by (cases t) (simp_all add: cell_type_try_from_def)

lemma cell_type_u8_nonzero [simp]: "cell_type_u8 t \<noteq> 0"
  by (cases t) simp_all

lemma context_validate_Inr_iff:
  "context_validate c now = Inr () \<longleftrightarrow> now < ctx_expires_at c \<and> ctx_hop c < 3"
  by (auto simp: context_validate_def onion_sizes)

lemma max_payload_values:
  "max_payload_for_hops 1 = Inr 955" "max_payload_for_hops 2 = Inr 886" "max_payload_for_hops 3 = Inr 817"
  by (simp_all add: max_payload_for_hops_def onion_sizes)

end
