(* ===== verification/Float64.thy ===== *)
theory Float64
  imports Complex_Main Prelude
begin

text \<open>
  The \<open>f64\<close> arithmetic the sources use: a value is a NaN, an infinity or a finite number, each with
  its sign bit, and an operation is the exact rational result rounded to the nearest binary64
  number, ties to even. The payload of a NaN is not kept, and where the language leaves the sign
  of a computed NaN open it is taken positive. \<open>total_cmp\<close> is the linear order of the type.
\<close>

section \<open>Values and rounding\<close>

datatype f64 = F64NaN bool | F64Inf bool | F64Fin bool rat

fun signed_rat :: "bool \<Rightarrow> rat \<Rightarrow> rat" where
  "signed_rat neg m = (if neg then - m else m)"

function bit_length :: "int \<Rightarrow> int" where
  "bit_length n = (if n \<le> 0 then 0 else bit_length (n div 2) + 1)"
  by auto
termination by (relation "measure nat") auto

declare bit_length.simps [simp del]

definition pow2 :: "int \<Rightarrow> rat" where
  "pow2 e = (if 0 \<le> e then 2 ^ nat e else 1 / 2 ^ nat (- e))"

text \<open>The exponent of a positive number: the greatest \<open>e\<close> with \<open>2\<^sup>e\<close> at most the number.\<close>

definition exponent :: "rat \<Rightarrow> int" where
  "exponent m =
     (let (n, d) = quotient_of m; e = bit_length n - bit_length d in
      if pow2 e \<le> m then e else e - 1)"

definition round_half_even :: "rat \<Rightarrow> int" where
  "round_half_even q =
     (let k = \<lfloor>q\<rfloor>; r = q - of_int k in
      if r < 1 / 2 \<or> (r = 1 / 2 \<and> even k) then k else k + 1)"

definition f64_round :: "bool \<Rightarrow> rat \<Rightarrow> f64" where
  "f64_round neg m =
     (if m = 0 then F64Fin neg 0
      else
        let ulp = pow2 (max (exponent m - 52) (- 1074));
            v = of_int (round_half_even (m / ulp)) * ulp
        in if v \<noteq> 0 \<and> 1024 \<le> exponent v then F64Inf neg else F64Fin neg v)"

abbreviation f64_lit :: "rat \<Rightarrow> f64" where
  "f64_lit \<equiv> f64_round False"

section \<open>Operations\<close>

definition f64_is_finite :: "f64 \<Rightarrow> bool" where
  "f64_is_finite x = (case x of F64Fin _ _ \<Rightarrow> True | _ \<Rightarrow> False)"

definition f64_le :: "f64 \<Rightarrow> f64 \<Rightarrow> bool" where
  "f64_le x y = (case (x, y) of
       (F64NaN _, _) \<Rightarrow> False | (_, F64NaN _) \<Rightarrow> False
     | (F64Inf neg, F64Inf neg') \<Rightarrow> neg \<or> \<not> neg'
     | (F64Inf neg, F64Fin _ _) \<Rightarrow> neg
     | (F64Fin _ _, F64Inf neg) \<Rightarrow> \<not> neg
     | (F64Fin s a, F64Fin t b) \<Rightarrow> signed_rat s a \<le> signed_rat t b)"

definition f64_lt :: "f64 \<Rightarrow> f64 \<Rightarrow> bool" where
  "f64_lt x y \<longleftrightarrow> f64_le x y \<and> \<not> f64_le y x"

fun f64_neg :: "f64 \<Rightarrow> f64" where
  "f64_neg (F64NaN s) = F64NaN (\<not> s)"
| "f64_neg (F64Inf s) = F64Inf (\<not> s)"
| "f64_neg (F64Fin s m) = F64Fin (\<not> s) m"

fun f64_add :: "f64 \<Rightarrow> f64 \<Rightarrow> f64" where
  "f64_add (F64Fin s a) (F64Fin t b) =
     (let v = signed_rat s a + signed_rat t b in
      if v = 0 then F64Fin (s \<and> t) 0 else f64_round (v < 0) \<bar>v\<bar>)"
| "f64_add (F64Inf s) (F64Inf t) = (if s = t then F64Inf s else F64NaN False)"
| "f64_add (F64Inf s) (F64Fin t b) = F64Inf s"
| "f64_add (F64Fin s a) (F64Inf t) = F64Inf t"
| "f64_add _ _ = F64NaN False"

definition f64_sub :: "f64 \<Rightarrow> f64 \<Rightarrow> f64" where
  "f64_sub x y = f64_add x (f64_neg y)"

fun f64_mul :: "f64 \<Rightarrow> f64 \<Rightarrow> f64" where
  "f64_mul (F64Fin s a) (F64Fin t b) = f64_round (s \<noteq> t) (a * b)"
| "f64_mul (F64Inf s) (F64Inf t) = F64Inf (s \<noteq> t)"
| "f64_mul (F64Inf s) (F64Fin t b) = (if b = 0 then F64NaN False else F64Inf (s \<noteq> t))"
| "f64_mul (F64Fin s a) (F64Inf t) = (if a = 0 then F64NaN False else F64Inf (s \<noteq> t))"
| "f64_mul _ _ = F64NaN False"

fun f64_div :: "f64 \<Rightarrow> f64 \<Rightarrow> f64" where
  "f64_div (F64Fin s a) (F64Fin t b) =
     (if b = 0 then (if a = 0 then F64NaN False else F64Inf (s \<noteq> t)) else f64_round (s \<noteq> t) (a / b))"
| "f64_div (F64Inf s) (F64Fin t b) = F64Inf (s \<noteq> t)"
| "f64_div (F64Fin s a) (F64Inf t) = F64Fin (s \<noteq> t) 0"
| "f64_div _ _ = F64NaN False"

definition f64_clamp :: "f64 \<Rightarrow> f64 \<Rightarrow> f64 \<Rightarrow> f64" where
  "f64_clamp x lo hi =
     (let x = if f64_lt x lo then lo else x in if f64_lt hi x then hi else x)"

definition f64_max :: "f64 \<Rightarrow> f64 \<Rightarrow> f64" where
  "f64_max x y = (case (x, y) of (F64NaN _, _) \<Rightarrow> y | (_, F64NaN _) \<Rightarrow> x | _ \<Rightarrow> if f64_lt x y then y else x)"

definition f64_of_nat :: "nat \<Rightarrow> f64" where
  "f64_of_nat n = f64_round False (of_nat n)"

section \<open>The total order\<close>

fun total_rank :: "f64 \<Rightarrow> int \<times> rat" where
  "total_rank (F64NaN s) = (if s then - 3 else 3, 0)"
| "total_rank (F64Inf s) = (if s then - 2 else 2, 0)"
| "total_rank (F64Fin s m) = (if s then - 1 else 1, signed_rat s m)"

lemma total_rank_inj: "total_rank x = total_rank y \<Longrightarrow> x = y"
  by (cases x; cases y) (auto split: if_splits)

instantiation f64 :: linorder
begin

definition less_eq_f64 :: "f64 \<Rightarrow> f64 \<Rightarrow> bool" where
  "less_eq_f64 x y \<longleftrightarrow> fst (total_rank x) < fst (total_rank y)
     \<or> fst (total_rank x) = fst (total_rank y) \<and> snd (total_rank x) \<le> snd (total_rank y)"

definition less_f64 :: "f64 \<Rightarrow> f64 \<Rightarrow> bool" where
  "less_f64 x y \<longleftrightarrow> x \<le> y \<and> \<not> y \<le> x"

instance
proof
  fix x y z :: f64
  show "x < y \<longleftrightarrow> x \<le> y \<and> \<not> y \<le> x" by (simp add: less_f64_def)
  show "x \<le> x" by (simp add: less_eq_f64_def)
  show "x \<le> y \<Longrightarrow> y \<le> z \<Longrightarrow> x \<le> z" by (auto simp: less_eq_f64_def)
  show "x \<le> y \<Longrightarrow> y \<le> x \<Longrightarrow> x = y" unfolding less_eq_f64_def by (rule total_rank_inj, rule prod_eqI) auto
  show "x \<le> y \<or> y \<le> x" by (auto simp: less_eq_f64_def)
qed

end

section \<open>Lemmas\<close>

lemma f64_clamp_unit:
  fixes x :: f64
  shows "f64_clamp x (F64Fin False 0) (F64Fin False 1) = x \<and> (\<exists>s. x = F64NaN s)
    \<or> f64_le (F64Fin False 0) (f64_clamp x (F64Fin False 0) (F64Fin False 1))
      \<and> f64_le (f64_clamp x (F64Fin False 0) (F64Fin False 1)) (F64Fin False 1)"
  by (cases x) (auto simp: f64_clamp_def f64_lt_def f64_le_def Let_def)

end
