(* ===== verification/Formatting.thy ===== *)
theory Formatting
  imports Prelude "HOL-Library.Char_ord" "HOL-Library.List_Lexorder"
begin

text \<open>
  The part of Rust's \<open>std::fmt\<close> the sources use to build file names: \<open>{:02x}\<close> on a
  byte, \<open>{}\<close> and \<open>{:020}\<close> on an unsigned integer, and the byte order in which directory
  entries are sorted. A \<open>String\<close> is the list of its UTF-8 bytes.
\<close>

section \<open>Hexadecimal\<close>

definition hex_digit :: "nat \<Rightarrow> char" where
  "hex_digit n = char_of (if n < 10 then 48 + n else 87 + n)"

definition hex_value :: "char \<Rightarrow> nat option" where
  "hex_value c = (let n = of_char c :: nat in
     if 48 \<le> n \<and> n < 58 then Some (n - 48)
     else if 97 \<le> n \<and> n < 103 then Some (n - 87)
     else None)"

definition fmt_02x :: "u8 \<Rightarrow> string" where
  "fmt_02x w = [hex_digit (unat w div 16), hex_digit (unat w mod 16)]"

fun unhex :: "string \<Rightarrow> bytes option" where
  "unhex [] = Some []"
| "unhex [c] = None"
| "unhex (c # d # cs) =
     (case (hex_value c, hex_value d, unhex cs) of
        (Some a, Some b, Some bs) \<Rightarrow> Some (of_nat (16 * a + b) # bs)
      | _ \<Rightarrow> None)"

lemma of_char_hex_digit:
  "n < 16 \<Longrightarrow> of_char (hex_digit n) = (if n < 10 then 48 + n else 87 + n)"
  by (simp add: hex_digit_def of_char_of)

lemma hex_value_digit [simp]: "n < 16 \<Longrightarrow> hex_value (hex_digit n) = Some n"
  by (auto simp: hex_value_def of_char_hex_digit Let_def)

lemma u8_nibbles: "unat (w :: u8) div 16 < 16" "unat w mod 16 < 16"
  using unat_bound [of w] by auto

lemma unhex_fmt [simp]: "unhex (fmt_02x w @ cs) = map_option ((#) w) (unhex cs)"
  using u8_nibbles [of w] by (auto simp: fmt_02x_def split: option.splits)

lemma unhex_concat [simp]: "unhex (concat (map fmt_02x bs)) = Some bs"
proof (induction bs)
  case Nil
  then show ?case by simp
next
  case (Cons w bs)
  then show ?case using unhex_fmt [of w "concat (map fmt_02x bs)"] by simp
qed

lemma length_fmt_02x [simp]: "length (fmt_02x w) = 2"
  by (simp add: fmt_02x_def)

lemma length_concat_fmt_02x [simp]: "length (concat (map fmt_02x bs)) = 2 * length bs"
  by (induction bs) auto

lemma fmt_02x_inj: "fmt_02x v = fmt_02x w \<Longrightarrow> v = w"
  using unhex_fmt [of v "[]"] unhex_fmt [of w "[]"] by simp

section \<open>Decimal\<close>

fun fmt_dec :: "nat \<Rightarrow> string" where
  "fmt_dec n = (if n < 10 then [char_of (48 + n)] else fmt_dec (n div 10) @ [char_of (48 + n mod 10)])"

declare fmt_dec.simps [simp del]

definition fmt_020 :: "nat \<Rightarrow> string" where
  "fmt_020 n = replicate (20 - length (fmt_dec n)) (CHR ''0'') @ fmt_dec n"

definition read_dec :: "string \<Rightarrow> nat" where
  "read_dec s = foldl (\<lambda>a c. a * 10 + (of_char c - 48)) 0 s"

lemma read_dec_snoc [simp]: "read_dec (s @ [c]) = read_dec s * 10 + (of_char c - 48)"
  by (simp add: read_dec_def)

lemma read_dec_Nil [simp]: "read_dec [] = 0"
  by (simp add: read_dec_def)

lemma of_char_digit: "n < 10 \<Longrightarrow> of_char (char_of (48 + n) :: char) = (48 + n :: nat)"
  by (simp add: of_char_of)

lemma read_fmt_dec [simp]: "read_dec (fmt_dec n) = n"
proof (induction n rule: fmt_dec.induct)
  case (1 n)
  show ?case
  proof (cases "n < 10")
    case True
    then have "fmt_dec n = [] @ [char_of (48 + n)]" by (simp add: fmt_dec.simps [of n])
    with True show ?thesis by (simp only: read_dec_snoc) (simp add: of_char_digit)
  next
    case False
    with "1" show ?thesis
      by (simp add: fmt_dec.simps [of n] of_char_digit)
  qed
qed

lemma fmt_dec_inj: "fmt_dec m = fmt_dec n \<Longrightarrow> m = n"
  using read_fmt_dec by metis

lemma read_dec_zeros [simp]: "read_dec (replicate k (CHR ''0'') @ s) = read_dec s"
proof -
  have "foldl (\<lambda>a c. a * 10 + (of_char c - 48)) (0::nat) (replicate k (CHR ''0'')) = 0"
    by (induction k) auto
  then show ?thesis by (simp add: read_dec_def)
qed

lemma fmt_020_inj: "fmt_020 m = fmt_020 n \<Longrightarrow> m = n"
  unfolding fmt_020_def using read_dec_zeros read_fmt_dec by metis

lemma length_fmt_dec_le: "n < 10 ^ k \<Longrightarrow> 0 < k \<Longrightarrow> length (fmt_dec n) \<le> k"
proof (induction k arbitrary: n)
  case 0
  then show ?case by simp
next
  case (Suc k)
  show ?case
  proof (cases "n < 10")
    case True
    then show ?thesis by (simp add: fmt_dec.simps [of n])
  next
    case False
    with Suc.prems have "n div 10 < 10 ^ k" by (simp add: less_mult_imp_div_less mult.commute)
    moreover from False Suc.prems have "0 < k" by (cases k) auto
    ultimately have "length (fmt_dec (n div 10)) \<le> k" by (rule Suc.IH)
    with False show ?thesis by (simp add: fmt_dec.simps [of n])
  qed
qed

lemma u64_below_20_digits: "unat (w :: u64) < 10 ^ 20"
  using unat_bound [of w] by simp

lemma length_fmt_020 [simp]: "length (fmt_020 (unat (w :: u64))) = 20"
  using length_fmt_dec_le [OF u64_below_20_digits [of w]] by (simp add: fmt_020_def)

end
