(* ===== verification/Core.thy ===== *)
theory Core
  imports Float64 Formatting
begin

text \<open>
  The stable domain types of \<open>crates/peerless-core\<close>: content and node identifiers with
  their textual forms, tasks, capabilities and replication policies. SHA-256 and the
  hexadecimal codec are third-party crates; they are the fields of \<open>hash_lib\<close>, and what
  the code relies on is stated as \<open>sha_ok\<close> and \<open>hex_ok\<close>.
\<close>

section \<open>Hash and hexadecimal libraries\<close>

record hash_lib =
  sha256 :: "bytes \<Rightarrow> bytes"
  hex_encode :: "bytes \<Rightarrow> string"
  hex_decode :: "string \<Rightarrow> bytes option"

definition sha_ok :: "'z hash_lib_scheme \<Rightarrow> bool" where
  "sha_ok L \<longleftrightarrow> (\<forall>b. length (sha256 L b) = 32)"

definition hex_ok :: "'z hash_lib_scheme \<Rightarrow> bool" where
  "hex_ok L \<longleftrightarrow> (\<forall>b. hex_decode L (hex_encode L b) = Some b \<and> length (hex_encode L b) = 2 * length b)"

section \<open>Content identifiers\<close>

datatype content_id = ContentId (digest: bytes)

datatype content_id_error = UnsupportedAlgorithm | InvalidDigest

definition content_of :: "'z hash_lib_scheme \<Rightarrow> bytes \<Rightarrow> content_id" where
  "content_of L bs = ContentId (sha256 L bs)"

definition content_hex_digest :: "'z hash_lib_scheme \<Rightarrow> content_id \<Rightarrow> string" where
  "content_hex_digest L i = hex_encode L (digest i)"

definition content_verify :: "'z hash_lib_scheme \<Rightarrow> content_id \<Rightarrow> bytes \<Rightarrow> bool" where
  "content_verify L i bs \<longleftrightarrow> i = content_of L bs"

definition content_display :: "'z hash_lib_scheme \<Rightarrow> content_id \<Rightarrow> string" where
  "content_display L i = ''sha256'' @ '':'' @ hex_encode L (digest i)"

definition strip_prefix :: "string \<Rightarrow> string \<Rightarrow> string option" where
  "strip_prefix p s = (if take (length p) s = p then Some (drop (length p) s) else None)"

definition content_from_str :: "'z hash_lib_scheme \<Rightarrow> string \<Rightarrow> content_id_error + content_id" where
  "content_from_str L value =
     bind_r (ok_or UnsupportedAlgorithm (strip_prefix ''sha256:'' value)) (\<lambda>d.
     bind_r (ok_or InvalidDigest (hex_decode L d)) (\<lambda>bs.
     if length bs = 32 then Inr (ContentId bs) else Inl InvalidDigest))"

section \<open>Node identifiers\<close>

datatype node_id = NodeId (node_bytes: bytes)

datatype node_id_error = NodeIdError

definition node_derive :: "'z hash_lib_scheme \<Rightarrow> bytes \<Rightarrow> node_id" where
  "node_derive L public_key = NodeId (sha256 L public_key)"

definition node_display :: "'z hash_lib_scheme \<Rightarrow> node_id \<Rightarrow> string" where
  "node_display L n = hex_encode L (node_bytes n)"

definition node_from_str :: "'z hash_lib_scheme \<Rightarrow> string \<Rightarrow> node_id_error + node_id" where
  "node_from_str L value =
     bind_r (ok_or NodeIdError (hex_decode L value)) (\<lambda>bs.
     if length bs \<noteq> 32 then Inl NodeIdError else Inr (NodeId bs))"

text \<open>Node identifiers are ordered by their bytes, as the derived \<open>Ord\<close> is.\<close>

instantiation node_id :: linorder
begin

definition less_eq_node_id :: "node_id \<Rightarrow> node_id \<Rightarrow> bool" where
  "less_eq_node_id a b \<longleftrightarrow> node_bytes a \<le> node_bytes b"

definition less_node_id :: "node_id \<Rightarrow> node_id \<Rightarrow> bool" where
  "less_node_id a b \<longleftrightarrow> node_bytes a < node_bytes b"

instance
  by standard (auto simp: less_eq_node_id_def less_node_id_def intro: node_id.expand)

end

section \<open>Tasks and capabilities\<close>

datatype network_requirement = NetNone | NetOptional | NetRequired

datatype verification_policy =
    TrustExecutor
  | Replicate u8
  | Quorum (q_executions: u8) (q_required_matches: u8)

record requirements =
  minimum_memory :: u64
  minimum_storage :: u64
  req_runtime :: string
  estimated_cpu_cost :: u64
  req_network :: network_requirement

record task =
  task_id :: string
  task_component :: content_id
  task_input :: content_id
  task_requirements :: requirements
  task_verification :: verification_policy
  task_deadline :: "u64 option"

record replication_policy =
  minimum_replicas :: u8
  target_replicas :: u8

definition replication_validate :: "replication_policy \<Rightarrow> bool" where
  "replication_validate p \<longleftrightarrow> minimum_replicas p > 0 \<and> target_replicas p \<ge> minimum_replicas p"

datatype power_state = PowerAc | PowerBattery | PowerUnknown

record node_capability =
  cap_node :: node_id
  cpu_cores :: u16
  available_cpu :: f64
  available_memory :: u64
  available_storage :: u64
  runtimes :: "string list"
  cap_power :: power_state
  cap_load :: f64
  task_slots :: u16
  cap_expires_at :: u64

definition supports :: "node_capability \<Rightarrow> string \<Rightarrow> bool" where
  "supports c r = list_ex (\<lambda>candidate. candidate = r) (runtimes c)"

definition is_fresh_at :: "node_capability \<Rightarrow> u64 \<Rightarrow> bool" where
  "is_fresh_at c now \<longleftrightarrow> cap_expires_at c > now"

section \<open>Identifier lemmas\<close>

lemma strip_prefix_append [simp]: "strip_prefix p (p @ s) = Some s"
  by (simp add: strip_prefix_def)

lemma strip_prefix_Some: "strip_prefix p s = Some r \<longleftrightarrow> s = p @ r"
  by (auto simp: strip_prefix_def) (metis append_take_drop_id)

lemma content_of_length: "sha_ok L \<Longrightarrow> length (digest (content_of L bs)) = 32"
  by (simp add: sha_ok_def content_of_def)

lemma node_derive_length: "sha_ok L \<Longrightarrow> length (node_bytes (node_derive L pk)) = 32"
  by (simp add: sha_ok_def node_derive_def)

lemma hex_encode_inj: "hex_ok L \<Longrightarrow> hex_encode L a = hex_encode L b \<Longrightarrow> a = b"
  by (metis hex_ok_def option.inject)

lemma content_verify_of [simp]: "content_verify L (content_of L bs) bs"
  by (simp add: content_verify_def)

text \<open>Two different byte strings under one identifier are a SHA-256 collision.\<close>

lemma content_verify_collision:
  "content_verify L i a \<Longrightarrow> content_verify L i b \<Longrightarrow> sha256 L a = sha256 L b"
  by (auto simp: content_verify_def content_of_def)

lemma content_from_str_Inr_length: "content_from_str L s = Inr i \<Longrightarrow> length (digest i) = 32"
  by (auto simp: content_from_str_def result_simps split: if_splits)

text \<open>A library instance for closed examples: a 32-byte fold of the input and real hexadecimal.\<close>

definition example_sha :: "bytes \<Rightarrow> bytes" where
  "example_sha bs = take 32 (bs @ replicate 32 0)"

definition example_hash_lib :: hash_lib where
  "example_hash_lib = \<lparr>sha256 = example_sha, hex_encode = (\<lambda>b. concat (map fmt_02x b)), hex_decode = unhex\<rparr>"

lemma example_hash_lib_ok: "sha_ok example_hash_lib" "hex_ok example_hash_lib"
  by (simp_all add: sha_ok_def hex_ok_def example_hash_lib_def example_sha_def min_def)

end
