(* ===== verification/Onion_Setup.thy ===== *)
theory Onion_Setup
  imports Onion_Types Core
begin

text \<open>
  Circuit setup: the 128-byte request and 160-byte response formats
  (\<open>encode_setup_request\<close>, \<open>parse_setup_request\<close>, \<open>encode_setup_response\<close>,
  \<open>parse_setup_response\<close>), the transcript, key derivation and the two sides of the
  handshake (\<open>InitiatorSetup\<close>, \<open>RelaySetup\<close>). X25519, HKDF and ChaCha20-Poly1305 are
  fields of \<open>onion_lib\<close>; secret keys, which the code draws at random, are arguments.
\<close>

section \<open>Cryptographic libraries\<close>

record onion_lib = hash_lib +
  hkdf_expand :: "bytes \<Rightarrow> bytes \<Rightarrow> bytes \<Rightarrow> nat \<Rightarrow> bytes option"
  aead_encrypt :: "bytes \<Rightarrow> bytes \<Rightarrow> bytes \<Rightarrow> bytes \<Rightarrow> (bytes \<times> bytes) option"
  aead_decrypt :: "bytes \<Rightarrow> bytes \<Rightarrow> bytes \<Rightarrow> bytes \<Rightarrow> bytes \<Rightarrow> bytes option"
  x_public :: "bytes \<Rightarrow> bytes"
  x_dh :: "bytes \<Rightarrow> bytes \<Rightarrow> bytes"
  x_contributory :: "bytes \<Rightarrow> bool"

text \<open>
  Documented behaviour: encryption of a cell-sized plaintext succeeds, keeps the length,
  appends a 16-byte tag and is undone by decryption with the same key, nonce and associated
  data; Diffie-Hellman is symmetric on 32-byte keys; HKDF returns the requested length.
\<close>

definition aead_ok :: "'z onion_lib_scheme \<Rightarrow> bool" where
  "aead_ok L \<longleftrightarrow> (\<forall>k n a p. length p \<le> CELL_SIZE \<longrightarrow>
     (\<exists>c t. aead_encrypt L k n a p = Some (c, t) \<and> length c = length p \<and>
        length t = 16 \<and> aead_decrypt L k n a c t = Some p))"

definition dh_ok :: "'z onion_lib_scheme \<Rightarrow> bool" where
  "dh_ok L \<longleftrightarrow> (\<forall>a b. x_dh L a (x_public L b) = x_dh L b (x_public L a)) \<and> (\<forall>a. length (x_public L a) = 32)"

definition hkdf_ok :: "'z onion_lib_scheme \<Rightarrow> bool" where
  "hkdf_ok L \<longleftrightarrow> (\<forall>s i f. \<exists>k. hkdf_expand L s i f 104 = Some k \<and> length k = 104)"

section \<open>Wire formats\<close>

record parsed_setup_request =
  preq_context :: setup_context
  preq_initiator_public :: bytes
  preq_relay_public :: bytes

record parsed_setup_response =
  pres_context :: setup_context
  pres_initiator_public :: bytes
  pres_responder_public :: bytes
  pres_relay_public :: bytes
  pres_confirmation :: bytes

definition encode_setup_request :: "setup_context \<Rightarrow> bytes \<Rightarrow> bytes \<Rightarrow> bytes" where
  "encode_setup_request c initiator_public relay_public =
     (let bytes = replicate SETUP_REQUEST_SIZE 0;
          bytes = write_at 0 SETUP_MAGIC bytes;
          bytes = write_at 4 (u16_be PROTOCOL_VERSION) bytes;
          bytes = write_at 6 [ctx_hop c] bytes;
          bytes = write_at 8 (ctx_circuit_id c) bytes;
          bytes = write_at 24 (u64_be (ctx_epoch c)) bytes;
          bytes = write_at 32 (u64_be (ctx_expires_at c)) bytes;
          bytes = write_at 40 initiator_public bytes;
          bytes = write_at 72 relay_public bytes
      in bytes)"

definition parse_setup_request :: "bytes \<Rightarrow> onion_error + parsed_setup_request" where
  "parse_setup_request bytes =
     (if slice 0 4 bytes \<noteq> SETUP_MAGIC \<or> bytes ! 7 \<noteq> 0
         \<or> list_ex (\<lambda>b. b \<noteq> 0) (drop SETUP_FIELDS_SIZE bytes)
      then Inl InvalidEncoding
      else if be_u16 [bytes ! 4, bytes ! 5] \<noteq> PROTOCOL_VERSION then Inl UnsupportedVersion
      else Inr \<lparr>preq_context =
                 \<lparr>ctx_circuit_id = slice 8 24 bytes, ctx_hop = bytes ! 6,
                  ctx_epoch = be_u64 (slice 24 32 bytes),
                  ctx_expires_at = be_u64 (slice 32 40 bytes)\<rparr>,
               preq_initiator_public = slice 40 72 bytes,
               preq_relay_public = slice 72 104 bytes\<rparr>)"

definition setup_request_from_bytes :: "bytes \<Rightarrow> onion_error + bytes" where
  "setup_request_from_bytes bytes =
     (if length bytes \<noteq> SETUP_REQUEST_SIZE then Inl InvalidEncoding
      else bind_r (parse_setup_request bytes) (\<lambda>_. Inr bytes))"

definition encode_setup_response :: "setup_context \<Rightarrow> bytes \<Rightarrow> bytes \<Rightarrow> bytes \<Rightarrow> bytes \<Rightarrow> bytes" where
  "encode_setup_response c initiator_public responder_public relay_public confirmation =
     (let bytes = replicate SETUP_RESPONSE_SIZE 0;
          bytes = write_at 0 RESPONSE_MAGIC bytes;
          bytes = write_at 4 (u16_be PROTOCOL_VERSION) bytes;
          bytes = write_at 6 [ctx_hop c] bytes;
          bytes = write_at 8 (ctx_circuit_id c) bytes;
          bytes = write_at 24 (u64_be (ctx_epoch c)) bytes;
          bytes = write_at 32 (u64_be (ctx_expires_at c)) bytes;
          bytes = write_at 40 initiator_public bytes;
          bytes = write_at 72 responder_public bytes;
          bytes = write_at 104 relay_public bytes;
          bytes = write_at 136 confirmation bytes
      in bytes)"

definition parse_setup_response :: "bytes \<Rightarrow> onion_error + parsed_setup_response" where
  "parse_setup_response bytes =
     (if slice 0 4 bytes \<noteq> RESPONSE_MAGIC \<or> bytes ! 7 \<noteq> 0
         \<or> list_ex (\<lambda>b. b \<noteq> 0) (drop RESPONSE_FIELDS_SIZE bytes)
      then Inl InvalidEncoding
      else if be_u16 [bytes ! 4, bytes ! 5] \<noteq> PROTOCOL_VERSION then Inl UnsupportedVersion
      else Inr \<lparr>pres_context =
                 \<lparr>ctx_circuit_id = slice 8 24 bytes, ctx_hop = bytes ! 6,
                  ctx_epoch = be_u64 (slice 24 32 bytes),
                  ctx_expires_at = be_u64 (slice 32 40 bytes)\<rparr>,
               pres_initiator_public = slice 40 72 bytes,
               pres_responder_public = slice 72 104 bytes,
               pres_relay_public = slice 104 136 bytes,
               pres_confirmation = slice 136 152 bytes\<rparr>)"

definition setup_response_from_bytes :: "bytes \<Rightarrow> onion_error + bytes" where
  "setup_response_from_bytes bytes =
     (if length bytes \<noteq> SETUP_RESPONSE_SIZE then Inl InvalidEncoding
      else bind_r (parse_setup_response bytes) (\<lambda>_. Inr bytes))"

section \<open>Transcript and key derivation\<close>

definition SETUP_LABEL :: bytes where
  "SETUP_LABEL = map (\<lambda>c. of_nat (of_char c)) ''peerless/onion/setup/v1''"

definition HOP_KEYS_LABEL :: bytes where
  "HOP_KEYS_LABEL = map (\<lambda>c. of_nat (of_char c)) ''peerless/onion/hop-keys/v1''"

definition setup_transcript :: "setup_context \<Rightarrow> bytes \<Rightarrow> bytes \<Rightarrow> bytes \<Rightarrow> bytes" where
  "setup_transcript c initiator_public responder_public relay_public =
     SETUP_LABEL @ u16_be PROTOCOL_VERSION @ ctx_circuit_id c @ [ctx_hop c] @ u64_be (ctx_epoch c)
       @ u64_be (ctx_expires_at c) @ initiator_public @ responder_public @ relay_public"

record hop_keys =
  hk_circuit_id :: bytes
  hk_hop :: u8
  hk_epoch :: u64
  hk_expires_at :: u64
  forward_key :: bytes
  reverse_key :: bytes
  forward_nonce_prefix :: bytes
  reverse_nonce_prefix :: bytes

definition key_and_nonce :: "hop_keys \<Rightarrow> direction \<Rightarrow> u64 \<Rightarrow> bytes \<times> bytes" where
  "key_and_nonce k d sequence =
     (let (key, prefix) = (case d of
            Forward \<Rightarrow> (forward_key k, forward_nonce_prefix k)
          | Reverse \<Rightarrow> (reverse_key k, reverse_nonce_prefix k));
          nonce = replicate 12 0;
          nonce = write_at 0 prefix nonce;
          nonce = write_at 4 (u64_be sequence) nonce
      in (key, nonce))"

definition derive_keys ::
  "'z onion_lib_scheme \<Rightarrow> bytes \<Rightarrow> bytes \<Rightarrow> setup_context \<Rightarrow> onion_error + hop_keys \<times> bytes" where
  "derive_keys L shared transcript c =
     (let salt = sha256 L transcript in
      bind_r (ok_or KeyAgreementFailed (hkdf_expand L salt shared HOP_KEYS_LABEL 104)) (\<lambda>output.
      Inr (\<lparr>hk_circuit_id = ctx_circuit_id c, hk_hop = ctx_hop c, hk_epoch = ctx_epoch c,
            hk_expires_at = ctx_expires_at c,
            forward_key = slice 0 32 output, reverse_key = slice 32 64 output,
            forward_nonce_prefix = slice 64 68 output, reverse_nonce_prefix = slice 68 72 output\<rparr>,
           slice 72 104 output)))"

definition confirmation_tag :: "'z onion_lib_scheme \<Rightarrow> bytes \<Rightarrow> bytes \<Rightarrow> onion_error + bytes" where
  "confirmation_tag L key transcript =
     bind_r (ok_or AuthenticationFailed (aead_encrypt L key (replicate 12 0) transcript []))
       (\<lambda>(_, tag). Inr tag)"

section \<open>The two sides of the handshake\<close>

record pending_setup =
  pend_context :: setup_context
  pend_secret :: bytes
  pend_initiator_public :: bytes
  pend_relay_public :: bytes

definition initiator_start ::
  "'z onion_lib_scheme \<Rightarrow> bytes \<Rightarrow> setup_context \<Rightarrow> bytes \<Rightarrow> u64 \<Rightarrow> onion_error + bytes \<times> pending_setup" where
  "initiator_start L secret c relay_public now =
     bind_r (context_validate c now) (\<lambda>_.
     let initiator_public = x_public L secret;
         request = encode_setup_request c initiator_public relay_public
     in Inr (request, \<lparr>pend_context = c, pend_secret = secret,
                       pend_initiator_public = initiator_public, pend_relay_public = relay_public\<rparr>))"

definition initiator_finish ::
  "'z onion_lib_scheme \<Rightarrow> pending_setup \<Rightarrow> bytes \<Rightarrow> u64 \<Rightarrow> onion_error + hop_keys" where
  "initiator_finish L pending response now =
     bind_r (parse_setup_response response) (\<lambda>parsed.
     bind_r (context_validate (pend_context pending) now) (\<lambda>_.
     if pres_context parsed \<noteq> pend_context pending
        \<or> pres_initiator_public parsed \<noteq> pend_initiator_public pending
        \<or> pres_relay_public parsed \<noteq> pend_relay_public pending
     then Inl TranscriptMismatch
     else
       let static_shared = x_dh L (pend_secret pending) (pres_relay_public parsed);
           ephemeral_shared = x_dh L (pend_secret pending) (pres_responder_public parsed)
       in
       if \<not> x_contributory L static_shared \<or> \<not> x_contributory L ephemeral_shared
       then Inl KeyAgreementFailed
       else
         let transcript = setup_transcript (pend_context pending) (pend_initiator_public pending)
               (pres_responder_public parsed) (pres_relay_public parsed);
             shared = static_shared @ ephemeral_shared
         in
         bind_r (derive_keys L shared transcript (pend_context pending)) (\<lambda>(keys, confirmation_key).
         bind_r (confirmation_tag L confirmation_key transcript) (\<lambda>expected.
         if expected \<noteq> pres_confirmation parsed then Inl TranscriptMismatch else Inr keys))))"

definition relay_accept ::
  "'z onion_lib_scheme \<Rightarrow> bytes \<Rightarrow> bytes \<Rightarrow> bytes \<Rightarrow> u64 \<Rightarrow> onion_error + bytes \<times> hop_keys" where
  "relay_accept L secret request relay_secret now =
     bind_r (parse_setup_request request) (\<lambda>parsed.
     bind_r (context_validate (preq_context parsed) now) (\<lambda>_.
     if preq_relay_public parsed \<noteq> x_public L relay_secret then Inl WrongScope
     else
       let responder_public = x_public L secret;
           static_shared = x_dh L relay_secret (preq_initiator_public parsed);
           ephemeral_shared = x_dh L secret (preq_initiator_public parsed)
       in
       if \<not> x_contributory L static_shared \<or> \<not> x_contributory L ephemeral_shared
       then Inl KeyAgreementFailed
       else
         let transcript = setup_transcript (preq_context parsed) (preq_initiator_public parsed)
               responder_public (preq_relay_public parsed);
             shared = static_shared @ ephemeral_shared
         in
         bind_r (derive_keys L shared transcript (preq_context parsed)) (\<lambda>(keys, confirmation_key).
         bind_r (confirmation_tag L confirmation_key transcript) (\<lambda>confirmation.
         Inr (encode_setup_response (preq_context parsed) (preq_initiator_public parsed)
                responder_public (preq_relay_public parsed) confirmation, keys)))))"

section \<open>Well-formed values\<close>

definition context_wf :: "setup_context \<Rightarrow> bool" where
  "context_wf c \<longleftrightarrow> length (ctx_circuit_id c) = 16"

definition request_wf :: "parsed_setup_request \<Rightarrow> bool" where
  "request_wf r \<longleftrightarrow> context_wf (preq_context r) \<and> length (preq_initiator_public r) = 32
     \<and> length (preq_relay_public r) = 32"

definition response_wf :: "parsed_setup_response \<Rightarrow> bool" where
  "response_wf r \<longleftrightarrow> context_wf (pres_context r) \<and> length (pres_initiator_public r) = 32
     \<and> length (pres_responder_public r) = 32 \<and> length (pres_relay_public r) = 32
     \<and> length (pres_confirmation r) = 16"

definition request_bytes :: "parsed_setup_request \<Rightarrow> bytes" where
  "request_bytes r = encode_setup_request (preq_context r) (preq_initiator_public r) (preq_relay_public r)"

definition request_decode :: "bytes \<Rightarrow> onion_error + parsed_setup_request" where
  "request_decode bs = bind_r (setup_request_from_bytes bs) parse_setup_request"

definition response_bytes :: "parsed_setup_response \<Rightarrow> bytes" where
  "response_bytes r = encode_setup_response (pres_context r) (pres_initiator_public r)
     (pres_responder_public r) (pres_relay_public r) (pres_confirmation r)"

definition response_decode :: "bytes \<Rightarrow> onion_error + parsed_setup_response" where
  "response_decode bs = bind_r (setup_response_from_bytes bs) parse_setup_response"

section \<open>Layout lemmas\<close>

text \<open>Writing into the zeroed tail of a partly filled array.\<close>

lemma write_at_append [wire_simps]:
  "length xs \<le> off \<Longrightarrow> write_at off src (xs @ ys) = xs @ write_at (off - length xs) src ys"
  by (simp add: write_at_def)

lemma write_at_Cons [wire_simps]:
  "0 < off \<Longrightarrow> write_at off src (x # ys) = x # write_at (off - 1) src ys"
  by (cases off) (simp_all add: write_at_def)

lemma write_at_zeros [wire_simps]:
  "off + length src \<le> n \<Longrightarrow>
     write_at off src (replicate n 0) = replicate off 0 @ src @ replicate (n - off - length src) 0"
  by (simp add: write_at_def min_def)

lemma length_magics [simp]:
  "length SETUP_MAGIC = 4" "length RESPONSE_MAGIC = 4" "length CELL_MAGIC = 4"
  by (simp_all add: SETUP_MAGIC_def RESPONSE_MAGIC_def CELL_MAGIC_def)

lemma encode_setup_request_layout:
  assumes "context_wf c" "length ip = 32" "length rp = 32"
  shows "encode_setup_request c ip rp =
    SETUP_MAGIC @ u16_be PROTOCOL_VERSION @ [ctx_hop c] @ [0] @ ctx_circuit_id c @ u64_be (ctx_epoch c)
      @ u64_be (ctx_expires_at c) @ ip @ rp @ replicate 24 0"
  using assms
  by (simp add: encode_setup_request_def Let_def wire_simps context_wf_def SETUP_REQUEST_SIZE_def)

lemma encode_setup_response_layout:
  assumes "context_wf c" "length ip = 32" "length sp = 32" "length rp = 32" "length ct = 16"
  shows "encode_setup_response c ip sp rp ct =
    RESPONSE_MAGIC @ u16_be PROTOCOL_VERSION @ [ctx_hop c] @ [0] @ ctx_circuit_id c @ u64_be (ctx_epoch c)
      @ u64_be (ctx_expires_at c) @ ip @ sp @ rp @ ct @ replicate 8 0"
  using assms
  by (simp add: encode_setup_response_def Let_def wire_simps context_wf_def SETUP_RESPONSE_SIZE_def)

lemma slice_pair: "Suc a < length xs \<Longrightarrow> slice a (a + 2) xs = [xs ! a, xs ! Suc a]"
  using slice_split [of a "Suc a" "a + 2" xs] slice_Suc_nth [of a xs] slice_Suc_nth [of "Suc a" xs]
  by simp

lemma not_ex_nonzero: "\<not> list_ex (\<lambda>b. b \<noteq> 0) xs \<longleftrightarrow> xs = replicate (length xs) (0 :: u8)"
  by (simp add: list_ex_iff) (metis in_set_replicate replicate_eqI)

lemma request_slices:
  "length bs = 128 \<Longrightarrow> slice 0 4 bs @ slice 4 6 bs @ slice 6 7 bs @ slice 7 8 bs @ slice 8 24 bs
     @ slice 24 32 bs @ slice 32 40 bs @ slice 40 72 bs @ slice 72 104 bs @ slice 104 128 bs = bs"
  by (simp add: slice_split del: slice_exact) (metis slice_0_length)

lemma response_slices:
  "length bs = 160 \<Longrightarrow> slice 0 4 bs @ slice 4 6 bs @ slice 6 7 bs @ slice 7 8 bs @ slice 8 24 bs
     @ slice 24 32 bs @ slice 32 40 bs @ slice 40 72 bs @ slice 72 104 bs @ slice 104 136 bs
     @ slice 136 152 bs @ slice 152 160 bs = bs"
  by (simp add: slice_split del: slice_exact) (metis slice_0_length)

lemma header_bytes:
  assumes "8 < length bs"
  shows "slice 4 6 bs = [bs ! 4, bs ! 5]" "slice 6 7 bs = [bs ! 6]" "slice 7 8 bs = [bs ! 7]"
  using assms slice_pair [of 4 bs] slice_Suc_nth [of 6 bs] slice_Suc_nth [of 7 bs] by simp_all

lemma length_request_bytes [simp]: "request_wf r \<Longrightarrow> length (request_bytes r) = 128"
  by (simp add: request_bytes_def request_wf_def encode_setup_request_layout context_wf_def)

lemma length_response_bytes [simp]: "response_wf r \<Longrightarrow> length (response_bytes r) = 160"
  by (simp add: response_bytes_def response_wf_def encode_setup_response_layout context_wf_def)

lemma be_u16_pair:
  "be_u16 [u16_be w ! 0, u16_be w ! Suc 0] = w"
proof -
  have "[u16_be w ! 0, u16_be w ! Suc 0] = u16_be w"
    by (simp add: list_eq_iff_nth_eq less_Suc_eq numeral_2_eq_2)
  then show ?thesis by simp
qed

lemma parse_request_bytes:
  assumes "request_wf r"
  shows "parse_setup_request (request_bytes r) = Inr r"
  using assms
  by (cases r) (simp add: request_wf_def context_wf_def request_bytes_def encode_setup_request_layout
      parse_setup_request_def wire_simps nth_append be_u16_pair SETUP_FIELDS_SIZE_def list_ex_iff)

lemma parse_response_bytes:
  assumes "response_wf r"
  shows "parse_setup_response (response_bytes r) = Inr r"
  using assms
  by (cases r) (simp add: response_wf_def context_wf_def response_bytes_def encode_setup_response_layout
      parse_setup_response_def wire_simps nth_append be_u16_pair RESPONSE_FIELDS_SIZE_def list_ex_iff)

lemma parse_request_canonical:
  assumes "length bs = 128" "parse_setup_request bs = Inr r"
  shows "request_wf r \<and> request_bytes r = bs"
proof -
  have wf: "request_wf r" using assms
    by (auto simp: parse_setup_request_def request_wf_def context_wf_def split: if_splits)
  have z: "slice 104 128 bs = replicate 24 0"
    using assms not_ex_nonzero [of "drop 104 bs"]
    by (simp add: parse_setup_request_def SETUP_FIELDS_SIZE_def drop_eq_slice split: if_splits)
  have "request_bytes r = slice 0 4 bs @ slice 4 6 bs @ slice 6 7 bs @ slice 7 8 bs @ slice 8 24 bs
     @ slice 24 32 bs @ slice 32 40 bs @ slice 40 72 bs @ slice 72 104 bs @ slice 104 128 bs"
    using assms wf u16_be_u16 [of "[bs ! 4, bs ! 5]"] unfolding z
    by (auto simp: request_bytes_def request_wf_def encode_setup_request_layout header_bytes u64_be_u64
        parse_setup_request_def context_wf_def simp del: slice_exact split: if_splits)
  then show ?thesis using wf request_slices [OF assms(1)] by simp
qed

lemma parse_response_canonical:
  assumes "length bs = 160" "parse_setup_response bs = Inr r"
  shows "response_wf r \<and> response_bytes r = bs"
proof -
  have wf: "response_wf r" using assms
    by (auto simp: parse_setup_response_def response_wf_def context_wf_def split: if_splits)
  have z: "slice 152 160 bs = replicate 8 0"
    using assms not_ex_nonzero [of "drop 152 bs"]
    by (simp add: parse_setup_response_def RESPONSE_FIELDS_SIZE_def drop_eq_slice split: if_splits)
  have "response_bytes r = slice 0 4 bs @ slice 4 6 bs @ slice 6 7 bs @ slice 7 8 bs @ slice 8 24 bs
     @ slice 24 32 bs @ slice 32 40 bs @ slice 40 72 bs @ slice 72 104 bs @ slice 104 136 bs
     @ slice 136 152 bs @ slice 152 160 bs"
    using assms wf u16_be_u16 [of "[bs ! 4, bs ! 5]"] unfolding z
    by (auto simp: response_bytes_def response_wf_def encode_setup_response_layout header_bytes u64_be_u64
        parse_setup_response_def context_wf_def simp del: slice_exact split: if_splits)
  then show ?thesis using wf response_slices [OF assms(1)] by simp
qed

interpretation setup_request_codec: wire_codec request_bytes request_decode request_wf
proof
  show "request_decode (request_bytes r) = Inr r" if "request_wf r" for r
    using that by (simp add: request_decode_def setup_request_from_bytes_def parse_request_bytes
        SETUP_REQUEST_SIZE_def)
  show "request_bytes r = bs \<and> request_wf r" if "request_decode bs = Inr r" for bs r
    using that parse_request_canonical [of bs r]
    by (auto simp: request_decode_def setup_request_from_bytes_def SETUP_REQUEST_SIZE_def result_simps
        split: if_splits)
qed

interpretation setup_response_codec: wire_codec response_bytes response_decode response_wf
proof
  show "response_decode (response_bytes r) = Inr r" if "response_wf r" for r
    using that by (simp add: response_decode_def setup_response_from_bytes_def parse_response_bytes
        SETUP_RESPONSE_SIZE_def)
  show "response_bytes r = bs \<and> response_wf r" if "response_decode bs = Inr r" for bs r
    using that parse_response_canonical [of bs r]
    by (auto simp: response_decode_def setup_response_from_bytes_def SETUP_RESPONSE_SIZE_def result_simps
        split: if_splits)
qed

section \<open>A concrete library\<close>

text \<open>A toy instance of the cryptographic interface that satisfies the hypotheses above.\<close>

definition example_public :: "bytes \<Rightarrow> bytes" where
  "example_public s = take 32 (s @ replicate 32 0)"

definition example_tag :: "bytes \<Rightarrow> bytes \<Rightarrow> bytes \<Rightarrow> bytes \<Rightarrow> bytes" where
  "example_tag k n a p = replicate 16 (sum_list k + sum_list n + sum_list a + sum_list p)"

definition example_onion_lib :: onion_lib where
  "example_onion_lib = \<lparr>sha256 = example_sha, hex_encode = (\<lambda>b. concat (map fmt_02x b)), hex_decode = unhex,
     hkdf_expand = (\<lambda>salt ikm info n. Some (map (\<lambda>i. of_nat i + sum_list salt + sum_list ikm) [0..<n])),
     aead_encrypt = (\<lambda>k n a p. Some (p, example_tag k n a p)),
     aead_decrypt = (\<lambda>k n a c t. if t = example_tag k n a c then Some c else None),
     x_public = example_public,
     x_dh = (\<lambda>s p. map2 (+) (example_public s) p),
     x_contributory = list_ex (\<lambda>b. b \<noteq> 0)\<rparr>"

lemma zip_commute_plus: "map2 (+) xs ys = map2 (+) ys (xs :: bytes)"
  by (induction xs ys rule: list_induct2') (simp_all add: add.commute)

lemma example_onion_lib_ok:
  "aead_ok example_onion_lib" "dh_ok example_onion_lib" "hkdf_ok example_onion_lib"
  by (simp_all add: aead_ok_def dh_ok_def hkdf_ok_def example_onion_lib_def example_tag_def
      example_public_def zip_commute_plus min_def)

section \<open>Key agreement\<close>

lemma derive_keys_ok:
  assumes "hkdf_ok L"
  obtains k ck where "derive_keys L shared tr c = Inr (k, ck)"
  using assms unfolding hkdf_ok_def derive_keys_def
  by (metis (no_types, lifting) bind_r_simps(2) ok_or_simps(2))

lemma confirmation_tag_ok:
  assumes "aead_ok L"
  obtains t where "confirmation_tag L k tr = Inr t" "length t = 16"
proof -
  obtain c t where "aead_encrypt L k (replicate 12 0) tr [] = Some (c, t)" "length t = 16"
    using assms unfolding aead_ok_def by (metis le0 list.size(3))
  then show ?thesis using that by (simp add: confirmation_tag_def)
qed

text \<open>What the relay answers to a well-formed request, in terms of the parsed fields.\<close>

lemma relay_accept_on_request:
  assumes "request_wf r" "context_validate (preq_context r) now = Inr ()"
    and "preq_relay_public r = x_public L rs"
    and "x_contributory L (x_dh L rs (preq_initiator_public r))"
    and "x_contributory L (x_dh L es (preq_initiator_public r))"
    and "derive_keys L (x_dh L rs (preq_initiator_public r) @ x_dh L es (preq_initiator_public r))
           (setup_transcript (preq_context r) (preq_initiator_public r) (x_public L es) (preq_relay_public r))
           (preq_context r) = Inr (keys, ck)"
    and "confirmation_tag L ck
           (setup_transcript (preq_context r) (preq_initiator_public r) (x_public L es) (preq_relay_public r))
           = Inr tag"
  shows "relay_accept L es (request_bytes r) rs now =
    Inr (response_bytes \<lparr>pres_context = preq_context r, pres_initiator_public = preq_initiator_public r,
      pres_responder_public = x_public L es, pres_relay_public = preq_relay_public r,
      pres_confirmation = tag\<rparr>, keys)"
  using assms by (simp add: relay_accept_def parse_request_bytes response_bytes_def)

text \<open>What the initiator makes of a well-formed response.\<close>

lemma initiator_finish_on_response:
  assumes "response_wf r" "pres_context r = pend_context p" "context_validate (pend_context p) now = Inr ()"
    and "pres_initiator_public r = pend_initiator_public p" "pres_relay_public r = pend_relay_public p"
    and "x_contributory L (x_dh L (pend_secret p) (pres_relay_public r))"
    and "x_contributory L (x_dh L (pend_secret p) (pres_responder_public r))"
    and "derive_keys L (x_dh L (pend_secret p) (pres_relay_public r) @ x_dh L (pend_secret p) (pres_responder_public r))
           (setup_transcript (pend_context p) (pend_initiator_public p) (pres_responder_public r) (pres_relay_public r))
           (pend_context p) = Inr (keys, ck)"
    and "confirmation_tag L ck
           (setup_transcript (pend_context p) (pend_initiator_public p) (pres_responder_public r) (pres_relay_public r))
           = Inr tag"
  shows "initiator_finish L p (response_bytes r) now =
    (if tag = pres_confirmation r then Inr keys else Inl TranscriptMismatch)"
  using assms by (simp add: initiator_finish_def parse_response_bytes)

lemmas setup_records =
  parsed_setup_request.simps parsed_setup_response.simps pending_setup.simps

lemma honest_exchange:
  assumes "aead_ok L" "dh_ok L" "hkdf_ok L"
    and "length (ctx_circuit_id c) = 16" "ctx_hop c < 3"
    and "now0 < ctx_expires_at c" "now1 < ctx_expires_at c"
    and "x_contributory L (x_dh L rs (x_public L is))" "x_contributory L (x_dh L es (x_public L is))"
  shows "\<exists>request pending response keys.
    initiator_start L is c (x_public L rs) now0 = Inr (request, pending)
    \<and> setup_request_from_bytes request = Inr request
    \<and> relay_accept L es request rs now1 = Inr (response, keys)
    \<and> setup_response_from_bytes response = Inr response
    \<and> (\<forall>now2 < ctx_expires_at c. initiator_finish L pending response now2 = Inr keys)"
proof -
  let ?ip = "x_public L is" and ?sp = "x_public L es" and ?rp = "x_public L rs"
  let ?tr = "setup_transcript c ?ip ?sp ?rp"
  let ?q = "\<lparr>preq_context = c, preq_initiator_public = ?ip, preq_relay_public = ?rp\<rparr>"
  have len [simp]: "length (x_public L a) = 32" and dh: "x_dh L a (x_public L b) = x_dh L b (x_public L a)"
    for a b using assms(2) by (simp_all add: dh_ok_def)
  have v: "context_validate c t = Inr ()" if "t < ctx_expires_at c" for t
    using that assms(5) by (simp add: context_validate_Inr_iff)
  obtain keys ck where k: "derive_keys L (x_dh L rs ?ip @ x_dh L es ?ip) ?tr c = Inr (keys, ck)"
    using derive_keys_ok [OF assms(3)] .
  obtain tag where t: "confirmation_tag L ck ?tr = Inr tag" "length tag = 16"
    using confirmation_tag_ok [OF assms(1)] .
  let ?p = "\<lparr>pend_context = c, pend_secret = is, pend_initiator_public = ?ip, pend_relay_public = ?rp\<rparr>"
  let ?r = "\<lparr>pres_context = c, pres_initiator_public = ?ip, pres_responder_public = ?sp,
    pres_relay_public = ?rp, pres_confirmation = tag\<rparr>"
  have wf: "request_wf ?q" "response_wf ?r"
    using assms(4) t by (simp_all add: request_wf_def response_wf_def context_wf_def)
  have "initiator_start L is c ?rp now0 = Inr (request_bytes ?q, ?p)"
    using v [OF assms(6)] by (simp add: initiator_start_def request_bytes_def Let_def)
  moreover have "setup_request_from_bytes (request_bytes ?q) = Inr (request_bytes ?q)"
    using wf by (simp add: setup_request_from_bytes_def SETUP_REQUEST_SIZE_def parse_request_bytes)
  moreover have "relay_accept L es (request_bytes ?q) rs now1 = Inr (response_bytes ?r, keys)"
    using relay_accept_on_request [of ?q now1 L rs es keys ck tag] wf v [OF assms(7)] assms(8,9) k t by simp
  moreover have "setup_response_from_bytes (response_bytes ?r) = Inr (response_bytes ?r)"
    using wf by (simp add: setup_response_from_bytes_def SETUP_RESPONSE_SIZE_def parse_response_bytes)
  moreover have "\<forall>now2 < ctx_expires_at c. initiator_finish L ?p (response_bytes ?r) now2 = Inr keys"
    using initiator_finish_on_response [of ?r ?p _ L keys ck tag] wf v assms(8,9) k t
    by (simp add: dh [of "is"])
  ultimately show ?thesis by blast
qed

text \<open>
  C3: Key agreement. If an initiator starts a setup towards a relay's public key, the relay
  accepts the request and the initiator finishes with the relay's response, all before the
  context expires, then both messages are well-formed on the wire and both ends hold the
  same hop keys.
\<close>

theorem setup_agreement:
  assumes "aead_ok L" "dh_ok L" "hkdf_ok L"
    and "length (ctx_circuit_id c) = 16" "ctx_hop c < 3"
    and "now0 < ctx_expires_at c" "now1 < ctx_expires_at c" "now2 < ctx_expires_at c"
    and "x_contributory L (x_dh L rs (x_public L is))" "x_contributory L (x_dh L es (x_public L is))"
  shows "\<exists>request pending response keys.
    initiator_start L is c (x_public L rs) now0 = Inr (request, pending)
    \<and> setup_request_from_bytes request = Inr request
    \<and> relay_accept L es request rs now1 = Inr (response, keys)
    \<and> setup_response_from_bytes response = Inr response
    \<and> initiator_finish L pending response now2 = Inr keys"
  using honest_exchange [OF assms(1-7,9,10)] assms(8) by blast

theorem setup_agreement_witness:
  "let c = \<lparr>ctx_circuit_id = replicate 16 7, ctx_hop = 1, ctx_epoch = 4, ctx_expires_at = 100\<rparr>;
       L = example_onion_lib
   in \<exists>request pending response keys.
    initiator_start L [1] c (x_public L [2]) 10 = Inr (request, pending)
    \<and> setup_request_from_bytes request = Inr request
    \<and> relay_accept L [3] request [2] 11 = Inr (response, keys)
    \<and> setup_response_from_bytes response = Inr response
    \<and> initiator_finish L pending response 12 = Inr keys"
  unfolding Let_def
  by (rule setup_agreement [OF example_onion_lib_ok])
    (simp_all add: example_onion_lib_def example_public_def)

lemma initiator_finish_accepts:
  assumes "initiator_finish L p response now = Inr keys"
  obtains r ck where "parse_setup_response response = Inr r" "pres_context r = pend_context p"
    "pres_initiator_public r = pend_initiator_public p" "pres_relay_public r = pend_relay_public p"
    "derive_keys L (x_dh L (pend_secret p) (pend_relay_public p) @ x_dh L (pend_secret p) (pres_responder_public r))
       (setup_transcript (pend_context p) (pend_initiator_public p) (pres_responder_public r) (pend_relay_public p))
       (pend_context p) = Inr (keys, ck)"
    "confirmation_tag L ck
       (setup_transcript (pend_context p) (pend_initiator_public p) (pres_responder_public r) (pend_relay_public p))
       = Inr (pres_confirmation r)"
  using assms by (auto simp: initiator_finish_def Let_def result_simps split: if_splits)

lemma parse_responder_public:
  "parse_setup_response bs = Inr r \<Longrightarrow> pres_responder_public r = slice 72 104 bs"
  by (auto simp: parse_setup_response_def split: if_splits)

text \<open>
  For one pending setup and one responder key, the initiator accepts at most one response:
  two 160-byte responses that carry the same responder key and are both accepted are equal
  byte for byte (context, keys, confirmation tag and padding), and give the same hop keys.
\<close>

theorem finish_unique_response:
  assumes "initiator_finish L p a now = Inr keys" "initiator_finish L p b now' = Inr keys'"
    and "length a = SETUP_RESPONSE_SIZE" "length b = SETUP_RESPONSE_SIZE" "slice 72 104 a = slice 72 104 b"
  shows "a = b \<and> keys = keys'"
proof -
  obtain r ck where r: "parse_setup_response a = Inr r" "pres_context r = pend_context p"
    "pres_initiator_public r = pend_initiator_public p" "pres_relay_public r = pend_relay_public p"
    "derive_keys L (x_dh L (pend_secret p) (pend_relay_public p) @ x_dh L (pend_secret p) (pres_responder_public r))
       (setup_transcript (pend_context p) (pend_initiator_public p) (pres_responder_public r) (pend_relay_public p))
       (pend_context p) = Inr (keys, ck)"
    "confirmation_tag L ck
       (setup_transcript (pend_context p) (pend_initiator_public p) (pres_responder_public r) (pend_relay_public p))
       = Inr (pres_confirmation r)"
    by (rule initiator_finish_accepts [OF assms(1)])
  obtain r' ck' where r': "parse_setup_response b = Inr r'" "pres_context r' = pend_context p"
    "pres_initiator_public r' = pend_initiator_public p" "pres_relay_public r' = pend_relay_public p"
    "derive_keys L (x_dh L (pend_secret p) (pend_relay_public p) @ x_dh L (pend_secret p) (pres_responder_public r'))
       (setup_transcript (pend_context p) (pend_initiator_public p) (pres_responder_public r') (pend_relay_public p))
       (pend_context p) = Inr (keys', ck')"
    "confirmation_tag L ck'
       (setup_transcript (pend_context p) (pend_initiator_public p) (pres_responder_public r') (pend_relay_public p))
       = Inr (pres_confirmation r')"
    by (rule initiator_finish_accepts [OF assms(2)])
  have "pres_responder_public r = pres_responder_public r'"
    using parse_responder_public [OF r(1)] parse_responder_public [OF r'(1)] assms(5) by simp
  with r r' have "r = r'" "keys = keys'" by (auto intro: parsed_setup_response.equality)
  with parse_response_canonical [OF _ r(1)] parse_response_canonical [OF _ r'(1)] assms(3,4)
  show ?thesis by (auto simp: SETUP_RESPONSE_SIZE_def)
qed

theorem finish_unique_response_witness:
  "\<exists>p a keys keys'. initiator_finish example_onion_lib p a 12 = Inr keys
     \<and> initiator_finish example_onion_lib p a 13 = Inr keys' \<and> length a = SETUP_RESPONSE_SIZE \<and> keys = keys'"
proof -
  let ?c = "\<lparr>ctx_circuit_id = replicate 16 7, ctx_hop = 1, ctx_epoch = 4, ctx_expires_at = 100\<rparr>"
  obtain p a keys where *: "setup_response_from_bytes a = Inr a"
    "\<forall>now < 100. initiator_finish example_onion_lib p a now = Inr keys"
    using honest_exchange [of example_onion_lib ?c 10 11 "[2]" "[1]" "[3]"] example_onion_lib_ok
    by (auto simp: example_onion_lib_def example_public_def)
  then have len: "length a = SETUP_RESPONSE_SIZE"
    by (auto simp: setup_response_from_bytes_def split: if_splits)
  have f: "initiator_finish example_onion_lib p a 12 = Inr keys"
    "initiator_finish example_onion_lib p a 13 = Inr keys" using * by simp_all
  show ?thesis using finish_unique_response [OF f len len refl] f len by blast
qed

text \<open>The transcript fixes every field both ends have to agree on.\<close>

lemma setup_transcript_inj:
  assumes "context_wf c" "context_wf c'" "length ip = 32" "length ip' = 32" "length sp = 32" "length sp' = 32"
    and "setup_transcript c ip sp rp = setup_transcript c' ip' sp' rp'"
  shows "c = c' \<and> ip = ip' \<and> sp = sp' \<and> rp = rp'"
proof -
  have "u64_be x = u64_be y \<Longrightarrow> x = y" for x y by (metis be_u64_be)
  then show ?thesis using assms
    by (auto simp: setup_transcript_def context_wf_def intro: setup_context.equality)
qed

text \<open>
  The bytes accepted as a setup request are exactly the encodings of well-formed
  requests: parsing undoes encoding, and no other 128 bytes are accepted. The same holds of
  the 160-byte response.
\<close>

theorem setup_messages_canonical:
  "(request_decode bs = Inr q \<longleftrightarrow> request_wf q \<and> request_bytes q = bs)
   \<and> (response_decode bs = Inr r \<longleftrightarrow> response_wf r \<and> response_bytes r = bs)"
  using setup_request_codec.decode_iff setup_response_codec.decode_iff by blast

end
