(* ===== verification/Onion_Replay.thy ===== *)
theory Onion_Replay
  imports Onion_Types
begin

text \<open>
  The anti-replay window of a hop: \<open>ReplayWindow::check\<close> and \<open>ReplayWindow::commit\<close> on
  a 128-bit bitmap below the highest sequence seen. It is compared with a receiver that
  remembers every accepted sequence in a set, and it is an admission guard in the sense of
  the prelude.
\<close>

unbundle bit_operations_syntax

section \<open>The window\<close>

record replay_window =
  highest :: "u64 option"
  bitmap :: u128

definition rw_default :: replay_window where
  "rw_default = \<lparr>highest = None, bitmap = 0\<rparr>"

definition rw_check :: "replay_window \<Rightarrow> u64 \<Rightarrow> onion_error + unit" where
  "rw_check w sequence =
     (case highest w of
        None \<Rightarrow> if sequence = 0 then Inr () else Inl OutOfWindow
      | Some h \<Rightarrow>
          if sequence > h then
            (if sequence - h \<le> MAX_FUTURE_SEQUENCE_JUMP then Inr () else Inl OutOfWindow)
          else
            let distance = h - sequence in
            if distance \<ge> REPLAY_WINDOW_BITS then Inl OutOfWindow
            else if bitmap w AND push_bit (unat distance) 1 \<noteq> 0 then Inl Replay
            else Inr ())"

definition rw_commit :: "replay_window \<Rightarrow> u64 \<Rightarrow> replay_window" where
  "rw_commit w sequence =
     (case highest w of
        None \<Rightarrow> \<lparr>highest = Some sequence, bitmap = 1\<rparr>
      | Some h \<Rightarrow>
          if sequence > h then
            let shift = sequence - h in
            \<lparr>highest = Some sequence,
             bitmap = (if shift \<ge> REPLAY_WINDOW_BITS then 1 else push_bit (unat shift) (bitmap w) OR 1)\<rparr>
          else w\<lparr>bitmap := bitmap w OR push_bit (unat (h - sequence)) 1\<rparr>)"

text \<open>
  The receiver checks, authenticates and only then commits; \<open>rw_admit\<close> is the pair for a
  cell that authenticates.
\<close>

definition rw_admit :: "replay_window \<Rightarrow> u64 \<Rightarrow> replay_window option" where
  "rw_admit w sequence =
     (case rw_check w sequence of Inl _ \<Rightarrow> None | Inr _ \<Rightarrow> Some (rw_commit w sequence))"

fun rw_trace :: "replay_window \<Rightarrow> u64 list \<Rightarrow> (onion_error + unit) list" where
  "rw_trace w [] = []"
| "rw_trace w (s # ss) =
     (case rw_check w s of
        Inl e \<Rightarrow> Inl e # rw_trace w ss
      | Inr u \<Rightarrow> Inr u # rw_trace (rw_commit w s) ss)"

section \<open>Specification: remember every accepted sequence\<close>

record anti_replay =
  ar_highest :: "u64 option"
  ar_seen :: "u64 set"

definition ar_init :: anti_replay where
  "ar_init = \<lparr>ar_highest = None, ar_seen = {}\<rparr>"

definition ar_check :: "anti_replay \<Rightarrow> u64 \<Rightarrow> onion_error + unit" where
  "ar_check a s =
     (case ar_highest a of
        None \<Rightarrow> if s = 0 then Inr () else Inl OutOfWindow
      | Some h \<Rightarrow>
          if unat h + 64 < unat s \<or> unat s + 128 \<le> unat h then Inl OutOfWindow
          else if s \<in> ar_seen a then Inl Replay
          else Inr ())"

definition ar_commit :: "anti_replay \<Rightarrow> u64 \<Rightarrow> anti_replay" where
  "ar_commit a s =
     \<lparr>ar_highest = Some (case ar_highest a of None \<Rightarrow> s | Some h \<Rightarrow> max h s), ar_seen = insert s (ar_seen a)\<rparr>"

fun ar_trace :: "anti_replay \<Rightarrow> u64 list \<Rightarrow> (onion_error + unit) list" where
  "ar_trace a [] = []"
| "ar_trace a (s # ss) =
     (case ar_check a s of
        Inl e \<Rightarrow> Inl e # ar_trace a ss
      | Inr u \<Rightarrow> Inr u # ar_trace (ar_commit a s) ss)"

text \<open>The window represents the part of the set that lies within 128 of the highest sequence.\<close>

definition rw_rel :: "replay_window \<Rightarrow> anti_replay \<Rightarrow> bool" where
  "rw_rel w a \<longleftrightarrow> ar_highest a = highest w \<and>
     (case highest w of
        None \<Rightarrow> ar_seen a = {}
      | Some h \<Rightarrow> (\<forall>s \<in> ar_seen a. s \<le> h) \<and>
          (\<forall>s \<le> h. unat h - unat s < 128 \<longrightarrow> (bit (bitmap w) (unat h - unat s) \<longleftrightarrow> s \<in> ar_seen a)))"

definition rw_blocked :: "replay_window \<Rightarrow> u64 \<Rightarrow> bool" where
  "rw_blocked w s \<longleftrightarrow> (\<exists>h. highest w = Some h \<and> s \<le> h \<and>
     (unat h - unat s < 128 \<longrightarrow> bit (bitmap w) (unat h - unat s)))"

section \<open>Bit arithmetic of the window\<close>

lemma unat_diff: "(s :: u64) \<le> h \<Longrightarrow> unat (h - s) = unat h - unat s"
  by (rule unat_sub)

lemma mask_test: "n < 128 \<Longrightarrow> (b :: u128) AND push_bit n 1 \<noteq> 0 \<longleftrightarrow> bit b n"
  by (simp add: and_exp_eq_0_iff_not_bit)

lemma distance_bound: "REPLAY_WINDOW_BITS \<le> d \<longleftrightarrow> 128 \<le> unat d"
  by (simp add: REPLAY_WINDOW_BITS_def word_le_nat_alt)

lemma jump_bound: "d \<le> MAX_FUTURE_SEQUENCE_JUMP \<longleftrightarrow> unat d \<le> 64"
  by (simp add: MAX_FUTURE_SEQUENCE_JUMP_def word_le_nat_alt)

lemma bit_shift_or:
  "n < 128 \<Longrightarrow> bit (push_bit m (b :: u128) OR 1) n \<longleftrightarrow> (m \<le> n \<and> bit b (n - m)) \<or> n = 0"
  by (auto simp: bit_or_iff bit_push_bit_iff bit_1_iff)

lemma bit_or_mask:
  "n < 128 \<Longrightarrow> bit ((b :: u128) OR push_bit m 1) n \<longleftrightarrow> bit b n \<or> n = m"
  by (auto simp: bit_or_iff bit_exp_iff)

section \<open>The window is the set\<close>

lemma rw_check_None: "highest w = None \<Longrightarrow> rw_check w s = (if s = 0 then Inr () else Inl OutOfWindow)"
  by (simp add: rw_check_def)

lemma rw_check_above:
  "highest w = Some h \<Longrightarrow> h < s \<Longrightarrow> rw_check w s = (if unat h + 64 < unat s then Inl OutOfWindow else Inr ())"
  using unat_diff [of h s] by (auto simp: rw_check_def jump_bound)

lemma rw_check_below:
  "highest w = Some h \<Longrightarrow> s \<le> h \<Longrightarrow>
     rw_check w s =
       (if 128 \<le> unat h - unat s then Inl OutOfWindow
        else if bit (bitmap w) (unat h - unat s) then Inl Replay else Inr ())"
  by (auto simp: rw_check_def Let_def distance_bound unat_diff mask_test simp del: push_bit_of_1)

lemmas rw_check_cases = rw_check_None rw_check_above rw_check_below

lemma rw_commit_highest:
  "highest w = Some h \<Longrightarrow> highest (rw_commit w s) = Some (max h s)"
  by (auto simp: rw_commit_def Let_def max_def)

lemma rw_commit_above:
  "highest w = Some h \<Longrightarrow> h < s \<Longrightarrow> n < 128 \<Longrightarrow>
     bit (bitmap (rw_commit w s)) n \<longleftrightarrow> n = 0 \<or> (unat s - unat h \<le> n \<and> bit (bitmap w) (n - (unat s - unat h)))"
  using unat_diff [of h s]
  by (auto simp: rw_commit_def Let_def distance_bound bit_shift_or bit_1_iff)

lemma rw_commit_below:
  "highest w = Some h \<Longrightarrow> s \<le> h \<Longrightarrow> n < 128 \<Longrightarrow>
     bit (bitmap (rw_commit w s)) n \<longleftrightarrow> bit (bitmap w) n \<or> n = unat h - unat s"
  by (auto simp: rw_commit_def bit_or_mask unat_diff simp del: push_bit_of_1)

lemma rw_rel_init: "rw_rel rw_default ar_init"
  by (simp add: rw_rel_def rw_default_def ar_init_def)

lemma rw_check_refines: "rw_rel w a \<Longrightarrow> rw_check w s = ar_check a s"
proof (cases "highest w")
  case None
  then show "rw_rel w a \<Longrightarrow> ?thesis"
    by (simp add: rw_rel_def rw_check_None ar_check_def)
next
  case (Some h)
  assume rel: "rw_rel w a"
  show ?thesis
  proof (cases "s \<le> h")
    case True
    with Some rel show ?thesis
      by (auto simp: rw_rel_def rw_check_below ar_check_def word_le_nat_alt)
  next
    case False
    then have "s \<notin> ar_seen a" using Some rel by (auto simp: rw_rel_def)
    with False Some rel show ?thesis
      using rw_check_above [OF Some, of s] by (auto simp: rw_rel_def ar_check_def word_le_nat_alt not_le word_less_nat_alt)
  qed
qed

lemma rw_commit_refines:
  assumes rel: "rw_rel w a" and ok: "rw_check w s = Inr ()"
  shows "rw_rel (rw_commit w s) (ar_commit a s)"
proof (cases "highest w")
  case None
  with assms have "s = 0" by (simp add: rw_check_None split: if_splits)
  with None rel show ?thesis
    by (auto simp: rw_rel_def rw_commit_def ar_commit_def bit_1_iff)
next
  case (Some h)
  show ?thesis
  proof (cases "s \<le> h")
    case True
    have eq: "unat h - unat t = unat h - unat s \<longleftrightarrow> t = s" if "t \<le> h" for t
      using that True by (auto simp: word_le_nat_alt word_unat_eq_iff)
    from True Some rel show ?thesis
      using rw_commit_below [OF Some True] rw_commit_highest [OF Some, of s]
      by (auto simp: rw_rel_def ar_commit_def max_def eq)
  next
    case False
    then have hs: "h < s" by simp
    have high: "t \<notin> ar_seen a" if "h < t" for t using that Some rel by (auto simp: rw_rel_def)
    have low: "unat s - unat h \<le> unat s - unat t \<longleftrightarrow> t \<le> h" if "t \<le> s" for t
      using that hs by (auto simp: word_le_nat_alt word_less_nat_alt)
    have self: "unat s - unat t = 0 \<longleftrightarrow> t = s" if "t \<le> s" for t
      using that by (auto simp: word_le_nat_alt word_unat_eq_iff)
    have dist: "unat s - unat t - (unat s - unat h) = unat h - unat t" if "t \<le> h" for t
      using that hs by (auto simp: word_le_nat_alt word_less_nat_alt)
    have bits: "bit (bitmap (rw_commit w s)) (unat s - unat t) \<longleftrightarrow> t = s \<or> t \<in> ar_seen a"
      if "t \<le> s" "unat s - unat t < 128" for t
    proof -
      have "bit (bitmap (rw_commit w s)) (unat s - unat t) \<longleftrightarrow>
          t = s \<or> (t \<le> h \<and> bit (bitmap w) (unat h - unat t))"
        using rw_commit_above [OF Some hs that(2)] that low self dist by auto
      moreover have "t \<le> h \<Longrightarrow> bit (bitmap w) (unat h - unat t) \<longleftrightarrow> t \<in> ar_seen a"
        using that hs Some rel by (auto simp: rw_rel_def word_le_nat_alt word_less_nat_alt)
      moreover have "\<not> t \<le> h \<Longrightarrow> t \<notin> ar_seen a" using high by simp
      ultimately show ?thesis by blast
    qed
    have "highest (rw_commit w s) = Some s"
      using rw_commit_highest [OF Some, of s] hs by (simp add: max.absorb2)
    moreover have "t \<le> s" if "t \<in> ar_seen a" for t
      using that hs Some rel by (force simp: rw_rel_def)
    ultimately show ?thesis
      using hs Some rel bits by (auto simp: rw_rel_def ar_commit_def max_def)
  qed
qed

lemma rw_trace_refines: "rw_rel w a \<Longrightarrow> rw_trace w ss = ar_trace a ss"
proof (induction ss arbitrary: w a)
  case Nil
  then show ?case by simp
next
  case (Cons s ss)
  then show ?case
    using rw_check_refines [of w a s] rw_commit_refines [of w a s]
    by (auto split: sum.splits)
qed

section \<open>The window as an admission guard\<close>

lemma rw_blocked_refused: "rw_blocked w s \<Longrightarrow> rw_admit w s = None"
  by (auto simp: rw_blocked_def rw_admit_def rw_check_below)

lemma rw_admit_blocks: "rw_admit w s = Some w' \<Longrightarrow> rw_blocked w' s"
proof (cases "highest w")
  case None
  then show "rw_admit w s = Some w' \<Longrightarrow> ?thesis"
    by (auto simp: rw_admit_def rw_blocked_def rw_commit_def bit_1_iff split: sum.splits)
next
  case (Some h)
  assume "rw_admit w s = Some w'"
  then have w': "w' = rw_commit w s" by (auto simp: rw_admit_def split: sum.splits)
  show ?thesis
  proof (cases "s \<le> h")
    case True
    with Some show ?thesis
      using rw_commit_below [OF Some True] rw_commit_highest [OF Some, of s]
      by (auto simp: rw_blocked_def w' max.absorb1)
  next
    case False
    with Some show ?thesis
      using rw_commit_above [OF Some, of s 0] rw_commit_highest [OF Some, of s]
      by (auto simp: rw_blocked_def w' max.absorb2)
  qed
qed

lemma rw_blocked_mono: "rw_admit w s = Some w' \<Longrightarrow> rw_blocked w t \<Longrightarrow> rw_blocked w' t"
proof -
  assume adm: "rw_admit w s = Some w'" and blk: "rw_blocked w t"
  from adm have w': "w' = rw_commit w s" by (auto simp: rw_admit_def split: sum.splits)
  from blk obtain h where h: "highest w = Some h" "t \<le> h"
    and bits: "unat h - unat t < 128 \<longrightarrow> bit (bitmap w) (unat h - unat t)"
    by (auto simp: rw_blocked_def)
  show "rw_blocked w' t"
  proof (cases "s \<le> h")
    case True
    with h bits show ?thesis
      using rw_commit_below [OF h(1) True] rw_commit_highest [OF h(1), of s]
      by (auto simp: rw_blocked_def w' max.absorb1)
  next
    case False
    then have hs: "h < s" by simp
    have "t \<le> s" using h(2) hs by simp
    have "unat s - unat t - (unat s - unat h) = unat h - unat t" "unat s - unat h \<le> unat s - unat t"
      using h(2) hs by (auto simp: word_le_nat_alt word_less_nat_alt)
    with h bits hs \<open>t \<le> s\<close> show ?thesis
      using rw_commit_above [OF h(1) hs, of "unat s - unat t"] rw_commit_highest [OF h(1), of s]
      by (auto simp: rw_blocked_def w' max.absorb2)
  qed
qed

interpretation window: once_guard rw_admit rw_blocked
  by unfold_locales (fact rw_blocked_refused, fact rw_admit_blocks, fact rw_blocked_mono)

section \<open>Properties\<close>

text \<open>
  C2: On every history of offered sequence numbers the 128-bit window of a hop gives, cell
  by cell, the same verdict (accepted, replayed, out of window) as a receiver that keeps
  the set of all sequences it ever accepted and applies the 64-ahead and 128-behind limits.
\<close>

theorem replay_window_refines_set: "rw_trace rw_default ss = ar_trace ar_init ss"
  by (rule rw_trace_refines) (rule rw_rel_init)

text \<open>
  Whatever sequence numbers arrive and in whatever order, no sequence number is accepted
  twice by a replay window, also after it has slid out of the bitmap.
\<close>

theorem replay_window_accepts_once: "distinct (accepted rw_admit w ss)"
  by (rule window.accepted_distinct)

end
