(* ===== verification/Onion_Cell.thy ===== *)
theory Onion_Cell
  imports Onion_Setup Onion_Replay
begin

text \<open>
  Onion cells: the 50-byte header, one authenticated layer (\<open>seal_compact\<close>, \<open>open_layer\<close>),
  the sender of a circuit and the per-hop receivers. A \<open>WireCell\<close> is its 1024 bytes.
  Functions that take \<open>&mut self\<close> return the result together with the new state, so what
  an error leaves behind is explicit.
\<close>

section \<open>Cell header\<close>

record cell_header =
  ch_direction :: direction
  ch_circuit_id :: bytes
  ch_epoch :: u64
  ch_expires_at :: u64
  ch_sequence :: u64
  ch_ciphertext_len :: nat

definition encode_cell_header :: "hop_keys \<Rightarrow> direction \<Rightarrow> u64 \<Rightarrow> nat \<Rightarrow> bytes" where
  "encode_cell_header keys d sequence ciphertext_len =
     (let header = replicate CELL_HEADER_SIZE 0;
          header = write_at 0 CELL_MAGIC header;
          header = write_at 4 (u16_be PROTOCOL_VERSION) header;
          header = write_at 6 [1] header;
          header = write_at 7 [direction_u8 d] header;
          header = write_at 8 (hk_circuit_id keys) header;
          header = write_at 24 (u64_be (hk_epoch keys)) header;
          header = write_at 32 (u64_be (hk_expires_at keys)) header;
          header = write_at 40 (u64_be sequence) header;
          header = write_at 48 (u16_be (of_nat ciphertext_len)) header
      in header)"

definition parse_cell_header :: "bytes \<Rightarrow> onion_error + cell_header" where
  "parse_cell_header bytes =
     (if slice 0 4 bytes \<noteq> CELL_MAGIC \<or> bytes ! 6 \<noteq> 1 then Inl InvalidEncoding
      else if be_u16 [bytes ! 4, bytes ! 5] \<noteq> PROTOCOL_VERSION then Inl UnsupportedVersion
      else
        let ciphertext_len = unat (be_u16 [bytes ! 48, bytes ! 49]);
            compact_len = CELL_HEADER_SIZE + ciphertext_len
        in
        if ciphertext_len < TAG_SIZE + LAYER_HEADER_SIZE \<or> compact_len > CELL_SIZE
           \<or> list_ex (\<lambda>b. b \<noteq> 0) (drop compact_len bytes)
        then Inl InvalidEncoding
        else
          bind_r (direction_try_from (bytes ! 7)) (\<lambda>d.
          Inr \<lparr>ch_direction = d, ch_circuit_id = slice 8 24 bytes,
               ch_epoch = be_u64 (slice 24 32 bytes), ch_expires_at = be_u64 (slice 32 40 bytes),
               ch_sequence = be_u64 (slice 40 48 bytes), ch_ciphertext_len = ciphertext_len\<rparr>))"

definition wire_cell_from_bytes :: "bytes \<Rightarrow> onion_error + bytes" where
  "wire_cell_from_bytes bytes =
     (if length bytes \<noteq> CELL_SIZE then Inl InvalidEncoding
      else bind_r (parse_cell_header bytes) (\<lambda>_. Inr bytes))"

definition wire_cell_from_compact :: "bytes \<Rightarrow> onion_error + bytes" where
  "wire_cell_from_compact cbytes =
     (if length cbytes > CELL_SIZE \<or> length cbytes < CELL_HEADER_SIZE + TAG_SIZE + LAYER_HEADER_SIZE
      then Inl InvalidEncoding
      else
        let bytes = write_at 0 cbytes (replicate CELL_SIZE 0) in
        bind_r (parse_cell_header bytes) (\<lambda>_. Inr bytes))"

definition wire_cell_compact :: "bytes \<Rightarrow> onion_error + bytes" where
  "wire_cell_compact cell =
     bind_r (parse_cell_header cell) (\<lambda>header. Inr (slice 0 (CELL_HEADER_SIZE + ch_ciphertext_len header) cell))"

section \<open>One layer\<close>

definition seal_compact ::
  "'z onion_lib_scheme \<Rightarrow> hop_keys \<Rightarrow> direction \<Rightarrow> u64 \<Rightarrow> u8 \<Rightarrow> bytes \<Rightarrow> onion_error + bytes" where
  "seal_compact L keys d sequence layer_type data =
     (if length data > MAX_LAYER_DATA then Inl PayloadTooLarge
      else
        let plaintext = [layer_type] @ u16_be (of_nat (length data)) @ data;
            ciphertext_len = length plaintext + TAG_SIZE;
            header = encode_cell_header keys d sequence ciphertext_len;
            compact_len = CELL_HEADER_SIZE + ciphertext_len;
            padding = replicate (CELL_SIZE - compact_len) 0;
            aad = header @ padding;
            (key, nonce) = key_and_nonce keys d sequence
        in
        bind_r (ok_or AuthenticationFailed (aead_encrypt L key nonce aad plaintext))
          (\<lambda>(ciphertext, tag). Inr (header @ ciphertext @ tag)))"

datatype opened_layer =
    OpenedForward bytes
  | OpenedTerminal cell_type bytes

definition open_layer ::
  "'z onion_lib_scheme \<Rightarrow> hop_keys \<Rightarrow> replay_window \<Rightarrow> bytes \<Rightarrow> direction \<Rightarrow> u64 \<Rightarrow>
     (onion_error + opened_layer) \<times> replay_window" where
  "open_layer L keys replay cell expected_direction now =
     (case bind_r (parse_cell_header cell) (\<lambda>header.
        if ch_direction header \<noteq> expected_direction \<or> ch_circuit_id header \<noteq> hk_circuit_id keys
           \<or> ch_epoch header \<noteq> hk_epoch keys \<or> ch_expires_at header \<noteq> hk_expires_at keys
        then Inl WrongScope
        else if ch_expires_at header \<le> now then Inl Expired
        else
        bind_r (rw_check replay (ch_sequence header)) (\<lambda>_.
        let ciphertext_end = CELL_HEADER_SIZE + ch_ciphertext_len header;
            tag_start = ciphertext_end - TAG_SIZE;
            ciphertext = slice CELL_HEADER_SIZE tag_start cell;
            tag = slice tag_start ciphertext_end cell;
            aad = slice 0 CELL_HEADER_SIZE cell @ drop ciphertext_end cell;
            (key, nonce) = key_and_nonce keys (ch_direction header) (ch_sequence header)
        in
        bind_r (ok_or AuthenticationFailed (aead_decrypt L key nonce aad ciphertext tag)) (\<lambda>plaintext.
        if length plaintext < LAYER_HEADER_SIZE then Inl InvalidEncoding
        else
        let declared = unat (be_u16 [plaintext ! 1, plaintext ! 2]) in
        if declared \<noteq> length plaintext - LAYER_HEADER_SIZE then Inl InvalidEncoding
        else
        let data = drop LAYER_HEADER_SIZE plaintext in
        bind_r (if plaintext ! 0 = 0 then
                  bind_r (wire_cell_from_compact data) (\<lambda>inner. Inr (OpenedForward inner))
                else
                  bind_r (cell_type_try_from (plaintext ! 0)) (\<lambda>t. Inr (OpenedTerminal t data)))
          (\<lambda>opened. Inr (opened, ch_sequence header)))))
      of Inl e \<Rightarrow> (Inl e, replay)
       | Inr (opened, sequence) \<Rightarrow> (Inr opened, rw_commit replay sequence))"

section \<open>Sender\<close>

record circuit_sender =
  traversal_keys :: "hop_keys list"
  cs_direction :: direction
  next_sequence :: u64

definition sender_new :: "hop_keys list \<Rightarrow> direction \<Rightarrow> onion_error + circuit_sender" where
  "sender_new keys d =
     (if keys = [] \<or> length keys > MAX_HOPS then Inl HopLimit
      else
        let first = hd keys in
        if list_ex (\<lambda>key. hk_circuit_id key \<noteq> hk_circuit_id first \<or> hk_epoch key \<noteq> hk_epoch first
             \<or> hk_expires_at key \<noteq> hk_expires_at first) keys
        then Inl WrongScope
        else Inr \<lparr>traversal_keys = keys, cs_direction = d, next_sequence = 0\<rparr>)"

text \<open>The loop over the outer hops, from the one next to the last back to the first.\<close>

fun wrap_layers ::
  "'z onion_lib_scheme \<Rightarrow> hop_keys list \<Rightarrow> direction \<Rightarrow> u64 \<Rightarrow> bytes \<Rightarrow> onion_error + bytes" where
  "wrap_layers L [] d sequence cbytes = Inr cbytes"
| "wrap_layers L (key # keys) d sequence cbytes =
     bind_r (seal_compact L key d sequence 0 cbytes) (\<lambda>outer. wrap_layers L keys d sequence outer)"

definition sender_seal ::
  "'z onion_lib_scheme \<Rightarrow> circuit_sender \<Rightarrow> cell_type \<Rightarrow> bytes \<Rightarrow> (onion_error + bytes) \<times> circuit_sender" where
  "sender_seal L s t payload =
     (let sequence = next_sequence s;
          keys = traversal_keys s
      in case
        bind_r (seal_compact L (last keys) (cs_direction s) sequence (cell_type_u8 t) payload) (\<lambda>cbytes.
        bind_r (wrap_layers L (rev (take (length keys - 1) keys)) (cs_direction s) sequence cbytes) (\<lambda>cbytes.
        bind_r (wire_cell_from_compact cbytes) (\<lambda>cell.
        bind_r (ok_or OutOfWindow (checked_add1 sequence)) (\<lambda>next. Inr (cell, next)))))
      of Inl e \<Rightarrow> (Inl e, s)
       | Inr (cell, next) \<Rightarrow> (Inr cell, s\<lparr>next_sequence := next\<rparr>))"

section \<open>Receivers\<close>

record hop_receiver =
  hr_keys :: hop_keys
  hr_expected_direction :: direction
  hr_replay :: replay_window

definition receiver_new :: "hop_keys \<Rightarrow> direction \<Rightarrow> hop_receiver" where
  "receiver_new keys d = \<lparr>hr_keys = keys, hr_expected_direction = d, hr_replay = rw_default\<rparr>"

definition receiver_open ::
  "'z onion_lib_scheme \<Rightarrow> hop_receiver \<Rightarrow> bytes \<Rightarrow> u64 \<Rightarrow> (onion_error + opened_layer) \<times> hop_receiver" where
  "receiver_open L r cell now =
     (let (res, replay) = open_layer L (hr_keys r) (hr_replay r) cell (hr_expected_direction r) now
      in (res, r\<lparr>hr_replay := replay\<rparr>))"

record hop_duplex =
  hd_keys :: hop_keys
  forward_replay :: replay_window
  reverse_replay :: replay_window
  next_forward_sequence :: u64
  next_reverse_sequence :: u64

definition duplex_new :: "hop_keys \<Rightarrow> hop_duplex" where
  "duplex_new keys = \<lparr>hd_keys = keys, forward_replay = rw_default, reverse_replay = rw_default,
     next_forward_sequence = 0, next_reverse_sequence = 0\<rparr>"

definition duplex_open ::
  "'z onion_lib_scheme \<Rightarrow> hop_duplex \<Rightarrow> bytes \<Rightarrow> direction \<Rightarrow> u64 \<Rightarrow> (onion_error + opened_layer) \<times> hop_duplex" where
  "duplex_open L h cell d now =
     (case d of
        Forward \<Rightarrow> let (res, replay) = open_layer L (hd_keys h) (forward_replay h) cell d now
                   in (res, h\<lparr>forward_replay := replay\<rparr>)
      | Reverse \<Rightarrow> let (res, replay) = open_layer L (hd_keys h) (reverse_replay h) cell d now
                   in (res, h\<lparr>reverse_replay := replay\<rparr>))"

definition duplex_seal_layer ::
  "'z onion_lib_scheme \<Rightarrow> hop_duplex \<Rightarrow> direction \<Rightarrow> u8 \<Rightarrow> bytes \<Rightarrow> (onion_error + bytes) \<times> hop_duplex" where
  "duplex_seal_layer L h d layer_type payload =
     (let sequence = (case d of Forward \<Rightarrow> next_forward_sequence h | Reverse \<Rightarrow> next_reverse_sequence h) in
      case
        bind_r (seal_compact L (hd_keys h) d sequence layer_type payload) (\<lambda>cbytes.
        bind_r (wire_cell_from_compact cbytes) (\<lambda>cell.
        bind_r (ok_or OutOfWindow (checked_add1 sequence)) (\<lambda>next. Inr (cell, next))))
      of Inl e \<Rightarrow> (Inl e, h)
       | Inr (cell, next) \<Rightarrow>
           (Inr cell, case d of Forward \<Rightarrow> h\<lparr>next_forward_sequence := next\<rparr>
                              | Reverse \<Rightarrow> h\<lparr>next_reverse_sequence := next\<rparr>))"

definition duplex_seal_terminal ::
  "'z onion_lib_scheme \<Rightarrow> hop_duplex \<Rightarrow> direction \<Rightarrow> cell_type \<Rightarrow> bytes \<Rightarrow> (onion_error + bytes) \<times> hop_duplex" where
  "duplex_seal_terminal L h d t payload = duplex_seal_layer L h d (cell_type_u8 t) payload"

definition duplex_wrap ::
  "'z onion_lib_scheme \<Rightarrow> hop_duplex \<Rightarrow> direction \<Rightarrow> bytes \<Rightarrow> (onion_error + bytes) \<times> hop_duplex" where
  "duplex_wrap L h d inner =
     (case wire_cell_compact inner of
        Inl e \<Rightarrow> (Inl e, h)
      | Inr cbytes \<Rightarrow> duplex_seal_layer L h d 0 cbytes)"

section \<open>Header lemmas\<close>

definition keys_wf :: "hop_keys \<Rightarrow> bool" where
  "keys_wf k \<longleftrightarrow> length (hk_circuit_id k) = 16 \<and> length (forward_nonce_prefix k) = 4
     \<and> length (reverse_nonce_prefix k) = 4"

definition pad_cell :: "bytes \<Rightarrow> bytes" where
  "pad_cell cb = cb @ replicate (CELL_SIZE - length cb) 0"

lemma encode_cell_header_layout:
  "keys_wf k \<Longrightarrow> encode_cell_header k d s n =
     CELL_MAGIC @ u16_be PROTOCOL_VERSION @ [1] @ [direction_u8 d] @ hk_circuit_id k @ u64_be (hk_epoch k)
       @ u64_be (hk_expires_at k) @ u64_be s @ u16_be (of_nat n)"
  by (simp add: encode_cell_header_def Let_def wire_simps keys_wf_def CELL_HEADER_SIZE_def)

lemma length_encode_cell_header [simp]: "keys_wf k \<Longrightarrow> length (encode_cell_header k d s n) = 50"
  by (simp add: encode_cell_header_layout) (simp add: keys_wf_def)

lemma unat_of_nat_u16: "n < 65536 \<Longrightarrow> unat (of_nat n :: u16) = n"
  by (simp add: unat_of_nat)

lemma parse_encoded_header:
  assumes "keys_wf k" "length body = n" "19 \<le> n" "n \<le> 974"
  shows "parse_cell_header (encode_cell_header k d s n @ body @ replicate (974 - n) 0) =
    Inr \<lparr>ch_direction = d, ch_circuit_id = hk_circuit_id k, ch_epoch = hk_epoch k,
         ch_expires_at = hk_expires_at k, ch_sequence = s, ch_ciphertext_len = n\<rparr>"
proof -
  have "unat (of_nat n :: u16) = n" using assms by (simp add: unat_of_nat_u16)
  moreover have "length (hk_circuit_id k) = 16" using assms by (simp add: keys_wf_def)
  ultimately show ?thesis using assms(2-)
    by (simp add: encode_cell_header_layout [OF assms(1)] parse_cell_header_def wire_simps nth_append
        be_u16_pair onion_sizes list_ex_iff drop_Cons')
qed

lemma key_and_nonce_layout:
  "keys_wf k \<Longrightarrow> key_and_nonce k d s =
     (case d of Forward \<Rightarrow> (forward_key k, forward_nonce_prefix k @ u64_be s)
              | Reverse \<Rightarrow> (reverse_key k, reverse_nonce_prefix k @ u64_be s))"
  by (cases d) (simp_all add: key_and_nonce_def wire_simps keys_wf_def)

lemma wire_cell_from_compact_encoded:
  assumes "keys_wf k" "length body = n" "19 \<le> n" "n \<le> 974"
  shows "wire_cell_from_compact (encode_cell_header k d s n @ body) =
    Inr (pad_cell (encode_cell_header k d s n @ body))"
proof -
  have w: "write_at 0 (encode_cell_header k d s n @ body) (replicate 1024 0) =
      encode_cell_header k d s n @ body @ replicate (974 - n) 0"
    using assms by (simp add: wire_simps)
  show ?thesis using parse_encoded_header [OF assms] assms w
    by (simp add: wire_cell_from_compact_def pad_cell_def onion_sizes)
qed

section \<open>Opening a sealed layer\<close>

lemma seal_compact_shape:
  assumes "aead_ok L" "keys_wf k" "length data \<le> 955"
  obtains c t where "length c = length data + 3" "length t = 16"
    "seal_compact L k d s lt data = Inr (encode_cell_header k d s (length data + 19) @ c @ t)"
    "aead_decrypt L (fst (key_and_nonce k d s)) (snd (key_and_nonce k d s))
       (encode_cell_header k d s (length data + 19) @ replicate (955 - length data) 0) c t
       = Some (lt # u16_be (of_nat (length data)) @ data)"
    "aead_encrypt L (fst (key_and_nonce k d s)) (snd (key_and_nonce k d s))
       (encode_cell_header k d s (length data + 19) @ replicate (955 - length data) 0)
       (lt # u16_be (of_nat (length data)) @ data) = Some (c, t)"
proof -
  let ?pt = "lt # u16_be (of_nat (length data)) @ data"
  have "length ?pt \<le> CELL_SIZE" using assms by (simp add: CELL_SIZE_def)
  then obtain c t where ct: "aead_encrypt L (fst (key_and_nonce k d s)) (snd (key_and_nonce k d s))
       (encode_cell_header k d s (length data + 19) @ replicate (955 - length data) 0) ?pt = Some (c, t)"
    "length c = length ?pt" "length t = 16"
    "aead_decrypt L (fst (key_and_nonce k d s)) (snd (key_and_nonce k d s))
       (encode_cell_header k d s (length data + 19) @ replicate (955 - length data) 0) c t = Some ?pt"
    using assms(1) unfolding aead_ok_def by metis
  have "seal_compact L k d s lt data = Inr (encode_cell_header k d s (length data + 19) @ c @ t)"
    using ct assms by (simp add: seal_compact_def onion_sizes case_prod_unfold Let_def add.commute)
  with ct show ?thesis by (intro that [of c t]) simp_all
qed

lemma seal_compact_too_large:
  "955 < length data \<Longrightarrow> seal_compact L k d s lt data = Inl PayloadTooLarge"
  by (simp add: seal_compact_def onion_sizes)

lemma open_sealed_layer:
  assumes "aead_ok L" "keys_wf k" "length data \<le> 955"
  obtains cb where "seal_compact L k d s lt data = Inr cb" "length cb = length data + 69"
    "wire_cell_from_compact cb = Inr (pad_cell cb)"
    "\<And>w now inner. lt = 0 \<Longrightarrow> wire_cell_from_compact data = Inr inner \<Longrightarrow>
       now < hk_expires_at k \<Longrightarrow> rw_check w s = Inr () \<Longrightarrow>
       open_layer L k w (pad_cell cb) d now = (Inr (OpenedForward inner), rw_commit w s)"
    "\<And>w now t. lt = cell_type_u8 t \<Longrightarrow> now < hk_expires_at k \<Longrightarrow> rw_check w s = Inr () \<Longrightarrow>
       open_layer L k w (pad_cell cb) d now = (Inr (OpenedTerminal t data), rw_commit w s)"
proof -
  let ?n = "length data + 19"
  let ?h = "encode_cell_header k d s ?n"
  obtain c tg where ct: "length c = length data + 3" "length tg = 16"
    "seal_compact L k d s lt data = Inr (?h @ c @ tg)"
    "aead_decrypt L (fst (key_and_nonce k d s)) (snd (key_and_nonce k d s))
       (?h @ replicate (955 - length data) 0) c tg = Some (lt # u16_be (of_nat (length data)) @ data)"
    by (rule seal_compact_shape [OF assms(1-3)])
  let ?cb = "?h @ c @ tg"
  have len: "length (c @ tg) = ?n" "19 \<le> ?n" "?n \<le> 974" using ct assms by simp_all
  have pad: "pad_cell ?cb = ?h @ (c @ tg) @ replicate (974 - ?n) 0"
    using ct assms by (simp add: pad_cell_def CELL_SIZE_def)
  have parse: "parse_cell_header (pad_cell ?cb) =
    Inr \<lparr>ch_direction = d, ch_circuit_id = hk_circuit_id k, ch_epoch = hk_epoch k,
         ch_expires_at = hk_expires_at k, ch_sequence = s, ch_ciphertext_len = ?n\<rparr>"
    unfolding pad by (rule parse_encoded_header [OF assms(2) len])
  have parts: "slice 50 (53 + length data) (pad_cell ?cb) = c"
    "slice (53 + length data) (69 + length data) (pad_cell ?cb) = tg"
    "slice 0 50 (pad_cell ?cb) @ drop (69 + length data) (pad_cell ?cb) = ?h @ replicate (955 - length data) 0"
    unfolding pad using ct assms by (simp_all add: wire_simps)
  have decl: "unat (of_nat (length data) :: u16) = length data"
    using assms by (simp add: unat_of_nat_u16)
  show ?thesis
  proof (rule that [of ?cb])
    show "wire_cell_from_compact ?cb = Inr (pad_cell ?cb)"
      using wire_cell_from_compact_encoded [OF assms(2) len] by simp
    show "open_layer L k w (pad_cell ?cb) d now = (Inr (OpenedForward inner), rw_commit w s)"
      if "lt = 0" "wire_cell_from_compact data = Inr inner" "now < hk_expires_at k" "rw_check w s = Inr ()"
      for w now inner
      using that parse parts ct decl assms
      by (simp add: open_layer_def onion_sizes case_prod_unfold nth_append be_u16_pair ac_simps)
    show "open_layer L k w (pad_cell ?cb) d now = (Inr (OpenedTerminal t data), rw_commit w s)"
      if "lt = cell_type_u8 t" "now < hk_expires_at k" "rw_check w s = Inr ()" for w now t
      using that parse parts ct decl assms
      by (simp add: open_layer_def onion_sizes case_prod_unfold nth_append be_u16_pair ac_simps)
  qed (use ct assms in simp_all)
qed

section \<open>A circuit of several hops\<close>

text \<open>
  The layers of a circuit by recursion over the hops, first hop outermost, and the path of
  a cell through a list of receivers: every hop but the last finds a cell to forward, the
  last one the payload.
\<close>

fun onion :: "'z onion_lib_scheme \<Rightarrow> hop_keys list \<Rightarrow> direction \<Rightarrow> u64 \<Rightarrow> u8 \<Rightarrow> bytes \<Rightarrow> onion_error + bytes" where
  "onion L [] d s lt data = Inr data"
| "onion L [k] d s lt data = seal_compact L k d s lt data"
| "onion L (k # ks) d s lt data = bind_r (onion L ks d s lt data) (seal_compact L k d s 0)"

fun open_path ::
  "'z onion_lib_scheme \<Rightarrow> hop_receiver list \<Rightarrow> bytes \<Rightarrow> u64 \<Rightarrow> (cell_type \<times> bytes) option \<times> hop_receiver list" where
  "open_path L [] cell now = (None, [])"
| "open_path L (r # rs) cell now =
     (case receiver_open L r cell now of
        (Inl e, r') \<Rightarrow> (None, r' # rs)
      | (Inr (OpenedForward inner), r') \<Rightarrow>
          (let (res, rs') = open_path L rs inner now in (res, r' # rs'))
      | (Inr (OpenedTerminal t payload), r') \<Rightarrow> (if rs = [] then Some (t, payload) else None, r' # rs))"

definition receives :: "direction \<Rightarrow> u64 \<Rightarrow> hop_receiver \<Rightarrow> hop_keys \<Rightarrow> bool" where
  "receives d s r k \<longleftrightarrow> hr_keys r = k \<and> hr_expected_direction r = d \<and> rw_check (hr_replay r) s = Inr ()"

definition after_cell :: "u64 \<Rightarrow> hop_receiver \<Rightarrow> hop_receiver" where
  "after_cell s r = r\<lparr>hr_replay := rw_commit (hr_replay r) s\<rparr>"

lemma wrap_layers_snoc:
  "wrap_layers L (ks @ [k]) d s cb = bind_r (wrap_layers L ks d s cb) (seal_compact L k d s 0)"
  by (induction ks arbitrary: cb) (simp_all add: bind_r_def split: sum.splits)

lemma bind_r_assoc: "bind_r (bind_r r f) g = bind_r r (\<lambda>x. bind_r (f x) g)"
  by (cases r) simp_all

lemma onion_eq_wrap_layers:
  "ks \<noteq> [] \<Longrightarrow> onion L ks d s lt data =
     bind_r (seal_compact L (last ks) d s lt data) (wrap_layers L (rev (take (length ks - 1) ks)) d s)"
proof (induction L ks d s lt data rule: onion.induct)
  case (2 L k d s lt data)
  then show ?case by (cases "seal_compact L k d s lt data") simp_all
next
  case (3 L k k' ks d s lt data)
  have "wrap_layers L (xs @ [k]) d s = (\<lambda>cb. bind_r (wrap_layers L xs d s cb) (seal_compact L k d s 0))" for xs
    by (rule ext) (rule wrap_layers_snoc)
  with 3 show ?case by (simp add: bind_r_assoc)
qed simp

lemma receives_open:
  assumes "receives d s r k" "open_layer L k (hr_replay r) cell d now = (res, rw_commit (hr_replay r) s)"
  shows "receiver_open L r cell now = (res, after_cell s r)"
  using assms by (simp add: receives_def receiver_open_def after_cell_def)

lemma onion_opens:
  assumes "aead_ok L" "ks \<noteq> []" "list_all keys_wf ks" "length data + 69 * (length ks - 1) \<le> 955"
  shows "\<exists>cb. onion L ks d s (cell_type_u8 t) data = Inr cb \<and> length cb = length data + 69 * length ks
    \<and> wire_cell_from_compact cb = Inr (pad_cell cb)
    \<and> (\<forall>rs now. list_all2 (receives d s) rs ks \<longrightarrow> (\<forall>k \<in> set ks. now < hk_expires_at k) \<longrightarrow>
         open_path L rs (pad_cell cb) now = (Some (t, data), map (after_cell s) rs))"
  using assms(2-)
proof (induction ks)
  case (Cons k ks)
  have k: "keys_wf k" using Cons.prems by simp
  show ?case
  proof (cases "ks = []")
    case True
    have len: "length data \<le> 955" using Cons.prems True by simp
    obtain cb where cb: "seal_compact L k d s (cell_type_u8 t) data = Inr cb" "length cb = length data + 69"
      "wire_cell_from_compact cb = Inr (pad_cell cb)"
      "\<And>w now. now < hk_expires_at k \<Longrightarrow> rw_check w s = Inr () \<Longrightarrow>
         open_layer L k w (pad_cell cb) d now = (Inr (OpenedTerminal t data), rw_commit w s)"
      by (rule open_sealed_layer [OF assms(1) k len, of d s "cell_type_u8 t"]) simp
    have "open_path L [r] (pad_cell cb) now = (Some (t, data), [after_cell s r])"
      if "receives d s r k" "now < hk_expires_at k" for r now
      using receives_open [OF that(1) cb(4) [OF that(2)]] that(1) by (simp add: receives_def)
    then show ?thesis using True cb(1-3) by (auto simp: list_all2_Cons2)
  next
    case False
    have len0: "length data + 69 * (length ks - 1) \<le> 955"
      using Cons.prems False by (cases ks) simp_all
    obtain cb where cb: "onion L ks d s (cell_type_u8 t) data = Inr cb"
      "length cb = length data + 69 * length ks" "wire_cell_from_compact cb = Inr (pad_cell cb)"
      "\<And>rs now. list_all2 (receives d s) rs ks \<Longrightarrow> \<forall>k \<in> set ks. now < hk_expires_at k \<Longrightarrow>
         open_path L rs (pad_cell cb) now = (Some (t, data), map (after_cell s) rs)"
      using Cons.IH [OF False _ len0] Cons.prems by auto
    have len: "length cb \<le> 955" using cb(2) Cons.prems False by (cases ks) simp_all
    obtain ob where ob: "seal_compact L k d s 0 cb = Inr ob" "length ob = length cb + 69"
      "wire_cell_from_compact ob = Inr (pad_cell ob)"
      "\<And>w now. now < hk_expires_at k \<Longrightarrow> rw_check w s = Inr () \<Longrightarrow>
         open_layer L k w (pad_cell ob) d now = (Inr (OpenedForward (pad_cell cb)), rw_commit w s)"
      by (rule open_sealed_layer [OF assms(1) k len, of d s 0]) (simp add: cb(3))
    have "onion L (k # ks) d s (cell_type_u8 t) data = Inr ob"
      using cb(1) ob(1) False by (cases ks) simp_all
    moreover have "open_path L (r # rs) (pad_cell ob) now = (Some (t, data), map (after_cell s) (r # rs))"
      if "receives d s r k" "list_all2 (receives d s) rs ks" "\<forall>k \<in> set (k # ks). now < hk_expires_at k"
      for r rs now
    proof -
      have "receiver_open L r (pad_cell ob) now = (Inr (OpenedForward (pad_cell cb)), after_cell s r)"
        using that ob(4) [of now "hr_replay r"] by (intro receives_open) (simp_all add: receives_def)
      then show ?thesis using cb(4) [OF that(2)] that(3) by simp
    qed
    ultimately show ?thesis using ob cb(2) by (auto simp: list_all2_Cons2)
  qed
qed simp

lemma onion_too_large:
  assumes "aead_ok L" "ks \<noteq> []" "list_all keys_wf ks" "955 < length data + 69 * (length ks - 1)"
  shows "onion L ks d s (cell_type_u8 t) data = Inl PayloadTooLarge"
  using assms(2-)
proof (induction ks)
  case (Cons k ks)
  show ?case
  proof (cases "ks = []")
    case True
    then show ?thesis using Cons.prems by (simp add: seal_compact_too_large)
  next
    case False
    then have on: "onion L (k # ks) d s (cell_type_u8 t) data =
        bind_r (onion L ks d s (cell_type_u8 t) data) (seal_compact L k d s 0)" by (cases ks) simp_all
    have len: "length ks - 1 + 1 = length ks" using False by (cases ks) simp_all
    show ?thesis
    proof (cases "955 < length data + 69 * (length ks - 1)")
      case True
      then show ?thesis using on Cons False by simp
    next
      case small: False
      then obtain cb where "onion L ks d s (cell_type_u8 t) data = Inr cb"
        "length cb = length data + 69 * length ks"
        using onion_opens [OF assms(1) False, of data d s t] Cons.prems by auto
      then show ?thesis using on Cons.prems by (simp add: seal_compact_too_large)
    qed
  qed
qed simp

section \<open>Sealing with a circuit\<close>

lemma sender_seal_onion:
  assumes "traversal_keys s \<noteq> []"
  shows "sender_seal L s t payload =
    (case bind_r (onion L (traversal_keys s) (cs_direction s) (next_sequence s) (cell_type_u8 t) payload) (\<lambda>cb.
       bind_r (wire_cell_from_compact cb) (\<lambda>cell.
       bind_r (ok_or OutOfWindow (checked_add1 (next_sequence s))) (\<lambda>next. Inr (cell, next))))
     of Inl e \<Rightarrow> (Inl e, s) | Inr (cell, next) \<Rightarrow> (Inr cell, s\<lparr>next_sequence := next\<rparr>))"
  by (simp add: onion_eq_wrap_layers [OF assms] sender_seal_def Let_def bind_r_assoc)

lemma max_payload_Inr_iff:
  "max_payload_for_hops n = Inr m \<longleftrightarrow> 0 < n \<and> n \<le> 3 \<and> m = 955 - 69 * (n - 1)"
proof -
  consider "n = 0" | "n = 1" | "n = 2" | "n = 3" | "3 < n" by linarith
  then show ?thesis by cases (auto simp: max_payload_for_hops_def onion_sizes)
qed

lemma sender_new_Inr:
  "sender_new keys d = Inr s \<Longrightarrow> keys \<noteq> [] \<and> length keys \<le> 3 \<and> s = \<lparr>traversal_keys = keys, cs_direction = d,
     next_sequence = 0\<rparr> \<and> (\<forall>k \<in> set keys. hk_expires_at k = hk_expires_at (hd keys))"
  unfolding sender_new_def Let_def list_ex_iff onion_sizes
  by (simp only: sum.inject sum.distinct de_Morgan_disj not_less split: if_split_asm) blast

lemma sender_seal_opens:
  assumes "aead_ok L" "traversal_keys s \<noteq> []" "list_all keys_wf (traversal_keys s)" "next_sequence s \<noteq> - 1"
    and "max_payload_for_hops (length (traversal_keys s)) = Inr m" "length payload \<le> m"
  obtains cell where "sender_seal L s t payload = (Inr cell, s\<lparr>next_sequence := next_sequence s + 1\<rparr>)"
    "length cell = CELL_SIZE"
    "\<And>rs now. list_all2 (receives (cs_direction s) (next_sequence s)) rs (traversal_keys s) \<Longrightarrow>
       \<forall>k \<in> set (traversal_keys s). now < hk_expires_at k \<Longrightarrow>
       open_path L rs cell now = (Some (t, payload), map (after_cell (next_sequence s)) rs)"
proof -
  have "length payload + 69 * (length (traversal_keys s) - 1) \<le> 955"
    using assms(5,6) by (auto simp: max_payload_Inr_iff)
  from onion_opens [OF assms(1-3) this, of "cs_direction s" "next_sequence s" t] obtain cb where cb:
    "onion L (traversal_keys s) (cs_direction s) (next_sequence s) (cell_type_u8 t) payload = Inr cb"
    "length cb = length payload + 69 * length (traversal_keys s)" "wire_cell_from_compact cb = Inr (pad_cell cb)"
    "\<And>rs now. list_all2 (receives (cs_direction s) (next_sequence s)) rs (traversal_keys s) \<Longrightarrow>
       \<forall>k \<in> set (traversal_keys s). now < hk_expires_at k \<Longrightarrow>
       open_path L rs (pad_cell cb) now = (Some (t, payload), map (after_cell (next_sequence s)) rs)"
    by auto
  have "length (pad_cell cb) = CELL_SIZE"
    using cb(2) assms(5,6) by (auto simp: pad_cell_def max_payload_Inr_iff CELL_SIZE_def)
  moreover have "sender_seal L s t payload = (Inr (pad_cell cb), s\<lparr>next_sequence := next_sequence s + 1\<rparr>)"
    using cb(1,3) assms(4) by (simp add: sender_seal_onion [OF assms(2)] checked_add1_def)
  ultimately show ?thesis using that cb(4) by metis
qed

lemma sender_seal_too_large:
  assumes "aead_ok L" "traversal_keys s \<noteq> []" "list_all keys_wf (traversal_keys s)"
    and "max_payload_for_hops (length (traversal_keys s)) = Inr m" "m < length payload"
  shows "sender_seal L s t payload = (Inl PayloadTooLarge, s)"
proof -
  have "955 < length payload + 69 * (length (traversal_keys s) - 1)"
    using assms(4,5) by (auto simp: max_payload_Inr_iff)
  from onion_too_large [OF assms(1-3) this] show ?thesis
    by (simp add: sender_seal_onion [OF assms(2)])
qed

text \<open>Whatever a sender outputs carries the sequence number it had before the call.\<close>

lemma wire_cell_from_compact_parses:
  "wire_cell_from_compact cb = Inr cell \<Longrightarrow> \<exists>h. parse_cell_header cell = Inr h"
  by (auto simp: wire_cell_from_compact_def Let_def result_simps split: if_splits)

section \<open>Streams of cells\<close>

text \<open>One sender, one receiver per hop: the messages are sealed and walked along the path in turn.\<close>

fun send_all ::
  "'z onion_lib_scheme \<Rightarrow> circuit_sender \<Rightarrow> hop_receiver list \<Rightarrow> (cell_type \<times> bytes) list \<Rightarrow> u64 \<Rightarrow>
     (cell_type \<times> bytes) option list" where
  "send_all L s rs [] now = []"
| "send_all L s rs ((t, payload) # ms) now =
     (case sender_seal L s t payload of
        (Inl e, s') \<Rightarrow> None # send_all L s' rs ms now
      | (Inr cell, s') \<Rightarrow>
          (let (res, rs') = open_path L rs cell now in res # send_all L s' rs' ms now))"

definition cell_sequence :: "bytes \<Rightarrow> u64 option" where
  "cell_sequence cell = (case parse_cell_header cell of Inr h \<Rightarrow> Some (ch_sequence h) | Inl _ \<Rightarrow> None)"

fun emitted_cells :: "'z onion_lib_scheme \<Rightarrow> circuit_sender \<Rightarrow> (cell_type \<times> bytes) list \<Rightarrow> bytes list" where
  "emitted_cells L s [] = []"
| "emitted_cells L s ((t, payload) # ms) =
     (case sender_seal L s t payload of
        (Inl e, s') \<Rightarrow> emitted_cells L s' ms
      | (Inr cell, s') \<Rightarrow> cell # emitted_cells L s' ms)"

text \<open>
  A compact encoding whose layers, outermost first, are the results of AEAD encryptions
  under the listed keys and nonces: a header, the ciphertext and the tag, where the
  plaintext of one layer holds, behind its type and length, the encoding of the next.
\<close>

inductive encrypted_under :: "'z onion_lib_scheme \<Rightarrow> (bytes \<times> bytes) list \<Rightarrow> bytes \<Rightarrow> bool" for L where
  payload: "encrypted_under L [] data"
| layer: "length header = 50 \<Longrightarrow> length t = 16 \<Longrightarrow> aead_encrypt L key nonce aad plaintext = Some (c, t) \<Longrightarrow>
    encrypted_under L uses (drop 3 plaintext) \<Longrightarrow> encrypted_under L ((key, nonce) # uses) (header @ c @ t)"

fun opened_sequences ::
  "'z onion_lib_scheme \<Rightarrow> hop_receiver \<Rightarrow> (bytes \<times> u64) list \<Rightarrow> u64 list" where
  "opened_sequences L r [] = []"
| "opened_sequences L r ((cell, now) # cs) =
     (case receiver_open L r cell now of
        (Inl e, r') \<Rightarrow> opened_sequences L r' cs
      | (Inr opened, r') \<Rightarrow>
          (case cell_sequence cell of None \<Rightarrow> [] | Some n \<Rightarrow> [n]) @ opened_sequences L r' cs)"

text \<open>A layer that fails to open leaves the window alone; one that opens was admitted by it.\<close>

lemma open_layer_admits:
  "open_layer L k w cell d now = (Inl e, w') \<Longrightarrow> w' = w"
  "open_layer L k w cell d now = (Inr opened, w') \<Longrightarrow>
     \<exists>n. cell_sequence cell = Some n \<and> rw_admit w n = Some w'"
  by (auto simp: open_layer_def cell_sequence_def rw_admit_def Let_def case_prod_unfold result_simps
      split: sum.splits if_splits)

lemma opened_sequences_accepted:
  "accepted rw_admit (hr_replay r) (opened_sequences L r cs) = opened_sequences L r cs"
proof (induction L r cs rule: opened_sequences.induct)
  case (2 L r cell now cs)
  obtain res w' where o: "open_layer L (hr_keys r) (hr_replay r) cell (hr_expected_direction r) now = (res, w')"
    by (cases "open_layer L (hr_keys r) (hr_replay r) cell (hr_expected_direction r) now")
  then have ro: "receiver_open L r cell now = (res, r\<lparr>hr_replay := w'\<rparr>)" by (simp add: receiver_open_def)
  show ?case
  proof (cases res)
    case (Inl e)
    then have "w' = hr_replay r" using o open_layer_admits(1) by blast
    then show ?thesis using 2(1) [OF ro [symmetric] Inl] ro Inl by simp
  next
    case (Inr opened)
    then obtain n where "cell_sequence cell = Some n" "rw_admit (hr_replay r) n = Some w'"
      using o open_layer_admits(2) by blast
    then show ?thesis using 2(2) [OF ro [symmetric] Inr] ro Inr by simp
  qed
qed simp

lemma rw_next:
  assumes "highest w = (if n = 0 then None else Some (n - 1))"
  shows "rw_check w n = Inr ()" "highest (rw_commit w n) = Some n"
proof -
  have "rw_check w n = Inr () \<and> highest (rw_commit w n) = Some n"
  proof (cases "n = 0")
    case True
    then show ?thesis using assms by (simp add: rw_check_None rw_commit_def)
  next
    case False
    then have u: "unat (n - 1) = unat n - 1" "0 < unat n" by (simp_all add: unat_minus_one word_gt_0 unat_gt_0)
    then have "n - 1 < n" by (simp add: word_less_nat_alt)
    with False u assms show ?thesis
      by (simp add: rw_check_above rw_commit_highest max.absorb2)
  qed
  then show "rw_check w n = Inr ()" "highest (rw_commit w n) = Some n" by simp_all
qed

definition ready :: "direction \<Rightarrow> u64 \<Rightarrow> hop_receiver \<Rightarrow> hop_keys \<Rightarrow> bool" where
  "ready d n r k \<longleftrightarrow> hr_keys r = k \<and> hr_expected_direction r = d
     \<and> highest (hr_replay r) = (if n = 0 then None else Some (n - 1))"

lemma ready_receives: "ready d n r k \<Longrightarrow> receives d n r k"
  by (simp add: ready_def receives_def rw_next)

lemma ready_next: "ready d n r k \<Longrightarrow> n \<noteq> - 1 \<Longrightarrow> ready d (n + 1) (after_cell n r) k"
  by (auto simp: ready_def after_cell_def rw_next(2) eq_neg_iff_add_eq_0)

lemma ready_new: "list_all2 (ready d 0) (map (\<lambda>k. receiver_new k d) keys) keys"
  by (simp add: list_all2_map1 list_all2_same ready_def receiver_new_def rw_default_def)

lemma u64_next:
  assumes "unat (n :: u64) + Suc k < 2 ^ 64"
  shows "n \<noteq> - 1 \<and> unat (n + 1) + k < 2 ^ 64"
proof
  show ne: "n \<noteq> - 1" using assms unat_minus_1_u64 by auto
  then show "unat (n + 1) + k < 2 ^ 64" using assms u64_succ(1) by simp
qed

lemma send_all_delivers:
  assumes "aead_ok L" "keys \<noteq> []" "list_all keys_wf keys" "\<forall>k \<in> set keys. now < hk_expires_at k"
    and "max_payload_for_hops (length keys) = Inr m"
  shows "traversal_keys s = keys \<Longrightarrow> cs_direction s = d \<Longrightarrow> list_all2 (ready d (next_sequence s)) rs keys \<Longrightarrow>
    list_all (\<lambda>x. length (snd x) \<le> m) ms \<Longrightarrow> unat (next_sequence s) + length ms < 2 ^ 64 \<Longrightarrow>
    send_all L s rs ms now = map Some ms"
proof (induction ms arbitrary: s rs)
  case (Cons x ms)
  obtain t payload where x: "x = (t, payload)" by (cases x)
  have n: "next_sequence s \<noteq> - 1" "unat (next_sequence s + 1) + length ms < 2 ^ 64"
    using u64_next [of "next_sequence s" "length ms"] Cons.prems by simp_all
  obtain cell where seal: "sender_seal L s t payload = (Inr cell, s\<lparr>next_sequence := next_sequence s + 1\<rparr>)"
    and opens: "\<And>rs now. list_all2 (receives (cs_direction s) (next_sequence s)) rs (traversal_keys s) \<Longrightarrow>
       \<forall>k \<in> set (traversal_keys s). now < hk_expires_at k \<Longrightarrow>
       open_path L rs cell now = (Some (t, payload), map (after_cell (next_sequence s)) rs)"
    by (rule sender_seal_opens [of L s m payload t]) (use assms Cons.prems n x in simp_all)
  have "list_all2 (receives d (next_sequence s)) rs keys"
    using Cons.prems(3) by (rule list_all2_mono) (rule ready_receives)
  then have path: "open_path L rs cell now = (Some (t, payload), map (after_cell (next_sequence s)) rs)"
    using opens assms(4) Cons.prems by simp
  have "list_all2 (ready d (next_sequence s + 1)) (map (after_cell (next_sequence s)) rs) keys"
    using Cons.prems(3) n(1) by (auto simp: list_all2_map1 elim!: list_all2_mono intro: ready_next)
  then have "send_all L (s\<lparr>next_sequence := next_sequence s + 1\<rparr>) (map (after_cell (next_sequence s)) rs) ms now
      = map Some ms"
    using Cons.IH [of "s\<lparr>next_sequence := next_sequence s + 1\<rparr>"] Cons.prems n(2) by simp
  then show ?case using x seal path by simp
qed simp

lemma nonce_inj: "keys_wf k \<Longrightarrow> snd (key_and_nonce k d m) = snd (key_and_nonce k d n) \<Longrightarrow> m = n"
  by (auto simp: key_and_nonce_layout split: direction.splits dest: arg_cong [of _ _ be_u64])

lemma of_nat_u64_inj:
  assumes "(of_nat i :: u64) = of_nat j" "i < 2 ^ 64" "j < 2 ^ 64"
  shows "i = j"
proof -
  have "unat (of_nat i :: u64) = i" "unat (of_nat j :: u64) = j" using assms(2,3) by (simp_all add: unat_of_nat)
  then show ?thesis using assms(1) by metis
qed

lemma seal_compact_encrypts:
  assumes "aead_ok L" "keys_wf k" "seal_compact L k d n lt data = Inr cb" "encrypted_under L uses data"
  shows "encrypted_under L (key_and_nonce k d n # uses) cb"
proof -
  have len: "length data \<le> 955" using assms(3) seal_compact_too_large [of data L k d n lt] by fastforce
  obtain c t where ct: "length t = 16" "cb = encode_cell_header k d n (length data + 19) @ c @ t"
    "aead_encrypt L (fst (key_and_nonce k d n)) (snd (key_and_nonce k d n))
       (encode_cell_header k d n (length data + 19) @ replicate (955 - length data) 0)
       (lt # u16_be (of_nat (length data)) @ data) = Some (c, t)"
    using seal_compact_shape [OF assms(1,2) len, of d n lt] assms(3) by (metis sum.inject(2))
  have "encrypted_under L ((fst (key_and_nonce k d n), snd (key_and_nonce k d n)) # uses)
      (encode_cell_header k d n (length data + 19) @ c @ t)"
    using ct(1) assms(2,4) by (intro encrypted_under.layer [OF _ _ ct(3)]) simp_all
  then show ?thesis using ct(2) by simp
qed

lemma onion_encrypts:
  "aead_ok L \<Longrightarrow> list_all keys_wf ks \<Longrightarrow> onion L ks d n lt data = Inr cb \<Longrightarrow>
    encrypted_under L (map (\<lambda>k. key_and_nonce k d n) ks) cb"
proof (induction L ks d n lt data arbitrary: cb rule: onion.induct)
  case (3 L k k' ks d n lt data)
  then obtain inner where "onion L (k' # ks) d n lt data = Inr inner" "seal_compact L k d n 0 inner = Inr cb"
    by (auto simp: result_simps split: sum.splits)
  with 3 show ?case by (auto intro: seal_compact_encrypts)
qed (auto intro: seal_compact_encrypts encrypted_under.payload)

lemma sender_seal_encrypts:
  assumes "aead_ok L" "traversal_keys s \<noteq> []" "list_all keys_wf (traversal_keys s)"
    and "sender_seal L s t payload = (Inr cell, s')"
  shows "next_sequence s \<noteq> - 1 \<and> s' = s\<lparr>next_sequence := next_sequence s + 1\<rparr> \<and>
    (\<exists>compact. take (length compact) cell = compact \<and>
       encrypted_under L (map (\<lambda>k. key_and_nonce k (cs_direction s) (next_sequence s)) (traversal_keys s)) compact)"
proof -
  obtain cb where cb: "onion L (traversal_keys s) (cs_direction s) (next_sequence s) (cell_type_u8 t) payload = Inr cb"
    "wire_cell_from_compact cb = Inr cell" "next_sequence s \<noteq> - 1" "s' = s\<lparr>next_sequence := next_sequence s + 1\<rparr>"
    using assms(2,4) by (auto simp: sender_seal_onion checked_add1_def result_simps split: sum.splits if_splits)
  have "take (length cb) cell = cb"
    using cb(2) by (auto simp: wire_cell_from_compact_def write_at_def Let_def result_simps split: sum.splits if_splits)
  then show ?thesis using cb onion_encrypts [OF assms(1,3) cb(1)] by blast
qed

lemma emitted_cells_encrypt:
  assumes "aead_ok L" "keys \<noteq> []" "list_all keys_wf keys"
  shows "traversal_keys s = keys \<Longrightarrow> cs_direction s = d \<Longrightarrow>
    unat (next_sequence s) + length (emitted_cells L s ms) < 2 ^ 64 \<and>
    (\<forall>i < length (emitted_cells L s ms). \<exists>compact. take (length compact) (emitted_cells L s ms ! i) = compact \<and>
       encrypted_under L (map (\<lambda>k. key_and_nonce k d (next_sequence s + of_nat i)) keys) compact)"
proof (induction ms arbitrary: s)
  case Nil
  then show ?case using unsigned_less [of "next_sequence s"] by simp
next
  case (Cons x ms)
  obtain t payload where x: "x = (t, payload)" by (cases x)
  obtain res s' where Pair: "sender_seal L s t payload = (res, s')" by (rule prod.exhaust)
  show ?case
  proof (cases res)
    case (Inl e)
    then have "s' = s" using Pair assms(2) Cons.prems by (auto simp: sender_seal_onion split: sum.splits)
    then show ?thesis using Inl Pair x Cons by simp
  next
    case (Inr cell)
    have st: "next_sequence s \<noteq> - 1" "s' = s\<lparr>next_sequence := next_sequence s + 1\<rparr>"
      "\<exists>compact. take (length compact) cell = compact \<and>
         encrypted_under L (map (\<lambda>k. key_and_nonce k d (next_sequence s)) keys) compact"
      using sender_seal_encrypts [of L s t payload cell s'] assms Cons.prems Pair Inr by auto
    have IH: "unat (next_sequence s + 1) + length (emitted_cells L s' ms) < 2 ^ 64"
      "\<forall>i < length (emitted_cells L s' ms). \<exists>compact. take (length compact) (emitted_cells L s' ms ! i) = compact \<and>
         encrypted_under L (map (\<lambda>k. key_and_nonce k d (next_sequence s + 1 + of_nat i)) keys) compact"
      using Cons.IH [of s'] Cons.prems st(2) by simp_all
    have "unat (next_sequence s + 1) = unat (next_sequence s) + 1" using u64_succ(1) [OF st(1)] by simp
    then show ?thesis using IH st(3) x Pair Inr by (auto simp: nth_Cons add.assoc split: nat.splits)
  qed
qed

text \<open>
  A payload that only an outer layer refuses has been encrypted for the last hop under the
  next number, which the sender keeps for its next cell; the ciphertext is dropped.
\<close>

lemma refused_payload_was_encrypted:
  assumes "aead_ok L" "traversal_keys s = [k, k']" "keys_wf k" "keys_wf k'"
    and "886 < length payload" "length payload \<le> 955"
  shows "sender_seal L s t payload = (Inl PayloadTooLarge, s)"
    "\<exists>inner. seal_compact L k' (cs_direction s) (next_sequence s) (cell_type_u8 t) payload = Inr inner"
  using sender_seal_too_large [of L s 886 payload t] assms
    seal_compact_shape [OF assms(1,4,6), of "cs_direction s" "next_sequence s" "cell_type_u8 t"]
  by (auto simp: max_payload_Inr_iff)

section \<open>Properties\<close>

text \<open>
  C1: End-to-end delivery. A sender created for one to three hops and fresh receivers holding
  the same keys, all before expiry: every message that fits the payload budget of the
  circuit is sealed, peeled hop by hop (each relay sees a cell to forward, the last one the
  payload) and arrives with its type and bytes, in order, for any number of messages below
  the sequence limit.
\<close>

theorem circuit_delivers:
  assumes "aead_ok L" "sender_new keys d = Inr s" "list_all keys_wf keys" "now < hk_expires_at (hd keys)"
    and "max_payload_for_hops (length keys) = Inr m" "list_all (\<lambda>x. length (snd x) \<le> m) ms"
    and "length ms < 2 ^ 64"
  shows "send_all L s (map (\<lambda>k. receiver_new k d) keys) ms now = map Some ms"
proof -
  from sender_new_Inr [OF assms(2)] have s: "keys \<noteq> []"
    "s = \<lparr>traversal_keys = keys, cs_direction = d, next_sequence = 0\<rparr>"
    and e: "\<forall>k \<in> set keys. hk_expires_at k = hk_expires_at (hd keys)" by blast+
  have exp: "\<forall>k \<in> set keys. now < hk_expires_at k" using e assms(4) by metis
  show ?thesis
    by (rule send_all_delivers [OF assms(1) s(1) assms(3) exp assms(5)]) (use s(2) ready_new [of d keys] assms in simp_all)
qed

definition example_keys :: "u8 \<Rightarrow> hop_keys" where
  "example_keys hop = \<lparr>hk_circuit_id = replicate 16 7, hk_hop = hop, hk_epoch = 4, hk_expires_at = 100,
     forward_key = replicate 32 hop, reverse_key = replicate 32 (hop + 9),
     forward_nonce_prefix = replicate 4 hop, reverse_nonce_prefix = replicate 4 (hop + 5)\<rparr>"

lemma example_keys_wf: "keys_wf (example_keys h)"
  by (simp add: keys_wf_def example_keys_def)

theorem circuit_delivers_witness:
  "\<exists>s. sender_new [example_keys 0, example_keys 1] Forward = Inr s \<and>
     send_all example_onion_lib s [receiver_new (example_keys 0) Forward, receiver_new (example_keys 1) Forward]
       [(Data, [1, 2, 3]), (Teardown, [])] 10 = [Some (Data, [1, 2, 3]), Some (Teardown, [])]"
proof -
  have "sender_new [example_keys 0, example_keys 1] Forward =
      Inr \<lparr>traversal_keys = [example_keys 0, example_keys 1], cs_direction = Forward, next_sequence = 0\<rparr>"
    by (simp add: sender_new_def example_keys_def MAX_HOPS_def)
  from this circuit_delivers [OF example_onion_lib_ok(1) this, of 10 886 "[(Data, [1, 2, 3]), (Teardown, [])]"]
  show ?thesis
    by (simp add: example_keys_wf max_payload_Inr_iff) (simp add: example_keys_def)
qed

text \<open>
  The payload budget is exact. On a circuit of one to three hops whose sequence numbers
  are not used up, sealing succeeds precisely for payloads of at most
  \<open>max_payload_for_hops\<close> bytes; the cell then has the fixed size, and a refused payload
  leaves the sender unchanged with \<open>PayloadTooLarge\<close>.
\<close>

theorem seal_iff_fits:
  assumes "aead_ok L" "traversal_keys s \<noteq> []" "list_all keys_wf (traversal_keys s)" "next_sequence s \<noteq> - 1"
    and "max_payload_for_hops (length (traversal_keys s)) = Inr m"
  shows "if length payload \<le> m
    then \<exists>cell. sender_seal L s t payload = (Inr cell, s\<lparr>next_sequence := next_sequence s + 1\<rparr>)
           \<and> length cell = CELL_SIZE
    else sender_seal L s t payload = (Inl PayloadTooLarge, s)"
proof (cases "length payload \<le> m")
  case True
  then show ?thesis using sender_seal_opens [OF assms True, of t] by metis
next
  case False
  then show ?thesis using sender_seal_too_large [OF assms(1-3,5)] by simp
qed

theorem seal_iff_fits_witness:
  "let s = \<lparr>traversal_keys = [example_keys 0, example_keys 1, example_keys 2], cs_direction = Forward, next_sequence = 5\<rparr>
   in (\<exists>cell. sender_seal example_onion_lib s Data (replicate 817 1) = (Inr cell, s\<lparr>next_sequence := 6\<rparr>)
         \<and> length cell = CELL_SIZE)
    \<and> sender_seal example_onion_lib s Data (replicate 818 1) = (Inl PayloadTooLarge, s)"
proof -
  let ?s = "\<lparr>traversal_keys = [example_keys 0, example_keys 1, example_keys 2], cs_direction = Forward, next_sequence = 5\<rparr>"
  show ?thesis
    using seal_iff_fits [OF example_onion_lib_ok(1), of ?s 817 "replicate 817 1" Data]
      seal_iff_fits [OF example_onion_lib_ok(1), of ?s 817 "replicate 818 1" Data]
    by (simp add: example_keys_wf max_payload_Inr_iff)
qed

text \<open>
  C5: The cells that leave a sender never share a nonce. Whatever messages it is asked to
  seal, some of which it may refuse, the \<open>i\<close>-th cell it outputs has one AEAD encryption per
  hop, made with that hop's key and the nonce of the sender's starting number plus \<open>i\<close>, and
  these nonces are pairwise different for every hop key; the numbers do not wrap. (A payload
  refused by an outer layer was encrypted under the next number before; it is not output.)
\<close>

theorem emitted_cells_never_share_a_nonce:
  assumes "aead_ok L" "traversal_keys s \<noteq> []" "list_all keys_wf (traversal_keys s)"
    and "cells = emitted_cells L s ms"
    and "uses = (\<lambda>i. map (\<lambda>k. key_and_nonce k (cs_direction s) (next_sequence s + of_nat i)) (traversal_keys s))"
  shows "(\<forall>i < length cells. \<exists>compact. take (length compact) (cells ! i) = compact \<and>
            encrypted_under L (uses i) compact)
    \<and> (\<forall>hop < length (traversal_keys s). distinct (map (\<lambda>i. snd (uses i ! hop)) [0..<length cells]))"
proof -
  have enc: "unat (next_sequence s) + length cells < 2 ^ 64"
    "\<forall>i < length cells. \<exists>compact. take (length compact) (cells ! i) = compact \<and> encrypted_under L (uses i) compact"
    using emitted_cells_encrypt [OF assms(1-3) refl refl, of ms] unfolding assms(4,5) by blast+
  have "distinct (map (\<lambda>i. snd (uses i ! hop)) [0..<length cells])" if "hop < length (traversal_keys s)" for hop
  proof -
    have wf: "keys_wf (traversal_keys s ! hop)" using assms(3) that by (simp add: list_all_length)
    have "i = j" if "i < length cells" "j < length cells" "snd (uses i ! hop) = snd (uses j ! hop)" for i j
    proof -
      have "(of_nat i :: u64) = of_nat j"
        using nonce_inj [OF wf, of "cs_direction s"] that(3) \<open>hop < length (traversal_keys s)\<close>
        unfolding assms(5) by fastforce
      then show ?thesis using that(1,2) enc(1) by (intro of_nat_u64_inj) simp_all
    qed
    then show ?thesis by (auto simp: distinct_map inj_on_def)
  qed
  with enc(2) show ?thesis by blast
qed

theorem emitted_cells_never_share_a_nonce_witness:
  "let s = \<lparr>traversal_keys = [example_keys 0, example_keys 1], cs_direction = Forward, next_sequence = 5\<rparr>;
       cells = emitted_cells example_onion_lib s [(Data, [1]), (Padding, replicate 900 0), (Data, [2])];
       uses = (\<lambda>i. [key_and_nonce (example_keys 0) Forward (5 + of_nat i), key_and_nonce (example_keys 1) Forward (5 + of_nat i)])
   in length cells = 2
    \<and> (\<forall>i < length cells. \<exists>compact. take (length compact) (cells ! i) = compact \<and>
         encrypted_under example_onion_lib (uses i) compact)
    \<and> (\<forall>hop < 2. distinct (map (\<lambda>i. snd (uses i ! hop)) [0..<length cells]))"
proof -
  let ?s = "\<lambda>n. \<lparr>traversal_keys = [example_keys 0, example_keys 1], cs_direction = Forward, next_sequence = n\<rparr>"
  let ?ms = "[(Data, [1]), (Padding, replicate 900 0), (Data, [2])]"
  have fits: "\<exists>cell. sender_seal example_onion_lib (?s n) t p = (Inr cell, ?s (n + 1))"
    if "length p \<le> 886" "n \<noteq> - 1" for n t p
    using seal_iff_fits [OF example_onion_lib_ok(1), of "?s n" 886 p t] that
    by (auto simp: example_keys_wf max_payload_Inr_iff)
  obtain c1 c2 where "sender_seal example_onion_lib (?s 5) Data [1] = (Inr c1, ?s 6)"
    "sender_seal example_onion_lib (?s 6) Data [2] = (Inr c2, ?s 7)"
    using fits [of "[1]" 5 Data] fits [of "[2]" 6 Data] by auto
  then have n: "length (emitted_cells example_onion_lib (?s 5) ?ms) = 2"
    using refused_payload_was_encrypted(1) [OF example_onion_lib_ok(1), of "?s 6" "example_keys 0" "example_keys 1" "replicate 900 0" Padding]
    by (simp add: example_keys_wf)
  show ?thesis
    using emitted_cells_never_share_a_nonce [OF example_onion_lib_ok(1), of "?s 5", OF _ _ refl refl, of ?ms] n
    unfolding Let_def by (simp add: example_keys_wf del: emitted_cells.simps)
qed

text \<open>
  C6: A hop opens at most one cell per sequence number, whatever cells it is offered, in
  whatever order and at whatever times: replayed cells, also bit-identical ones, are refused.
\<close>

theorem receiver_opens_each_sequence_once: "distinct (opened_sequences L r cells)"
  by (metis opened_sequences_accepted window.accepted_distinct)

end
