(* ===== verification/Onion_Fragment.thy ===== *)
theory Onion_Fragment
  imports Onion_Types
begin

text \<open>
  Fragmentation of messages over cells: the \<open>Fragment\<close> format, \<open>fragment_message\<close> and the
  \<open>Reassembler\<close>. The reassembler's \<open>HashMap\<close> is an association list, and \<open>push\<close> returns the
  result together with the map as it is left, also on the error paths.
\<close>

section \<open>Fragments\<close>

record fragment =
  fr_message_id :: bytes
  fr_index :: u32
  fr_count :: u32
  fr_total_len :: u32
  fr_bytes :: bytes

definition FRAGMENT_MAX_BYTES :: nat where
  "FRAGMENT_MAX_BYTES = MAX_LAYER_DATA - FRAGMENT_HEADER_SIZE"

definition fragment_validate :: "fragment \<Rightarrow> onion_error + unit" where
  "fragment_validate f =
     (if fr_count f = 0 \<or> unat (fr_count f) > MAX_FRAGMENT_COUNT \<or> fr_index f \<ge> fr_count f
         \<or> unat (fr_total_len f) > MAX_MESSAGE_SIZE
         \<or> length (fr_bytes f) > FRAGMENT_MAX_BYTES
         \<or> fr_total_len f = 0 \<and> (fr_count f \<noteq> 1 \<or> fr_bytes f \<noteq> [])
         \<or> fr_total_len f > 0 \<and> fr_bytes f = []
      then Inl InvalidEncoding else Inr ())"

definition fragment_encode :: "fragment \<Rightarrow> onion_error + bytes" where
  "fragment_encode f =
     bind_r (fragment_validate f) (\<lambda>_.
     Inr (fr_message_id f @ u32_be (fr_index f) @ u32_be (fr_count f) @ u32_be (fr_total_len f) @ fr_bytes f))"

definition fragment_decode :: "bytes \<Rightarrow> onion_error + fragment" where
  "fragment_decode bytes =
     (if length bytes < FRAGMENT_HEADER_SIZE \<or> length bytes > MAX_LAYER_DATA then Inl InvalidEncoding
      else
        let f = \<lparr>fr_message_id = slice 0 16 bytes, fr_index = be_u32 (slice 16 20 bytes),
                 fr_count = be_u32 (slice 20 24 bytes), fr_total_len = be_u32 (slice 24 28 bytes),
                 fr_bytes = drop 28 bytes\<rparr>
        in bind_r (fragment_validate f) (\<lambda>_. Inr f))"

definition fragment_message :: "bytes \<Rightarrow> bytes \<Rightarrow> onion_error + fragment list" where
  "fragment_message message_id bytes =
     (if length bytes > MAX_MESSAGE_SIZE then Inl PayloadTooLarge
      else if bytes = [] then
        Inr [\<lparr>fr_message_id = message_id, fr_index = 0, fr_count = 1, fr_total_len = 0, fr_bytes = []\<rparr>]
      else
        let count = div_ceil (length bytes) FRAGMENT_MAX_BYTES in
        if count > MAX_FRAGMENT_COUNT then Inl PayloadTooLarge
        else Inr (map (\<lambda>(index, chunk).
               \<lparr>fr_message_id = message_id, fr_index = of_nat index, fr_count = of_nat count,
                fr_total_len = of_nat (length bytes), fr_bytes = chunk\<rparr>)
             (enumerate 0 (chunks FRAGMENT_MAX_BYTES bytes))))"

section \<open>Reassembler\<close>

record partial_message =
  pm_count :: u32
  pm_total_len :: u32
  pm_received_bytes :: nat
  pm_fragments :: "bytes option list"

type_synonym reassembler = "(bytes, partial_message) hmap"

text \<open>\<open>messages.entry(id).or_insert_with(..)\<close>: the map with the entry in place, and the entry.\<close>

definition fresh_entry :: "fragment \<Rightarrow> partial_message" where
  "fresh_entry f = \<lparr>pm_count = fr_count f, pm_total_len = fr_total_len f, pm_received_bytes = 0,
     pm_fragments = replicate (unat (fr_count f)) None\<rparr>"

definition entry_or_insert :: "reassembler \<Rightarrow> fragment \<Rightarrow> reassembler \<times> partial_message" where
  "entry_or_insert messages f =
     (case map_of messages (fr_message_id f) of
        Some entry \<Rightarrow> (messages, entry)
      | None \<Rightarrow> (AList.update (fr_message_id f) (fresh_entry f) messages, fresh_entry f))"

definition push :: "reassembler \<Rightarrow> fragment \<Rightarrow> (onion_error + bytes option) \<times> reassembler" where
  "push messages f =
     (case fragment_validate f of
        Inl e \<Rightarrow> (Inl e, messages)
      | Inr _ \<Rightarrow>
        if \<not> hm_contains messages (fr_message_id f) \<and> length messages \<ge> MAX_INFLIGHT_MESSAGES
        then (Inl FragmentCapacity, messages)
        else
          let (messages, entry) = entry_or_insert messages f in
          if pm_count entry \<noteq> fr_count f \<or> pm_total_len entry \<noteq> fr_total_len f
          then (Inl InvalidEncoding, messages)
          else if pm_fragments entry ! unat (fr_index f) \<noteq> None then (Inl Replay, messages)
          else
            let received_bytes = pm_received_bytes entry + length (fr_bytes f) in
            if received_bytes \<ge> 2 ^ 64 then (Inl PayloadTooLarge, messages)
            else if received_bytes > unat (pm_total_len entry) then (Inl InvalidEncoding, messages)
            else
              let entry = entry\<lparr>pm_received_bytes := received_bytes,
                                pm_fragments := (pm_fragments entry)[unat (fr_index f) := Some (fr_bytes f)]\<rparr>;
                  messages = AList.update (fr_message_id f) entry messages
              in
              if list_ex (\<lambda>x. x = None) (pm_fragments entry) then (Inr None, messages)
              else if pm_received_bytes entry \<noteq> unat (pm_total_len entry) then (Inl InvalidEncoding, messages)
              else (Inr (Some (concat (List.map_filter id (pm_fragments entry)))),
                    AList.delete (fr_message_id f) messages))"

fun push_all :: "reassembler \<Rightarrow> fragment list \<Rightarrow> (onion_error + bytes option) list \<times> reassembler" where
  "push_all r [] = ([], r)"
| "push_all r (f # fs) = (let (res, r) = push r f; (rest, r) = push_all r fs in (res # rest, r))"

section \<open>Fragment format\<close>

definition fragment_wf :: "fragment \<Rightarrow> bool" where
  "fragment_wf f \<longleftrightarrow> length (fr_message_id f) = 16 \<and> fragment_validate f = Inr ()"

definition fragment_wire :: "fragment \<Rightarrow> bytes" where
  "fragment_wire f = (case fragment_encode f of Inr bs \<Rightarrow> bs | Inl _ \<Rightarrow> [])"

lemma fragment_validate_Inr:
  "fragment_validate f = Inr () \<longleftrightarrow> 0 < fr_count f \<and> unat (fr_count f) \<le> 1024 \<and> fr_index f < fr_count f
     \<and> unat (fr_total_len f) \<le> 524288 \<and> length (fr_bytes f) \<le> 927
     \<and> (if fr_total_len f = 0 then fr_count f = 1 \<and> fr_bytes f = [] else fr_bytes f \<noteq> [])"
  by (auto simp: fragment_validate_def FRAGMENT_MAX_BYTES_def onion_sizes word_gt_0 not_less not_le)

lemma fragment_slices:
  "28 \<le> length bs \<Longrightarrow>
     slice 0 16 bs @ slice 16 20 bs @ slice 20 24 bs @ slice 24 28 bs @ drop 28 bs = bs"
  by (simp add: slice_split drop_eq_slice del: slice_exact)

lemma fragment_decode_wire:
  assumes "fragment_wf f"
  shows "fragment_decode (fragment_wire f) = Inr f"
proof -
  have "length (fr_bytes f) \<le> 927" using assms by (simp add: fragment_wf_def fragment_validate_Inr)
  with assms show ?thesis
    by (cases f) (simp add: fragment_wf_def fragment_wire_def fragment_encode_def fragment_decode_def
        wire_simps onion_sizes)
qed

lemma fragment_wire_decode:
  assumes "fragment_decode bs = Inr f"
  shows "fragment_wire f = bs \<and> fragment_wf f"
proof -
  have len: "28 \<le> length bs" and v: "fragment_validate f = Inr ()"
    and f: "f = \<lparr>fr_message_id = slice 0 16 bs, fr_index = be_u32 (slice 16 20 bs),
      fr_count = be_u32 (slice 20 24 bs), fr_total_len = be_u32 (slice 24 28 bs), fr_bytes = drop 28 bs\<rparr>"
    using assms by (auto simp: fragment_decode_def onion_sizes Let_def result_simps split: if_splits)
  then have "fragment_wire f = slice 0 16 bs @ slice 16 20 bs @ slice 20 24 bs @ slice 24 28 bs @ drop 28 bs"
    using u32_be_u32 [of "slice 16 20 bs"] u32_be_u32 [of "slice 20 24 bs"] u32_be_u32 [of "slice 24 28 bs"]
    by (simp add: fragment_wire_def fragment_encode_def)
  then show ?thesis using fragment_slices [OF len] v f len by (simp add: fragment_wf_def)
qed

interpretation fragment_codec: wire_codec fragment_wire fragment_decode fragment_wf
  by unfold_locales (fact fragment_decode_wire, fact fragment_wire_decode)

section \<open>The fragments of a message\<close>

text \<open>What \<open>fragment_message\<close> returns: fragment \<open>i\<close> of the pieces of the message.\<close>

definition nth_fragment :: "bytes \<Rightarrow> bytes list \<Rightarrow> nat \<Rightarrow> fragment" where
  "nth_fragment message_id pieces i =
     \<lparr>fr_message_id = message_id, fr_index = of_nat i, fr_count = of_nat (length pieces),
      fr_total_len = of_nat (length (concat pieces)), fr_bytes = pieces ! i\<rparr>"

definition pieces_ok :: "bytes list \<Rightarrow> bool" where
  "pieces_ok ps \<longleftrightarrow> ps \<noteq> [] \<and> length ps \<le> 1024 \<and> length (concat ps) \<le> 524288
     \<and> (\<forall>p \<in> set ps. length p \<le> 927) \<and> (ps = [[]] \<or> [] \<notin> set ps)"

lemma div_ceil_bound: "n \<le> 524288 \<Longrightarrow> div_ceil n 927 \<le> 1024"
proof -
  assume "n \<le> 524288"
  then have "n div 927 \<le> 524288 div 927" by (rule div_le_mono)
  then show ?thesis by (simp add: div_ceil_def)
qed

lemma fragment_message_pieces:
  "fragment_message mid bs =
     (if length bs > MAX_MESSAGE_SIZE then Inl PayloadTooLarge
      else let ps = (if bs = [] then [[]] else chunks 927 bs)
           in Inr (map (nth_fragment mid ps) [0..<length ps]))"
proof (cases "length bs > MAX_MESSAGE_SIZE \<or> bs = []")
  case True
  then show ?thesis by (auto simp: fragment_message_def nth_fragment_def)
next
  case False
  then have "length (chunks 927 bs) \<le> 1024"
    using div_ceil_bound [of "length bs"] by (simp add: length_chunks MAX_MESSAGE_SIZE_def)
  moreover have "map (\<lambda>(index, chunk). F index chunk) (enumerate 0 cs) = map (\<lambda>i. F i (cs ! i)) [0..<length cs]"
    for F :: "nat \<Rightarrow> bytes \<Rightarrow> fragment" and cs
    by (rule nth_equalityI) (simp_all add: nth_enumerate_eq)
  moreover have "FRAGMENT_MAX_BYTES = 927" by (simp add: FRAGMENT_MAX_BYTES_def onion_sizes)
  moreover have "div_ceil (length bs) 927 = length (chunks 927 bs)" by (simp add: length_chunks)
  moreover have "nth_fragment mid (chunks 927 bs) =
      (\<lambda>i. \<lparr>fr_message_id = mid, fr_index = of_nat i, fr_count = of_nat (length (chunks 927 bs)),
            fr_total_len = of_nat (length bs), fr_bytes = chunks 927 bs ! i\<rparr>)"
    by (rule ext) (simp add: nth_fragment_def concat_chunks)
  ultimately show ?thesis using False by (simp add: fragment_message_def MAX_FRAGMENT_COUNT_def Let_def)
qed

lemma pieces_ok_chunks:
  assumes "length bs \<le> MAX_MESSAGE_SIZE"
  shows "pieces_ok (if bs = [] then [[]] else chunks 927 bs)"
proof (cases "bs = []")
  case False
  have "chunks 927 bs \<noteq> []" using False by (metis chunks_step list.distinct(1) zero_less_numeral)
  moreover have "length (chunks 927 bs) \<le> 1024" "length (concat (chunks 927 bs)) \<le> 524288"
    using assms div_ceil_bound [of "length bs"] by (simp_all add: length_chunks concat_chunks MAX_MESSAGE_SIZE_def)
  moreover have "\<forall>p \<in> set (chunks 927 bs). length p \<le> 927" "[] \<notin> set (chunks 927 bs)"
    using chunks_sizes [of 927 _ bs] by auto
  ultimately show ?thesis using False by (simp add: pieces_ok_def)
qed (simp add: pieces_ok_def)

section \<open>Reassembly\<close>

text \<open>The entry of a message after the fragments with indices in \<open>S\<close> have arrived.\<close>

definition entry_of :: "bytes list \<Rightarrow> nat set \<Rightarrow> partial_message" where
  "entry_of ps S =
     \<lparr>pm_count = of_nat (length ps), pm_total_len = of_nat (length (concat ps)),
      pm_received_bytes = (\<Sum>i\<in>S. length (ps ! i)),
      pm_fragments = map (\<lambda>i. if i \<in> S then Some (ps ! i) else None) [0..<length ps]\<rparr>"

definition holds :: "bytes \<Rightarrow> bytes list \<Rightarrow> nat set \<Rightarrow> reassembler \<Rightarrow> bool" where
  "holds mid ps S r \<longleftrightarrow> map_of r mid = (if S = {} then None else Some (entry_of ps S))"

lemma unat_of_nat_u32: "n < 4294967296 \<Longrightarrow> unat (of_nat n :: u32) = n"
  by (simp add: unat_of_nat)

lemma pieces_words:
  assumes "pieces_ok ps"
  shows "unat (of_nat (length ps) :: u32) = length ps"
    "unat (of_nat (length (concat ps)) :: u32) = length (concat ps)"
    "i < length ps \<Longrightarrow> unat (of_nat i :: u32) = i"
  using assms by (simp_all add: pieces_ok_def unat_of_nat_u32)

lemma concat_length_sum: "length (concat ps) = (\<Sum>i<length ps. length (ps ! i))"
  by (simp add: length_concat sum_list_sum_nth atLeast0LessThan)

lemma received_le: "S \<subseteq> {..<length ps} \<Longrightarrow> (\<Sum>i\<in>S. length (ps ! i)) \<le> length (concat ps)"
  unfolding concat_length_sum by (rule sum_mono2) auto

lemma fragment_valid_nth:
  assumes "pieces_ok ps" "i < length ps"
  shows "fragment_validate (nth_fragment mid ps i) = Inr ()"
proof -
  have b: "unat (of_nat (length ps) :: u32) = length ps" "unat (of_nat i :: u32) = i"
    "unat (of_nat (length (concat ps)) :: u32) = length (concat ps)" using pieces_words assms by auto
  have z: "(of_nat (length (concat ps)) :: u32) = 0 \<longleftrightarrow> length (concat ps) = 0" using b(3) by (metis unat_eq_zero)
  have p: "ps ! i \<in> set ps" using assms by simp
  show ?thesis
  proof (cases "ps = [[]]")
    case True
    then show ?thesis using assms by (simp add: fragment_validate_Inr nth_fragment_def)
  next
    case False
    then have "[] \<notin> set ps" using assms by (simp add: pieces_ok_def)
    then have ne: "ps ! i \<noteq> []" using p by metis
    then have "length (concat ps) \<noteq> 0" using p by auto
    moreover have "length (ps ! i) \<le> 927" "length ps \<le> 1024" "length (concat ps) \<le> 524288" "0 < length ps"
      using assms p by (auto simp: pieces_ok_def)
    ultimately show ?thesis using assms(2) b z ne
      by (simp add: fragment_validate_Inr nth_fragment_def word_less_nat_alt del: length_concat)
  qed
qed

lemma entry_of_insert:
  assumes "finite S" "i \<notin> S" "i < length ps"
  shows "entry_of ps (insert i S) =
    (entry_of ps S)\<lparr>pm_received_bytes := (\<Sum>i\<in>S. length (ps ! i)) + length (ps ! i),
      pm_fragments := (pm_fragments (entry_of ps S))[i := Some (ps ! i)]\<rparr>"
  using assms by (auto simp: entry_of_def nth_list_update intro!: nth_equalityI)

lemma entry_of_empty:
  "entry_of ps {} = \<lparr>pm_count = of_nat (length ps), pm_total_len = of_nat (length (concat ps)),
     pm_received_bytes = 0, pm_fragments = replicate (length ps) None\<rparr>"
  by (simp add: entry_of_def map_replicate_const)

lemma entry_complete:
  "list_ex (\<lambda>x. x = None) (pm_fragments (entry_of ps S)) \<longleftrightarrow> \<not> {..<length ps} \<subseteq> S"
  by (auto simp: entry_of_def list_ex_iff)

lemma entry_message: "concat (List.map_filter id (pm_fragments (entry_of ps {..<length ps}))) = concat ps"
proof -
  have "map (\<lambda>i. if i \<in> {..<length ps} then Some (ps ! i) else None) [0..<length ps] = map Some ps"
    by (rule nth_equalityI) simp_all
  then show ?thesis by (simp add: entry_of_def List.map_filter_def comp_def)
qed

lemma push_accepts:
  assumes "fragment_validate f = Inr ()"
    and "\<not> (\<not> hm_contains r (fr_message_id f) \<and> MAX_INFLIGHT_MESSAGES \<le> length r)"
    and "entry_or_insert r f = (r1, e)"
    and "pm_count e = fr_count f" "pm_total_len e = fr_total_len f" "pm_fragments e ! unat (fr_index f) = None"
    and "pm_received_bytes e + length (fr_bytes f) < 2 ^ 64"
    and "pm_received_bytes e + length (fr_bytes f) \<le> unat (pm_total_len e)"
    and e': "e\<lparr>pm_received_bytes := pm_received_bytes e + length (fr_bytes f),
           pm_fragments := (pm_fragments e)[unat (fr_index f) := Some (fr_bytes f)]\<rparr> = e'"
  shows "push r f =
    (let r2 = AList.update (fr_message_id f) e' r1 in
     if list_ex (\<lambda>x. x = None) (pm_fragments e') then (Inr None, r2)
     else if pm_received_bytes e' \<noteq> unat (pm_total_len e') then (Inl InvalidEncoding, r2)
     else (Inr (Some (concat (List.map_filter id (pm_fragments e')))), AList.delete (fr_message_id f) r2))"
  using assms(1-8) unfolding push_def e' [symmetric] Let_def by simp

lemma push_step:
  assumes ps: "pieces_ok ps" and i: "i < length ps" "i \<notin> S" and S: "S \<subseteq> {..<length ps}"
    and r: "holds mid ps S r" and room: "length r < MAX_INFLIGHT_MESSAGES \<or> S \<noteq> {}"
  shows "push r (nth_fragment mid ps i) =
    (let r1 = (if S = {} then AList.update mid (entry_of ps {}) r else r);
         r2 = AList.update mid (entry_of ps (insert i S)) r1
     in if {..<length ps} \<subseteq> insert i S then (Inr (Some (concat ps)), AList.delete mid r2)
        else (Inr None, r2))"
proof -
  let ?f = "nth_fragment mid ps i" and ?e = "entry_of ps S"
  have fin: "finite S" using S by (rule finite_subset) simp
  note w = pieces_words(1,2) [OF ps] pieces_words(3) [OF ps i(1)]
  have cnt: "\<not> (\<not> hm_contains r mid \<and> MAX_INFLIGHT_MESSAGES \<le> length r)"
    using r room by (auto simp: holds_def hm_contains_def)
  have slot: "pm_fragments ?e ! i = None" using i by (simp add: entry_of_def)
  have hdr: "pm_count ?e = of_nat (length ps)" "pm_total_len ?e = of_nat (length (concat ps))"
    "pm_received_bytes ?e = (\<Sum>i\<in>S. length (ps ! i))"
    by (simp_all add: entry_of_def)
  have le: "(\<Sum>i\<in>S. length (ps ! i)) + length (ps ! i) \<le> length (concat ps)"
    using received_le [of "insert i S" ps] S i fin by (simp add: add.commute del: length_concat)
  have le': "(\<Sum>i\<in>S. length (ps ! i)) + length (ps ! i) < 2 ^ 64"
    using le ps by (simp add: pieces_ok_def del: length_concat)
  have full: "(\<Sum>i\<in>S. length (ps ! i)) + length (ps ! i) = length (concat ps)" if "{..<length ps} \<subseteq> insert i S"
  proof -
    have "insert i S = {..<length ps}" using that S i by auto
    then show ?thesis using concat_length_sum [of ps] i(2) fin by (metis add.commute sum.insert)
  qed
  have upd: "?e\<lparr>pm_received_bytes := (\<Sum>i\<in>S. length (ps ! i)) + length (ps ! i),
      pm_fragments := (pm_fragments ?e)[i := Some (ps ! i)]\<rparr> = entry_of ps (insert i S)"
    using entry_of_insert [OF fin i(2,1)] by simp
  have msg: "concat (List.map_filter id (pm_fragments (entry_of ps (insert i S)))) = concat ps"
    if "{..<length ps} \<subseteq> insert i S"
  proof -
    have "insert i S = {..<length ps}" using that S i by auto
    then show ?thesis using entry_message [of ps] by simp
  qed
  have tot: "pm_received_bytes (entry_of ps (insert i S)) = (\<Sum>i\<in>S. length (ps ! i)) + length (ps ! i)"
    "pm_total_len (entry_of ps (insert i S)) = of_nat (length (concat ps))"
    using fin i by (simp_all add: entry_of_def add.commute)
  have f: "fr_message_id ?f = mid" "fr_count ?f = of_nat (length ps)" "fr_index ?f = of_nat i"
    "fr_total_len ?f = of_nat (length (concat ps))" "fr_bytes ?f = ps ! i" "fresh_entry ?f = entry_of ps {}"
    using w(1) by (simp_all add: nth_fragment_def fresh_entry_def entry_of_empty)
  have get: "entry_or_insert r ?f = ((if S = {} then AList.update mid (entry_of ps {}) r else r), ?e)"
    using r by (simp add: holds_def entry_or_insert_def f)
  have "push r ?f =
    (let r2 = AList.update mid (entry_of ps (insert i S)) (if S = {} then AList.update mid (entry_of ps {}) r else r) in
     if list_ex (\<lambda>x. x = None) (pm_fragments (entry_of ps (insert i S))) then (Inr None, r2)
     else if pm_received_bytes (entry_of ps (insert i S)) \<noteq> unat (pm_total_len (entry_of ps (insert i S)))
     then (Inl InvalidEncoding, r2)
     else (Inr (Some (concat (List.map_filter id (pm_fragments (entry_of ps (insert i S)))))), AList.delete mid r2))"
    using push_accepts [of ?f r "if S = {} then AList.update mid (entry_of ps {}) r else r" ?e
        "entry_of ps (insert i S)", unfolded f w, OF fragment_valid_nth [OF ps i(1)] cnt get]
      slot le le' upd by (simp only: hdr w)
  then show ?thesis unfolding tot w entry_complete Let_def using full msg by simp
qed

lemma push_all_pieces:
  assumes ps: "pieces_ok ps"
  shows "distinct is \<Longrightarrow> is \<noteq> [] \<Longrightarrow> S \<union> set is = {..<length ps} \<Longrightarrow> S \<inter> set is = {} \<Longrightarrow>
    holds mid ps S r \<Longrightarrow> length r < MAX_INFLIGHT_MESSAGES \<or> S \<noteq> {} \<Longrightarrow>
    \<exists>r'. push_all r (map (nth_fragment mid ps) is) =
      (replicate (length is - 1) (Inr None) @ [Inr (Some (concat ps))], r')
      \<and> map_of r' = (map_of r)(mid := None)"
proof (induction "is" arbitrary: S r)
  case (Cons i "is")
  let ?r1 = "if S = {} then AList.update mid (entry_of ps {}) r else r"
  let ?r2 = "AList.update mid (entry_of ps (insert i S)) ?r1"
  have i: "i < length ps" "i \<notin> S" "S \<subseteq> {..<length ps}" using Cons.prems by auto
  have st: "push r (nth_fragment mid ps i) =
     (if {..<length ps} \<subseteq> insert i S then (Inr (Some (concat ps)), AList.delete mid ?r2) else (Inr None, ?r2))"
    using push_step [OF ps i Cons.prems(5,6)] by (simp add: Let_def)
  show ?case
  proof (cases "is = []")
    case True
    then have "{..<length ps} \<subseteq> insert i S" using Cons.prems(3) by auto
    then show ?thesis using st True by (auto simp: fun_eq_iff)
  next
    case False
    then obtain j where j: "j \<in> set is" by (meson list.set_sel(1))
    then have nf: "\<not> {..<length ps} \<subseteq> insert i S" using Cons.prems by auto
    have "insert i S \<union> set is = {..<length ps}" "insert i S \<inter> set is = {}"
      using Cons.prems by auto
    moreover have "holds mid ps (insert i S) ?r2" by (simp add: holds_def)
    ultimately have "\<exists>r'. push_all ?r2 (map (nth_fragment mid ps) is) =
        (replicate (length is - 1) (Inr None) @ [Inr (Some (concat ps))], r')
        \<and> map_of r' = (map_of ?r2)(mid := None)"
      using Cons.prems(1) False by (intro Cons.IH) auto
    then obtain r' where "push_all ?r2 (map (nth_fragment mid ps) is) =
        (replicate (length is - 1) (Inr None) @ [Inr (Some (concat ps))], r')"
      "map_of r' = (map_of ?r2)(mid := None)"
      by blast
    moreover have "Suc (length is - 1) = length is" using False by (cases "is") simp_all
    then have "Inr None # replicate (length is - 1) (Inr None) = replicate (length is) (Inr None)"
      by (metis replicate_Suc)
    ultimately show ?thesis using st nf by (auto simp: fun_eq_iff)
  qed
qed simp

section \<open>Memory bounds\<close>

definition stored :: "bytes option list \<Rightarrow> nat" where
  "stored fs = sum_list (map (\<lambda>x. case x of None \<Rightarrow> 0 | Some b \<Rightarrow> length b) fs)"

definition partial_wf :: "partial_message \<Rightarrow> bool" where
  "partial_wf e \<longleftrightarrow> length (pm_fragments e) = unat (pm_count e) \<and> unat (pm_count e) \<le> MAX_FRAGMENT_COUNT
     \<and> pm_received_bytes e = stored (pm_fragments e) \<and> pm_received_bytes e \<le> unat (pm_total_len e)
     \<and> unat (pm_total_len e) \<le> MAX_MESSAGE_SIZE"

definition reassembler_inv :: "reassembler \<Rightarrow> bool" where
  "reassembler_inv r \<longleftrightarrow> hm_wf r \<and> length r \<le> MAX_INFLIGHT_MESSAGES
     \<and> (\<forall>k e. map_of r k = Some e \<longrightarrow> partial_wf e)"

lemma stored_update:
  "i < length fs \<Longrightarrow> fs ! i = None \<Longrightarrow> stored (fs[i := Some b]) = stored fs + length b"
proof (induction fs arbitrary: i)
  case (Cons x fs)
  then show ?case by (cases i) (simp_all add: stored_def)
qed simp

lemma fresh_entry_wf: "fragment_validate f = Inr () \<Longrightarrow> partial_wf (fresh_entry f)"
  by (simp add: partial_wf_def fresh_entry_def stored_def fragment_validate_Inr onion_sizes)

lemma stored_message: "None \<notin> set fs \<Longrightarrow> length (concat (List.map_filter id fs)) = stored fs"
  by (induction fs) (auto simp: stored_def List.map_filter_def)

lemma entry_or_insert_inv:
  assumes "reassembler_inv r" "fragment_validate f = Inr ()" "entry_or_insert r f = (r1, e)"
    and "\<not> (\<not> hm_contains r (fr_message_id f) \<and> MAX_INFLIGHT_MESSAGES \<le> length r)"
  shows "reassembler_inv r1 \<and> map_of r1 (fr_message_id f) = Some e \<and> partial_wf e"
  using assms fresh_entry_wf [OF assms(2)]
  by (auto simp: entry_or_insert_def reassembler_inv_def hm_contains_def length_update
      split: option.splits if_splits)

lemma reassembler_inv_update:
  assumes "reassembler_inv r" "map_of r k = Some e" "partial_wf e'"
  shows "reassembler_inv (AList.update k e' r)"
  using assms by (auto simp: reassembler_inv_def length_update hm_contains_def split: if_splits)

lemma reassembler_inv_delete: "reassembler_inv r \<Longrightarrow> reassembler_inv (AList.delete k r)"
  by (auto simp: reassembler_inv_def intro: order_trans [OF length_delete_le] split: if_splits)

lemma partial_wf_store:
  assumes "partial_wf e" "i < unat (pm_count e)" "pm_fragments e ! i = None"
    and "pm_received_bytes e + length b \<le> unat (pm_total_len e)"
  shows "partial_wf (e\<lparr>pm_received_bytes := pm_received_bytes e + length b,
    pm_fragments := (pm_fragments e)[i := Some b]\<rparr>)"
  using assms by (simp add: partial_wf_def stored_update)

lemma push_inv:
  assumes "reassembler_inv r"
  shows "reassembler_inv (snd (push r f))
    \<and> (\<forall>m. fst (push r f) = Inr (Some m) \<longrightarrow> length m = unat (fr_total_len f) \<and> length m \<le> MAX_MESSAGE_SIZE)"
proof (cases "fragment_validate f")
  case (Inl e)
  then show ?thesis using assms by (simp add: push_def)
next
  case (Inr u)
  show ?thesis
  proof (cases "\<not> hm_contains r (fr_message_id f) \<and> MAX_INFLIGHT_MESSAGES \<le> length r")
    case True
    then show ?thesis using assms Inr by (simp add: push_def)
  next
    case cap: False
    obtain r1 e where e: "entry_or_insert r f = (r1, e)" by (cases "entry_or_insert r f")
    note inv = entry_or_insert_inv [OF assms _ e cap]
    let ?e = "e\<lparr>pm_received_bytes := pm_received_bytes e + length (fr_bytes f),
      pm_fragments := (pm_fragments e)[unat (fr_index f) := Some (fr_bytes f)]\<rparr>"
    have wf: "partial_wf ?e" if "pm_count e = fr_count f" "pm_fragments e ! unat (fr_index f) = None"
      "pm_received_bytes e + length (fr_bytes f) \<le> unat (pm_total_len e)"
      using that inv Inr by (intro partial_wf_store) (auto simp: fragment_validate_Inr word_less_nat_alt)
    have msg: "length (concat (List.map_filter id (pm_fragments ?e))) = pm_received_bytes ?e"
      if "partial_wf ?e" "\<not> list_ex (\<lambda>x. x = None) (pm_fragments ?e)"
      using that by (subst stored_message) (auto simp: partial_wf_def list_ex_iff)
    show ?thesis
      using Inr cap e inv wf msg
      by (auto simp: push_def Let_def split: if_splits
          intro!: reassembler_inv_update reassembler_inv_delete simp: partial_wf_def)
  qed
qed

interpretation reassembly: state_machine "\<lambda>r f. snd (push r f)" "\<lambda>r. r = []" reassembler_inv
  by unfold_locales (simp add: reassembler_inv_def, simp add: push_inv)

lemma push_all_foldl: "snd (push_all r fs) = foldl (\<lambda>r f. snd (push r f)) r fs"
  by (induction fs arbitrary: r) (simp_all add: case_prod_unfold Let_def)

lemma push_all_messages:
  "reassembler_inv r \<Longrightarrow> Inr (Some m) \<in> set (fst (push_all r fs)) \<Longrightarrow> length m \<le> MAX_MESSAGE_SIZE"
proof (induction fs arbitrary: r)
  case (Cons f fs)
  consider "fst (push r f) = Inr (Some m)" | "Inr (Some m) \<in> set (fst (push_all (snd (push r f)) fs))"
    using Cons.prems(2) by (auto simp: case_prod_unfold Let_def)
  then show ?case using push_inv [OF Cons.prems(1), of f] Cons.IH by cases auto
qed simp

definition held :: "reassembler \<Rightarrow> nat" where
  "held r = sum_list (map (\<lambda>(k, e). stored (pm_fragments e)) r)"

lemma sum_list_bound: "(\<And>x. x \<in> set xs \<Longrightarrow> f x \<le> (b :: nat)) \<Longrightarrow> sum_list (map f xs) \<le> length xs * b"
  by (induction xs) (auto intro: add_mono)

lemma held_bound:
  assumes "reassembler_inv r"
  shows "held r \<le> MAX_INFLIGHT_MESSAGES * MAX_MESSAGE_SIZE"
proof -
  have "held r \<le> length r * MAX_MESSAGE_SIZE"
    unfolding held_def using assms hm_wf_map_of_iff [of r]
    by (intro sum_list_bound) (fastforce simp: reassembler_inv_def partial_wf_def)
  also have "\<dots> \<le> MAX_INFLIGHT_MESSAGES * MAX_MESSAGE_SIZE"
    using assms by (simp add: reassembler_inv_def)
  finally show ?thesis .
qed

section \<open>An entry that is never released\<close>

text \<open>A fragment that is valid by itself but longer than the message it announces.\<close>

definition overlong :: "bytes \<Rightarrow> fragment" where
  "overlong mid = \<lparr>fr_message_id = mid, fr_index = 0, fr_count = 1, fr_total_len = 1, fr_bytes = [0, 0]\<rparr>"

lemma push_overlong:
  assumes "map_of r mid = None" "length r < MAX_INFLIGHT_MESSAGES"
  shows "push r (overlong mid) = (Inl InvalidEncoding, AList.update mid (fresh_entry (overlong mid)) r)"
proof -
  have "fragment_validate (overlong mid) = Inr ()" by (simp add: fragment_validate_Inr overlong_def)
  then show ?thesis using assms
    by (simp add: push_def hm_contains_def entry_or_insert_def)
       (simp add: overlong_def fresh_entry_def Let_def)
qed

lemma push_all_overlong:
  "distinct ids \<Longrightarrow> set ids \<inter> dom (map_of r) = {} \<Longrightarrow> length r + length ids \<le> MAX_INFLIGHT_MESSAGES \<Longrightarrow>
     \<exists>r'. push_all r (map overlong ids) = (replicate (length ids) (Inl InvalidEncoding), r')
       \<and> length r' = length r + length ids \<and> dom (map_of r') = dom (map_of r) \<union> set ids"
proof (induction ids arbitrary: r)
  case (Cons mid ids)
  let ?r = "AList.update mid (fresh_entry (overlong mid)) r"
  have "map_of r mid = None" using Cons.prems by auto
  then have p: "push r (overlong mid) = (Inl InvalidEncoding, ?r)" "length ?r = length r + 1"
    "dom (map_of ?r) = insert mid (dom (map_of r))"
    using Cons.prems push_overlong by (auto simp: length_update hm_contains_def split: if_splits)
  have "set ids \<inter> dom (map_of ?r) = {}" "length ?r + length ids \<le> MAX_INFLIGHT_MESSAGES" "distinct ids"
    unfolding p using Cons.prems by auto
  from Cons.IH [OF this(3,1,2)] obtain r' where "push_all ?r (map overlong ids) =
      (replicate (length ids) (Inl InvalidEncoding), r')" "length r' = length ?r + length ids"
    "dom (map_of r') = dom (map_of ?r) \<union> set ids" by blast
  then show ?case using p by (intro exI [of _ r']) simp
qed simp

section \<open>Properties\<close>

text \<open>
  C4: Fragmentation round trip. Every message of at most 512 KiB is split into fragments;
  delivered to a reassembler with room, in any order, they give no result until the last
  one arrives and then exactly the original bytes, and the reassembler is left with the
  other messages it had.
\<close>

theorem fragments_reassemble_in_any_order:
  assumes "fragment_message mid bs = Inr fs" "distinct is" "set is = {..<length fs}"
    and "map_of r mid = None" "length r < MAX_INFLIGHT_MESSAGES"
  shows "\<exists>r'. push_all r (map ((!) fs) is) = (replicate (length fs - 1) (Inr None) @ [Inr (Some bs)], r')
    \<and> map_of r' = map_of r"
proof -
  define ps where "ps = (if bs = [] then [[]] else chunks 927 bs)"
  have len: "length bs \<le> MAX_MESSAGE_SIZE" and fs: "fs = map (nth_fragment mid ps) [0..<length ps]"
    using assms(1) by (auto simp: fragment_message_pieces ps_def Let_def split: if_splits)
  have ok: "pieces_ok ps" and cat: "concat ps = bs"
    using pieces_ok_chunks [OF len] by (simp_all add: ps_def concat_chunks)
  have "is \<noteq> []" using assms(3) fs ok by (auto simp: pieces_ok_def)
  moreover have m: "map ((!) fs) is = map (nth_fragment mid ps) is"
    using assms(3) fs by (auto intro!: map_cong)
  moreover have "length is = length fs" "length fs = length ps"
    using assms(2,3) fs by (metis card_lessThan distinct_card, simp)
  ultimately show ?thesis
    using push_all_pieces [OF ok assms(2), of "{}" mid r] assms(3-5) cat unfolding m
    by (simp add: holds_def fun_upd_idem)
qed

theorem fragments_reassemble_in_any_order_witness:
  "\<exists>fs r'. fragment_message (replicate 16 5) (replicate 1000 7) = Inr fs
     \<and> push_all [] (map ((!) fs) [1, 0]) = ([Inr None, Inr (Some (replicate 1000 7))], r') \<and> map_of r' = Map.empty"
proof -
  let ?b = "replicate 1000 7 :: bytes"
  obtain fs where fs: "fragment_message (replicate 16 5) ?b = Inr fs" "length fs = 2"
    by (simp add: fragment_message_pieces MAX_MESSAGE_SIZE_def length_chunks div_ceil_def Let_def)
  have "set [1, 0] = {..<length fs}" using fs by auto
  from fragments_reassemble_in_any_order [OF fs(1) _ this, of "[]"] fs show ?thesis
    by (auto simp: MAX_INFLIGHT_MESSAGES_def)
qed

text \<open>
  C7: Whatever fragments arrive, the reassembler holds at most 16 messages and at most
  16 times 512 KiB of payload, and every message it completes has at most 512 KiB.
\<close>

theorem reassembler_bounded:
  "let (results, r) = push_all [] fs in
     length r \<le> 16 \<and> held r \<le> 16 * 512 * 1024
     \<and> list_all (\<lambda>res. case res of Inr (Some m) \<Rightarrow> length m \<le> MAX_MESSAGE_SIZE | _ \<Rightarrow> True) results"
proof -
  have init: "reassembler_inv []" by (simp add: reassembler_inv_def)
  have inv: "reassembler_inv (snd (push_all [] fs))"
    unfolding push_all_foldl by (rule reassembly.reachable_inv) simp
  have "held (snd (push_all [] fs)) \<le> 16 * 512 * 1024"
    using held_bound [OF inv] by (simp add: onion_sizes)
  then show ?thesis using inv push_all_messages [OF init]
    by (auto simp: case_prod_unfold Let_def list_all_iff reassembler_inv_def MAX_INFLIGHT_MESSAGES_def
        split: sum.splits option.splits)
qed

text \<open>
  The fragment format has one spelling per fragment: decoding accepts exactly the bytes
  that encoding a valid fragment gives.
\<close>

theorem fragment_format_canonical:
  "fragment_decode bs = Inr f \<longleftrightarrow> length (fr_message_id f) = 16 \<and> fragment_encode f = Inr bs"
proof -
  have "fragment_wf f \<and> fragment_wire f = bs \<longleftrightarrow> length (fr_message_id f) = 16 \<and> fragment_encode f = Inr bs"
    by (auto simp: fragment_wf_def fragment_wire_def fragment_encode_def result_simps)
  then show ?thesis by (simp add: fragment_codec.decode_iff)
qed

text \<open>
  C8: Sixteen rejected fragments block the reassembler for good. A fragment longer than the
  message it announces is refused with \<open>InvalidEncoding\<close>, but the entry created for it stays:
  after sixteen of them with different message ids, every fragment of any other message is
  refused with \<open>FragmentCapacity\<close> and the state no longer changes.
\<close>

theorem overlong_fragments_exhaust_reassembler:
  assumes "distinct ids" "length ids = 16" "fragment_validate f = Inr ()" "fr_message_id f \<notin> set ids"
  shows "\<exists>r. push_all [] (map overlong ids) = (replicate 16 (Inl InvalidEncoding), r)
    \<and> push r f = (Inl FragmentCapacity, r)"
proof -
  obtain r where r: "push_all [] (map overlong ids) = (replicate 16 (Inl InvalidEncoding), r)"
    "length r = 16" "dom (map_of r) = set ids"
    using push_all_overlong [of ids "[]"] assms by (auto simp: MAX_INFLIGHT_MESSAGES_def)
  then have "map_of r (fr_message_id f) = None" using assms(4) by blast
  then show ?thesis using r assms(3)
    by (auto simp: push_def hm_contains_def MAX_INFLIGHT_MESSAGES_def)
qed

theorem overlong_fragments_exhaust_reassembler_witness:
  "\<exists>r. push_all [] (map overlong (map (\<lambda>b. b # replicate 15 0) [0, 1, 2, 3, 4, 5, 6, 7, 8, 9, 10, 11, 12, 13, 14, 15])) = (replicate 16 (Inl InvalidEncoding), r)
    \<and> push r \<lparr>fr_message_id = 99 # replicate 15 0, fr_index = 0, fr_count = 1, fr_total_len = 1, fr_bytes = [1]\<rparr>
        = (Inl FragmentCapacity, r)"
  by (rule overlong_fragments_exhaust_reassembler) (simp_all add: fragment_validate_Inr)

end
