(* ===== verification/Filesystem.thy ===== *)
theory Filesystem
  imports Formatting
begin

text \<open>
  The part of \<open>std::fs\<close> and \<open>std::io\<close> the crates use. A path is its list of components, a
  file system a finite map from paths to directories and regular files. Every system call
  first takes the next entry of a list of faults, which is part of the state: an entry
  \<open>Some (e, n)\<close> makes the call fail with error \<open>e\<close> (a write having got \<open>n\<close> bytes out), so every
  I/O error path of the code is a behaviour of the model. A hard link copies the file, which
  is the same thing here because no file is written after it is linked.
\<close>

type_synonym path = "string list"

datatype io_error =
    NotFound | AlreadyExists | PermissionDenied | InvalidInput | InvalidData | UnexpectedEof
  | IsADirectory | NotADirectory | NamesExhausted | OtherIo string

datatype node =
    File bytes "u32 option"
  | Dir

record fs =
  fs_nodes :: "(path, node) hmap"
  fs_faults :: "(io_error \<times> nat) option list"
  fs_temp_sequence :: u64
  fs_pid :: nat

type_synonym 'a io = "fs \<Rightarrow> (io_error + 'a) \<times> fs"

section \<open>Sequencing\<close>

definition ret_io :: "'a \<Rightarrow> 'a io" where
  "ret_io x s = (Inr x, s)"

definition err_io :: "io_error \<Rightarrow> 'a io" where
  "err_io e s = (Inl e, s)"

definition bind_io :: "'a io \<Rightarrow> ('a \<Rightarrow> 'b io) \<Rightarrow> 'b io" where
  "bind_io m f s = (case m s of (Inl e, s) \<Rightarrow> (Inl e, s) | (Inr x, s) \<Rightarrow> f x s)"

text \<open>\<open>match\<close> on the result of an operation, and \<open>let _ =\<close> that drops it.\<close>

definition match_io :: "'a io \<Rightarrow> ('a \<Rightarrow> 'b io) \<Rightarrow> (io_error \<Rightarrow> 'b io) \<Rightarrow> 'b io" where
  "match_io m f h s = (case m s of (Inl e, s) \<Rightarrow> h e s | (Inr x, s) \<Rightarrow> f x s)"

definition ignore_io :: "'a io \<Rightarrow> 'b io \<Rightarrow> 'b io" where
  "ignore_io m k s = k (snd (m s))"

section \<open>System calls\<close>

definition path_parent :: "path \<Rightarrow> path option" where
  "path_parent p = (if p = [] then None else Some (butlast p))"

definition file_name :: "path \<Rightarrow> string option" where
  "file_name p = (if p = [] then None else Some (last p))"

definition node_at :: "fs \<Rightarrow> path \<Rightarrow> node option" where
  "node_at s p = (if p = [] then Some Dir else map_of (fs_nodes s) p)"

definition syscall :: "(nat \<Rightarrow> fs \<Rightarrow> fs) \<Rightarrow> 'a io \<Rightarrow> 'a io" where
  "syscall partial k s =
     (case fs_faults s of
        [] \<Rightarrow> k s
      | None # r \<Rightarrow> k (s\<lparr>fs_faults := r\<rparr>)
      | Some (e, n) # r \<Rightarrow> (Inl e, partial n (s\<lparr>fs_faults := r\<rparr>)))"

definition set_node :: "path \<Rightarrow> node \<Rightarrow> fs \<Rightarrow> fs" where
  "set_node p n s = s\<lparr>fs_nodes := AList.update p n (fs_nodes s)\<rparr>"

definition del_node :: "path \<Rightarrow> fs \<Rightarrow> fs" where
  "del_node p s = s\<lparr>fs_nodes := AList.delete p (fs_nodes s)\<rparr>"

fun make_dirs :: "path \<Rightarrow> path \<Rightarrow> unit io" where
  "make_dirs base [] = ret_io ()"
| "make_dirs base (c # cs) =
     (\<lambda>s. case node_at s (base @ [c]) of
        Some Dir \<Rightarrow> make_dirs (base @ [c]) cs s
      | Some (File _ _) \<Rightarrow> (Inl NotADirectory, s)
      | None \<Rightarrow> make_dirs (base @ [c]) cs (set_node (base @ [c]) Dir s))"

text \<open>\<open>create_dir_all\<close> may stop after the first \<open>n\<close> levels.\<close>

definition create_dir_all :: "path \<Rightarrow> unit io" where
  "create_dir_all p = syscall (\<lambda>n s. snd (make_dirs [] (take n p) s)) (make_dirs [] p)"

definition open_new :: "path \<Rightarrow> u32 option \<Rightarrow> unit io" where
  "open_new p mode = syscall (\<lambda>_ s. s) (\<lambda>s.
     if node_at s p \<noteq> None then (Inl AlreadyExists, s)
     else if node_at s (butlast p) \<noteq> Some Dir then (Inl NotFound, s)
     else (Inr (), set_node p (File [] mode) s))"

definition write_all :: "path \<Rightarrow> u32 option \<Rightarrow> bytes \<Rightarrow> unit io" where
  "write_all p mode bytes = syscall (\<lambda>n. set_node p (File (take n bytes) mode))
     (\<lambda>s. (Inr (), set_node p (File bytes mode) s))"

definition sync_all :: "unit io" where
  "sync_all = syscall (\<lambda>_ s. s) (ret_io ())"

definition remove_file :: "path \<Rightarrow> unit io" where
  "remove_file p = syscall (\<lambda>_ s. s) (\<lambda>s.
     case node_at s p of
       None \<Rightarrow> (Inl NotFound, s)
     | Some Dir \<Rightarrow> (Inl IsADirectory, s)
     | Some (File _ _) \<Rightarrow> (Inr (), del_node p s))"

definition rename :: "path \<Rightarrow> path \<Rightarrow> unit io" where
  "rename a b = syscall (\<lambda>_ s. s) (\<lambda>s.
     case (node_at s a, node_at s b) of
       (Some (File bytes mode), Some Dir) \<Rightarrow> (Inl IsADirectory, s)
     | (Some (File bytes mode), _) \<Rightarrow> (Inr (), set_node b (File bytes mode) (del_node a s))
     | _ \<Rightarrow> (Inl NotFound, s))"

definition hard_link :: "path \<Rightarrow> path \<Rightarrow> unit io" where
  "hard_link a b = syscall (\<lambda>_ s. s) (\<lambda>s.
     case node_at s a of
       Some (File bytes mode) \<Rightarrow>
         if node_at s b \<noteq> None then (Inl AlreadyExists, s)
         else if node_at s (butlast b) \<noteq> Some Dir then (Inl NotFound, s)
         else (Inr (), set_node b (File bytes mode) s)
     | _ \<Rightarrow> (Inl NotFound, s))"

definition open_dir :: "path \<Rightarrow> unit io" where
  "open_dir p = syscall (\<lambda>_ s. s) (\<lambda>s. if node_at s p = None then (Inl NotFound, s) else (Inr (), s))"

definition read_file :: "path \<Rightarrow> bytes io" where
  "read_file p = syscall (\<lambda>_ s. s) (\<lambda>s.
     case node_at s p of
       None \<Rightarrow> (Inl NotFound, s)
     | Some Dir \<Rightarrow> (Inl IsADirectory, s)
     | Some (File bytes _) \<Rightarrow> (Inr bytes, s))"

text \<open>\<open>Path::exists\<close> and \<open>Path::is_file\<close> answer false on an I/O error.\<close>

definition path_exists :: "path \<Rightarrow> fs \<Rightarrow> bool \<times> fs" where
  "path_exists p s =
     (case syscall (\<lambda>_ s. s) (ret_io ()) s of
        (Inl _, s) \<Rightarrow> (False, s)
      | (Inr _, s) \<Rightarrow> (node_at s p \<noteq> None, s))"

definition is_file :: "path \<Rightarrow> fs \<Rightarrow> bool \<times> fs" where
  "is_file p s =
     (case syscall (\<lambda>_ s. s) (ret_io ()) s of
        (Inl _, s) \<Rightarrow> (False, s)
      | (Inr _, s) \<Rightarrow> ((case node_at s p of Some (File _ _) \<Rightarrow> True | _ \<Rightarrow> False), s))"

text \<open>\<open>fs::read_dir\<close>: the names directly below a directory, each once, in no useful order.\<close>

definition read_dir :: "path \<Rightarrow> string list io" where
  "read_dir p = syscall (\<lambda>_ s. s) (\<lambda>s.
     if node_at s p \<noteq> Some Dir then (Inl NotFound, s)
     else (Inr (remdups (map last (filter (\<lambda>q. q \<noteq> [] \<and> butlast q = p) (map fst (fs_nodes s))))), s))"

section \<open>Effects of the calls on the tree\<close>

text \<open>Each call described by what it does to the function \<open>node_at\<close>.\<close>

named_theorems fs_effects

lemma node_at_updates [simp]:
  "node_at (s\<lparr>fs_faults := f\<rparr>) = node_at s" "node_at (s\<lparr>fs_temp_sequence := n\<rparr>) = node_at s"
  by (simp_all add: node_at_def fun_eq_iff)

lemma node_at_set_node: "q \<noteq> [] \<Longrightarrow> node_at (set_node q n s) = (node_at s)(q \<mapsto> n)"
  by (auto simp: node_at_def set_node_def fun_eq_iff)

lemma node_at_del_node: "q \<noteq> [] \<Longrightarrow> node_at (del_node q s) = (node_at s)(q := None)"
  by (auto simp: node_at_def del_node_def fun_eq_iff)

lemma node_at_root [simp]: "node_at s [] = Some Dir"
  by (simp add: node_at_def)

lemma syscall_cases:
  assumes "syscall f k s = (r, s')"
  obtains (run) t where "node_at t = node_at s" "k t = (r, s')"
  | (fault) e n t where "r = Inl e" "s' = f n t" "node_at t = node_at s"
proof (cases "fs_faults s")
  case Nil
  then show ?thesis using assms run [of s] by (simp add: syscall_def)
next
  case (Cons f fs)
  then show ?thesis using assms run [of "s\<lparr>fs_faults := fs\<rparr>"] fault [of _ _ "s\<lparr>fs_faults := fs\<rparr>"]
    by (auto simp: syscall_def split: option.splits)
qed

lemma open_new_effect [fs_effects]:
  assumes "open_new q m s = (r, s')"
  shows "(\<exists>e. r = Inl e) \<and> node_at s' = node_at s
    \<or> r = Inr () \<and> node_at s q = None \<and> q \<noteq> [] \<and> node_at s (butlast q) = Some Dir
      \<and> node_at s' = (node_at s)(q \<mapsto> File [] m)"
  using assms unfolding open_new_def
  by (elim syscall_cases; cases "q = []") (auto simp: node_at_set_node split: if_splits)

lemma write_all_effect [fs_effects]:
  assumes "write_all q m bs s = (r, s')" "q \<noteq> []"
  shows "(\<exists>e n. r = Inl e \<and> node_at s' = (node_at s)(q \<mapsto> File (take n bs) m))
    \<or> r = Inr () \<and> node_at s' = (node_at s)(q \<mapsto> File bs m)"
  using assms unfolding write_all_def by (elim syscall_cases) (auto simp: node_at_set_node)

lemma sync_all_effect [fs_effects]: "sync_all s = (r, s') \<Longrightarrow> node_at s' = node_at s"
  unfolding sync_all_def by (elim syscall_cases) (auto simp: ret_io_def)

lemma open_dir_effect [fs_effects]: "open_dir q s = (r, s') \<Longrightarrow> node_at s' = node_at s"
  unfolding open_dir_def by (elim syscall_cases) (auto split: if_splits)

lemma read_file_effect [fs_effects]:
  assumes "read_file q s = (r, s')"
  shows "node_at s' = node_at s \<and> (\<forall>bs. r = Inr bs \<longrightarrow> (\<exists>m. node_at s q = Some (File bs m)))"
  using assms unfolding read_file_def
  by (elim syscall_cases) (auto split: option.splits node.splits)

lemma remove_file_effect [fs_effects]:
  assumes "remove_file q s = (r, s')"
  shows "(\<exists>e. r = Inl e) \<and> node_at s' = node_at s
    \<or> r = Inr () \<and> (\<exists>bs m. node_at s q = Some (File bs m)) \<and> node_at s' = (node_at s)(q := None)"
  using assms unfolding remove_file_def
  by (elim syscall_cases; cases "q = []") (auto simp: node_at_del_node split: option.splits node.splits)

lemma rename_effect [fs_effects]:
  assumes "rename a b s = (r, s')"
  shows "(\<exists>e. r = Inl e) \<and> node_at s' = node_at s
    \<or> r = Inr () \<and> node_at s b \<noteq> Some Dir
      \<and> (\<exists>bs m. node_at s a = Some (File bs m) \<and> node_at s' = (node_at s)(a := None, b \<mapsto> File bs m))"
  using assms unfolding rename_def
  by (elim syscall_cases; cases "a = []"; cases "b = []")
     (auto simp: node_at_set_node node_at_del_node split: option.splits node.splits)

lemma hard_link_effect [fs_effects]:
  assumes "hard_link a b s = (r, s')"
  shows "(\<exists>e. r = Inl e) \<and> node_at s' = node_at s
    \<or> r = Inr () \<and> node_at s b = None
      \<and> (\<exists>bs m. node_at s a = Some (File bs m) \<and> node_at s' = (node_at s)(b \<mapsto> File bs m))"
  using assms unfolding hard_link_def
  by (elim syscall_cases; cases "b = []")
     (auto simp: node_at_set_node split: option.splits node.splits if_splits)

text \<open>Creating directories only turns missing prefixes of the path into directories.\<close>

definition dirs_added :: "path \<Rightarrow> fs \<Rightarrow> fs \<Rightarrow> bool" where
  "dirs_added q s s' \<longleftrightarrow> (\<forall>p. node_at s' p = node_at s p
     \<or> node_at s p = None \<and> node_at s' p = Some Dir \<and> (\<exists>r. q = p @ r))"

lemma make_dirs_effect:
  "make_dirs b cs s = (r, s') \<Longrightarrow> node_at s b = Some Dir \<Longrightarrow>
     dirs_added (b @ cs) s s' \<and> (r = Inr () \<longrightarrow> node_at s' (b @ cs) = Some Dir)"
proof (induction b cs arbitrary: s rule: make_dirs.induct)
  case (1 b)
  then show ?case by (simp add: ret_io_def dirs_added_def)
next
  case (2 b c cs)
  show ?case
  proof (cases "node_at s (b @ [c])")
    case None
    have "make_dirs (b @ [c]) cs (set_node (b @ [c]) Dir s) = (r, s')" using 2(3) None by simp
    from 2(1) [OF None this] have ih: "dirs_added (b @ c # cs) (set_node (b @ [c]) Dir s) s'"
      "r = Inr () \<longrightarrow> node_at s' (b @ c # cs) = Some Dir" by (simp_all add: node_at_set_node)
    have "dirs_added (b @ c # cs) s s'"
      unfolding dirs_added_def
    proof
      fix p
      show "node_at s' p = node_at s p \<or> node_at s p = None \<and> node_at s' p = Some Dir \<and> (\<exists>r. b @ c # cs = p @ r)"
        using spec [OF ih(1) [unfolded dirs_added_def], of p] None
        by (cases "p = b @ [c]") (simp_all add: node_at_set_node)
    qed
    then show ?thesis using ih(2) by blast
  next
    case (Some n)
    then show ?thesis using 2 by (cases n) (auto simp: dirs_added_def)
  qed
qed

lemma create_dir_all_effect:
  assumes "create_dir_all q s = (r, s')"
  shows "dirs_added q s s' \<and> (r = Inr () \<longrightarrow> node_at s' q = Some Dir)"
  using assms unfolding create_dir_all_def
proof (cases rule: syscall_cases)
  case (run t)
  then show ?thesis using make_dirs_effect [of "[]" q t r s'] by (simp add: dirs_added_def)
next
  case (fault e n t)
  have "dirs_added (take n q) t s'"
    using make_dirs_effect [of "[]" "take n q" t "fst (make_dirs [] (take n q) t)" s'] fault by simp
  then have "dirs_added q t s'" using append_take_drop_id [of n q] unfolding dirs_added_def by (metis append.assoc)
  then show ?thesis using fault by (simp add: dirs_added_def)
qed

lemma dirs_added_kept: "dirs_added q s s' \<Longrightarrow> node_at s p \<noteq> None \<Longrightarrow> node_at s' p = node_at s p"
  by (auto simp: dirs_added_def)

lemma make_dirs_prefixes:
  "make_dirs b cs s = (Inr (), s') \<Longrightarrow> node_at s b = Some Dir \<Longrightarrow> cs = p @ r \<Longrightarrow> node_at s' (b @ p) = Some Dir"
proof (induction b cs arbitrary: s p rule: make_dirs.induct)
  case (1 b)
  then show ?case by (simp add: ret_io_def)
next
  case (2 b c cs)
  have kept: "node_at t b = Some Dir \<Longrightarrow> make_dirs (b @ [c]) cs t = (Inr (), s') \<Longrightarrow> node_at t (b @ [c]) = Some Dir
      \<Longrightarrow> node_at s' b = Some Dir" for t
    using dirs_added_kept make_dirs_effect by (metis option.distinct(1))
  show ?case
  proof (cases p)
    case Nil
    then show ?thesis using 2(3,4) kept [of s] kept [of "set_node (b @ [c]) Dir s"]
      by (auto simp: node_at_set_node split: option.splits node.splits)
  next
    case (Cons d p')
    then have p: "d = c" "cs = p' @ r" using 2(5) by auto
    show ?thesis
    proof (cases "node_at s (b @ [c])")
      case None
      then show ?thesis using 2(1) [OF None _ _ p(2), of "set_node (b @ [c]) Dir s"] 2(3) Cons p
        by (simp add: node_at_set_node)
    next
      case (Some n)
      then show ?thesis using 2(2) [OF Some _ _ _ p(2), of s] 2(3) Cons p by (cases n) simp_all
    qed
  qed
qed

lemma make_dirs_noop:
  "(\<And>p r. cs = p @ r \<Longrightarrow> node_at s (b @ p) = Some Dir) \<Longrightarrow> make_dirs b cs s = (Inr (), s)"
proof (induction b cs rule: make_dirs.induct)
  case (1 b)
  then show ?case by (simp add: ret_io_def)
next
  case (2 b c cs)
  have d: "node_at s (b @ [c]) = Some Dir" using 2(3) [of "[c]" cs] by simp
  have "make_dirs (b @ [c]) cs s = (Inr (), s)"
    using 2(2) [OF d refl] 2(3) [of "c # _"] by simp
  then show ?case using d by simp
qed

lemma create_dir_all_prefixes:
  assumes "create_dir_all q s = (Inr (), s')" "q = p @ r"
  shows "node_at s' p = Some Dir"
  using assms(1) unfolding create_dir_all_def
proof (cases rule: syscall_cases)
  case (run t)
  then show ?thesis using make_dirs_prefixes [of "[]" q t s' p r] assms(2) by simp
qed simp

lemma read_dir_run:
  assumes "read_dir q s = (Inr names, s')"
  shows "node_at s' = node_at s" "distinct names" "set names = {n. node_at s (q @ [n]) \<noteq> None}"
proof -
  have *: "last ` {p. p \<in> fst ` set (fs_nodes t) \<and> p \<noteq> [] \<and> butlast p = q} = {n. node_at t (q @ [n]) \<noteq> None}" for t
  proof (intro set_eqI iffI)
    fix n assume "n \<in> last ` {p. p \<in> fst ` set (fs_nodes t) \<and> p \<noteq> [] \<and> butlast p = q}"
    then obtain p where p: "p \<in> fst ` set (fs_nodes t)" "p \<noteq> []" "butlast p = q" "n = last p" by blast
    then have "p = q @ [n]" by (metis append_butlast_last_id)
    with p(1) have "q @ [n] \<in> fst ` set (fs_nodes t)" by simp
    then show "n \<in> {n. node_at t (q @ [n]) \<noteq> None}" by (simp add: node_at_def map_of_eq_None_iff)
  next
    fix n assume "n \<in> {n. node_at t (q @ [n]) \<noteq> None}"
    then have "q @ [n] \<in> fst ` set (fs_nodes t)" by (simp add: node_at_def map_of_eq_None_iff)
    then have "last (q @ [n]) \<in> last ` {p. p \<in> fst ` set (fs_nodes t) \<and> p \<noteq> [] \<and> butlast p = q}"
      by (intro imageI) simp
    then show "n \<in> last ` {p. p \<in> fst ` set (fs_nodes t) \<and> p \<noteq> [] \<and> butlast p = q}" by simp
  qed
  then have ns: "set (remdups (map last (filter (\<lambda>p. p \<noteq> [] \<and> butlast p = q) (map fst (fs_nodes t)))))
      = {n. node_at t (q @ [n]) \<noteq> None}" for t by simp
  from assms show "node_at s' = node_at s" "distinct names" "set names = {n. node_at s (q @ [n]) \<noteq> None}"
    unfolding read_dir_def
  proof (atomize (full), cases rule: syscall_cases)
    case (run t)
    then have "s' = t" "names = remdups (map last (filter (\<lambda>p. p \<noteq> [] \<and> butlast p = q) (map fst (fs_nodes t))))"
      by (auto split: if_splits)
    then show "node_at s' = node_at s \<and> distinct names \<and> set names = {n. node_at s (q @ [n]) \<noteq> None}"
      using ns [of t] run(1) by (simp only: distinct_remdups)
  qed simp
qed

end
