(* ===== verification/Storage.thy ===== *)
theory Storage
  imports Filesystem Core
begin

text \<open>
  \<open>crates/peerless-storage\<close>: bounded reads, atomic replacement and creation of files, and
  the content-addressed store \<open>FileCas\<close>. The process-wide counter \<open>TEMP_SEQUENCE\<close> and the
  process id are fields of the file system state.
\<close>

section \<open>Bounded reads and atomic writes\<close>

definition read_limited :: "path \<Rightarrow> nat \<Rightarrow> bytes io" where
  "read_limited path limit =
     bind_io (read_file path) (\<lambda>content.
     let bytes = take (min (limit + 1) (2 ^ 64 - 1)) content in
     if length bytes > limit then err_io InvalidData else ret_io bytes)"

definition temp_path :: "path \<Rightarrow> string \<Rightarrow> nat \<Rightarrow> u64 \<Rightarrow> path" where
  "temp_path parent name pid sequence =
     parent @ [''.'' @ name @ ''.'' @ fmt_dec pid @ ''.'' @ fmt_dec (unat sequence) @ ''.tmp'']"

text \<open>The loop that draws names until one is free; the first argument bounds the rounds.\<close>

fun temp_loop :: "nat \<Rightarrow> path \<Rightarrow> string \<Rightarrow> u32 option \<Rightarrow> path io" where
  "temp_loop 0 parent name mode s = (Inl NamesExhausted, s)"
| "temp_loop (Suc n) parent name mode s =
     (let sequence = fs_temp_sequence s;
          s = s\<lparr>fs_temp_sequence := sequence + 1\<rparr>;
          candidate = temp_path parent name (fs_pid s) sequence
      in case open_new candidate mode s of
           (Inr _, s) \<Rightarrow> (Inr candidate, s)
         | (Inl e, s) \<Rightarrow> if e = AlreadyExists then temp_loop n parent name mode s else (Inl e, s))"

definition temp_rounds :: "fs \<Rightarrow> nat" where
  "temp_rounds s = Suc (length (fs_nodes s) + length (fs_faults s))"

definition unique_temporary :: "path \<Rightarrow> string option \<Rightarrow> u32 option \<Rightarrow> path io" where
  "unique_temporary parent name mode s =
     temp_loop (temp_rounds s) parent (case name of Some n \<Rightarrow> n | None \<Rightarrow> ''data'') mode s"

definition write_and_sync :: "path \<Rightarrow> u32 option \<Rightarrow> bytes \<Rightarrow> unit io" where
  "write_and_sync p mode bytes = bind_io (write_all p mode bytes) (\<lambda>_. sync_all)"

definition sync_directory :: "path \<Rightarrow> unit io" where
  "sync_directory p = bind_io (open_dir p) (\<lambda>_. sync_all)"

definition atomic_replace :: "path \<Rightarrow> bytes \<Rightarrow> u32 option \<Rightarrow> unit io" where
  "atomic_replace path bytes mode =
     (case path_parent path of
        None \<Rightarrow> err_io InvalidInput
      | Some parent \<Rightarrow>
          bind_io (create_dir_all parent) (\<lambda>_.
          bind_io (unique_temporary parent (file_name path) mode) (\<lambda>temporary.
          match_io (write_and_sync temporary mode bytes)
            (\<lambda>_. match_io (rename temporary path)
                   (\<lambda>_. sync_directory parent)
                   (\<lambda>e. ignore_io (remove_file temporary) (err_io e)))
            (\<lambda>e. ignore_io (remove_file temporary) (err_io e)))))"

definition atomic_create :: "path \<Rightarrow> bytes \<Rightarrow> u32 option \<Rightarrow> unit io" where
  "atomic_create path bytes mode =
     (case path_parent path of
        None \<Rightarrow> err_io InvalidInput
      | Some parent \<Rightarrow>
          bind_io (create_dir_all parent) (\<lambda>_.
          bind_io (unique_temporary parent (file_name path) mode) (\<lambda>temporary.
          match_io (write_and_sync temporary mode bytes)
            (\<lambda>_. match_io (hard_link temporary path)
                   (\<lambda>_. bind_io (remove_file temporary) (\<lambda>_. sync_directory parent))
                   (\<lambda>e. ignore_io (remove_file temporary) (err_io e)))
            (\<lambda>e. ignore_io (remove_file temporary) (err_io e)))))"

section \<open>Content-addressed store\<close>

datatype cas_error =
    CasNotFound content_id
  | CasCorrupt content_id
  | CasIo io_error

type_synonym 'a cas = "fs \<Rightarrow> (cas_error + 'a) \<times> fs"

definition lift_cas :: "'a io \<Rightarrow> 'a cas" where
  "lift_cas m s = (let (r, s) = m s in (map_err CasIo r, s))"

definition bind_cas :: "'a cas \<Rightarrow> ('a \<Rightarrow> 'b cas) \<Rightarrow> 'b cas" where
  "bind_cas m f s = (case m s of (Inl e, s) \<Rightarrow> (Inl e, s) | (Inr x, s) \<Rightarrow> f x s)"

definition path_for :: "'z hash_lib_scheme \<Rightarrow> path \<Rightarrow> content_id \<Rightarrow> path" where
  "path_for L base i =
     (let digest = content_hex_digest L i in base @ [take 2 digest, drop 2 digest])"

definition cas_open :: "path \<Rightarrow> path cas" where
  "cas_open base = bind_cas (lift_cas (create_dir_all base)) (\<lambda>_ s. (Inr base, s))"

definition verify_existing :: "'z hash_lib_scheme \<Rightarrow> content_id \<Rightarrow> path \<Rightarrow> unit cas" where
  "verify_existing L i path =
     bind_cas (lift_cas (read_file path)) (\<lambda>bytes s.
     if content_verify L i bytes then (Inr (), s) else (Inl (CasCorrupt i), s))"

definition cas_put :: "'z hash_lib_scheme \<Rightarrow> path \<Rightarrow> bytes \<Rightarrow> content_id cas" where
  "cas_put L base bytes s =
     (let i = content_of L bytes;
          path = path_for L base i;
          parent = butlast path;
          (there, s) = path_exists path s
      in
      if there then bind_cas (verify_existing L i path) (\<lambda>_ s. (Inr i, s)) s
      else
        bind_cas (lift_cas (create_dir_all parent)) (\<lambda>_.
        bind_cas (lift_cas (\<lambda>s. temp_loop (temp_rounds s) parent (content_hex_digest L i) None s)) (\<lambda>temporary s.
        case write_and_sync temporary None bytes s of
          (Inl e, s) \<Rightarrow> (Inl (CasIo e), snd (remove_file temporary s))
        | (Inr _, s) \<Rightarrow>
            (case hard_link temporary path s of
               (Inr _, s) \<Rightarrow> bind_cas (lift_cas (remove_file temporary)) (\<lambda>_ s. (Inr i, s)) s
             | (Inl e, s) \<Rightarrow>
                 let s = snd (remove_file temporary s) in
                 if e = AlreadyExists then bind_cas (verify_existing L i path) (\<lambda>_ s. (Inr i, s)) s
                 else (Inl (CasIo e), s)))) s)"

definition cas_get :: "'z hash_lib_scheme \<Rightarrow> path \<Rightarrow> content_id \<Rightarrow> bytes cas" where
  "cas_get L base i s =
     (case read_file (path_for L base i) s of
        (Inl e, s) \<Rightarrow> (Inl (if e = NotFound then CasNotFound i else CasIo e), s)
      | (Inr bytes, s) \<Rightarrow>
          if \<not> content_verify L i bytes then (Inl (CasCorrupt i), s) else (Inr bytes, s))"

definition cas_contains :: "'z hash_lib_scheme \<Rightarrow> path \<Rightarrow> content_id \<Rightarrow> fs \<Rightarrow> bool \<times> fs" where
  "cas_contains L base i s = is_file (path_for L base i) s"

section \<open>Temporary names\<close>

lemma fs_pid_syscall: "(\<And>n t. fs_pid (f n t) = fs_pid t) \<Longrightarrow> (\<And>t. fs_pid (snd (k t)) = fs_pid t) \<Longrightarrow>
    fs_pid (snd (syscall f k s)) = fs_pid s"
  by (simp add: syscall_def split: list.splits option.splits)

lemma fs_pid_open_new: "fs_pid (snd (open_new q m s)) = fs_pid s"
  unfolding open_new_def by (rule fs_pid_syscall) (simp_all add: set_node_def)

lemma temp_loop_effect:
  "temp_loop n parent name mode s = (r, s') \<Longrightarrow>
     (\<exists>e. r = Inl e) \<and> node_at s' = node_at s
     \<or> (\<exists>q. r = Inr (temp_path parent name (fs_pid s) q)
          \<and> node_at s (temp_path parent name (fs_pid s) q) = None
          \<and> node_at s' = (node_at s)(temp_path parent name (fs_pid s) q \<mapsto> File [] mode))"
proof (induction n arbitrary: s)
  case (Suc n)
  let ?t = "s\<lparr>fs_temp_sequence := fs_temp_sequence s + 1\<rparr>"
  let ?c = "temp_path parent name (fs_pid s) (fs_temp_sequence s)"
  obtain r1 s1 where o: "open_new ?c mode ?t = (r1, s1)" by (cases "open_new ?c mode ?t")
  have pid: "fs_pid s1 = fs_pid s" using fs_pid_open_new [of ?c mode ?t] o by simp
  note eff = open_new_effect [OF o]
  show ?case
  proof (cases r1)
    case (Inl e)
    have same: "node_at s1 = node_at s" using eff Inl by auto
    show ?thesis
    proof (cases "e = AlreadyExists")
      case True
      then have "temp_loop n parent name mode s1 = (r, s')" using Suc.prems o Inl by simp
      from Suc.IH [OF this, unfolded pid same] show ?thesis .
    next
      case False
      then show ?thesis using Suc.prems o Inl same by auto
    qed
  next
    case (Inr u)
    then show ?thesis using Suc.prems o eff by auto
  qed
qed auto

lemma temp_path_neq:
  assumes "length (last q) \<le> length name"
  shows "temp_path (butlast q) name pid n \<noteq> q"
proof
  assume "temp_path (butlast q) name pid n = q"
  then have "last (temp_path (butlast q) name pid n) = last q" by simp
  then have "length (last q) = length (''.'' @ name @ ''.'' @ fmt_dec pid @ ''.'' @ fmt_dec (unat n) @ ''.tmp'')"
    by (simp add: temp_path_def)
  then show False using assms by simp
qed

lemma temp_path_not_Nil: "temp_path p name pid n \<noteq> []"
  by (simp add: temp_path_def)

text \<open>
  The loop finds a name: it draws distinct names, so it can be turned away at most once per
  file that exists and once per fault.
\<close>

definition taken :: "path \<Rightarrow> string \<Rightarrow> fs \<Rightarrow> nat \<Rightarrow> nat set" where
  "taken parent name s n =
     {i. i < n \<and> node_at s (temp_path parent name (fs_pid s) (fs_temp_sequence s + of_nat i)) \<noteq> None}"

lemma temp_path_inj: "temp_path p name pid m = temp_path p name pid n \<longleftrightarrow> m = n"
proof
  assume "temp_path p name pid m = temp_path p name pid n"
  then have "fmt_dec (unat m) = fmt_dec (unat n)" by (simp add: temp_path_def)
  then show "m = n" using fmt_dec_inj by (metis injD unsigned_word_eqI)
qed simp

lemma card_taken:
  assumes "n \<le> 2 ^ 64"
  shows "card (taken parent name s n) \<le> length (fs_nodes s)"
proof -
  let ?f = "\<lambda>i. temp_path parent name (fs_pid s) (fs_temp_sequence s + of_nat i)"
  have "inj_on ?f (taken parent name s n)"
  proof (rule inj_onI)
    fix i j assume ij: "i \<in> taken parent name s n" "j \<in> taken parent name s n" "?f i = ?f j"
    then have "(of_nat i :: u64) = of_nat j" by (simp add: temp_path_inj)
    moreover have "unat (of_nat i :: u64) = i" "unat (of_nat j :: u64) = j"
      using ij assms by (auto simp: taken_def unat_of_nat)
    ultimately show "i = j" by metis
  qed
  moreover have "?f ` taken parent name s n \<subseteq> set (map fst (fs_nodes s))"
    by (force simp: taken_def node_at_def temp_path_not_Nil dest: map_of_SomeD)
  ultimately have "card (taken parent name s n) \<le> card (set (map fst (fs_nodes s)))"
    by (metis List.finite_set card_image card_mono)
  also have "\<dots> \<le> length (fs_nodes s)" by (metis card_length length_map)
  finally show ?thesis .
qed

lemma open_new_refused:
  assumes "open_new q m s = (Inl e, s1)"
  shows "fs_temp_sequence s1 = fs_temp_sequence s" "fs_pid s1 = fs_pid s" "fs_nodes s1 = fs_nodes s"
    "set (fs_faults s1) \<subseteq> set (fs_faults s)" "length (fs_faults s1) \<le> length (fs_faults s)"
    "length (fs_faults s1) < length (fs_faults s) \<or> node_at s q \<noteq> None \<or> e = NotFound"
    "e = NamesExhausted \<Longrightarrow> \<exists>n. Some (NamesExhausted, n) \<in> set (fs_faults s)"
  using assms
  by (auto simp: open_new_def syscall_def split: list.splits option.splits if_splits)

lemma temp_loop_exhausted:
  "temp_loop n parent name mode s = (Inl NamesExhausted, s') \<Longrightarrow>
     \<forall>k. Some (NamesExhausted, k) \<notin> set (fs_faults s) \<Longrightarrow>
     n \<le> length (fs_faults s) + card (taken parent name s n)"
proof (induction n arbitrary: s)
  case (Suc n)
  let ?t = "s\<lparr>fs_temp_sequence := fs_temp_sequence s + 1\<rparr>"
  let ?c = "temp_path parent name (fs_pid s) (fs_temp_sequence s)"
  obtain r1 s1 where o: "open_new ?c mode ?t = (r1, s1)" by (cases "open_new ?c mode ?t")
  then obtain e where e: "r1 = Inl e" using Suc.prems by (cases r1) simp_all
  note ref = open_new_refused [OF o [unfolded e], simplified]
  have ex: "e = AlreadyExists"
    using Suc.prems o e ref(7) by (auto split: if_splits)
  have ih: "n \<le> length (fs_faults s1) + card (taken parent name s1 n)"
    using Suc.prems o e ex ref(4) by (intro Suc.IH) auto
  have nodes: "node_at s1 = node_at s" using ref(3) by (simp add: node_at_def fun_eq_iff)
  have sub: "Suc ` taken parent name s1 n \<subseteq> taken parent name s (Suc n) - {0}"
    using ref(1,2) nodes by (auto simp: taken_def add.assoc)
  have "card (taken parent name s1 n) = card (Suc ` taken parent name s1 n)" by (simp add: card_image)
  also have "\<dots> \<le> card (taken parent name s (Suc n) - {0})"
    by (rule card_mono [OF _ sub]) (simp add: taken_def)
  finally have le: "card (taken parent name s1 n) \<le> card (taken parent name s (Suc n) - {0})" .
  have lt: "card (taken parent name s (Suc n) - {0}) < card (taken parent name s (Suc n))"
    if "node_at s ?c \<noteq> None"
    by (rule card_Diff1_less) (use that in \<open>simp_all add: taken_def\<close>)
  have le': "card (taken parent name s (Suc n) - {0}) \<le> card (taken parent name s (Suc n))"
    by (rule card_Diff1_le)
  have "length (fs_faults s1) < length (fs_faults s) \<or> node_at s ?c \<noteq> None" using ref(6) ex by auto
  then show ?case
  proof
    assume "length (fs_faults s1) < length (fs_faults s)"
    then show ?thesis using ih le le' by linarith
  next
    assume "node_at s ?c \<noteq> None"
    then show ?thesis using ih le lt ref(5) by linarith
  qed
qed simp

text \<open>So with fewer than \<open>2 ^ 64\<close> files and faults the bound on the rounds is never what ends it.\<close>

lemma temp_loop_terminates:
  assumes "temp_rounds s \<le> 2 ^ 64" "\<forall>k. Some (NamesExhausted, k) \<notin> set (fs_faults s)"
  shows "fst (temp_loop (temp_rounds s) parent name mode s) \<noteq> Inl NamesExhausted"
proof
  assume "fst (temp_loop (temp_rounds s) parent name mode s) = Inl NamesExhausted"
  then have "temp_rounds s \<le> length (fs_faults s) + card (taken parent name s (temp_rounds s))"
    using temp_loop_exhausted [of "temp_rounds s" parent name mode s] assms(2)
    by (cases "temp_loop (temp_rounds s) parent name mode s") auto
  then show False using card_taken [OF assms(1), of parent name s] by (simp add: temp_rounds_def)
qed

section \<open>Staging a file under a temporary name\<close>

lemma bind_io_cases:
  assumes "bind_io m f s = (r, s')"
  obtains (Err) e where "m s = (Inl e, s')" "r = Inl e" | (Ok) x t where "m s = (Inr x, t)" "f x t = (r, s')"
  using assms by (auto simp: bind_io_def split: prod.splits sum.splits)

lemma match_io_cases:
  assumes "match_io m f h s = (r, s')"
  obtains (Err) e t where "m s = (Inl e, t)" "h e t = (r, s')" | (Ok) x t where "m s = (Inr x, t)" "f x t = (r, s')"
  using assms by (auto simp: match_io_def split: prod.splits sum.splits)

lemma write_and_sync_effect:
  assumes "write_and_sync q m bs s = (r, s')" "q \<noteq> []"
  shows "\<exists>c. node_at s' = (node_at s)(q \<mapsto> File c m) \<and> (r = Inr () \<longrightarrow> c = bs)"
  using assms(1) unfolding write_and_sync_def
proof (cases rule: bind_io_cases)
  case (Err e)
  then show ?thesis using write_all_effect [OF Err(1) assms(2)] by auto
next
  case (Ok x t)
  then show ?thesis using write_all_effect [OF Ok(1) assms(2)] sync_all_effect [OF Ok(2)] by auto
qed

lemma sync_directory_effect: "sync_directory q s = (r, s') \<Longrightarrow> node_at s' = node_at s"
  unfolding sync_directory_def
  by (erule bind_io_cases) (metis open_dir_effect sync_all_effect)+

text \<open>
  The common first half of both atomic operations: it ends with an error and nothing but new
  directories, or the data is under a fresh temporary name.
\<close>

lemma staged_cases:
  assumes "bind_io (create_dir_all parent) (\<lambda>_. bind_io (unique_temporary parent name mode) (\<lambda>temporary.
      match_io (write_and_sync temporary mode bytes) (f temporary) (h temporary))) s = (r, s')"
  obtains (stopped) "\<exists>e. r = Inl e" "dirs_added parent s s'"
  | (failed) e q pid s1 s2 c where "dirs_added parent s s1"
      "node_at s1 (temp_path parent (case name of Some n \<Rightarrow> n | None \<Rightarrow> ''data'') pid q) = None"
      "node_at s2 = (node_at s1)(temp_path parent (case name of Some n \<Rightarrow> n | None \<Rightarrow> ''data'') pid q \<mapsto> File c mode)"
      "h (temp_path parent (case name of Some n \<Rightarrow> n | None \<Rightarrow> ''data'') pid q) e s2 = (r, s')"
  | (staged) q pid s1 s2 where "dirs_added parent s s1"
      "node_at s1 (temp_path parent (case name of Some n \<Rightarrow> n | None \<Rightarrow> ''data'') pid q) = None"
      "node_at s2 = (node_at s1)(temp_path parent (case name of Some n \<Rightarrow> n | None \<Rightarrow> ''data'') pid q \<mapsto> File bytes mode)"
      "f (temp_path parent (case name of Some n \<Rightarrow> n | None \<Rightarrow> ''data'') pid q) () s2 = (r, s')"
  using assms
proof (cases rule: bind_io_cases)
  case (Err e)
  then show ?thesis using create_dir_all_effect [OF Err(1)] stopped by blast
next
  case (Ok u s1)
  have d: "dirs_added parent s s1" using create_dir_all_effect [OF Ok(1)] by blast
  from Ok(2) show ?thesis
  proof (cases rule: bind_io_cases)
    case (Err e)
    then show ?thesis using temp_loop_effect [of _ parent _ mode s1 "Inl e" s'] d stopped
      by (auto simp: unique_temporary_def dirs_added_def)
  next
    case (Ok t s2)
    from temp_loop_effect [OF Ok(1) [unfolded unique_temporary_def]] obtain q where
      t: "t = temp_path parent (case name of Some n \<Rightarrow> n | None \<Rightarrow> ''data'') (fs_pid s1) q"
        "node_at s1 t = None" "node_at s2 = (node_at s1)(t \<mapsto> File [] mode)" by auto
    have "t \<noteq> []" using t temp_path_not_Nil by simp
    from Ok(2) show ?thesis
    proof (cases rule: match_io_cases)
      case (Err e s3)
      obtain c where "node_at s3 = (node_at s2)(t \<mapsto> File c mode)"
        using write_and_sync_effect [OF Err(1) \<open>t \<noteq> []\<close>] by blast
      then have "node_at s3 = (node_at s1)(t \<mapsto> File c mode)" using t(3) by simp
      then show ?thesis using failed [of s1 "fs_pid s1" q s3 c e] d t(1,2) Err(2) by simp
    next
      case (Ok u s3)
      have "node_at s3 = (node_at s2)(t \<mapsto> File bytes mode)"
        using write_and_sync_effect [OF Ok(1) \<open>t \<noteq> []\<close>] by auto
      then have "node_at s3 = (node_at s1)(t \<mapsto> File bytes mode)" using t(3) by simp
      then show ?thesis using staged [of s1 "fs_pid s1" q s3] d t(1,2) Ok(2) by simp
    qed
  qed
qed

lemma ignored_remove:
  assumes "ignore_io (remove_file q) (err_io e) s = (r, s')"
  shows "r = Inl e \<and> (node_at s' = node_at s \<or> node_at s' = (node_at s)(q := None))"
  using assms remove_file_effect [of q s "fst (remove_file q s)" "snd (remove_file q s)"]
  by (auto simp: ignore_io_def err_io_def)

lemma dirs_added_parent:
  assumes "dirs_added (butlast q) s s'" "q \<noteq> []"
  shows "node_at s' q = node_at s q"
proof -
  have "length (butlast q) \<noteq> length (q @ r)" for r using assms(2) by (cases q) simp_all
  then have "butlast q \<noteq> q @ r" for r by metis
  then show ?thesis using assms(1) by (auto simp: dirs_added_def)
qed

section \<open>What the atomic operations leave behind\<close>

text \<open>Every path that existed is as it was, \<open>q\<close> aside.\<close>

definition untouched :: "path \<Rightarrow> fs \<Rightarrow> fs \<Rightarrow> bool" where
  "untouched q s s' \<longleftrightarrow> (\<forall>p. p \<noteq> q \<longrightarrow> node_at s p \<noteq> None \<longrightarrow> node_at s' p = node_at s p)"

lemma untouchedI:
  assumes "dirs_added d s s1" "node_at s1 t = None" "\<And>p. p \<noteq> q \<Longrightarrow> p \<noteq> t \<Longrightarrow> node_at s' p = node_at s1 p"
  shows "untouched q s s'"
  unfolding untouched_def
proof (intro allI impI)
  fix p assume p: "p \<noteq> q" "node_at s p \<noteq> None"
  then have "node_at s1 p = node_at s p" using dirs_added_kept [OF assms(1)] by simp
  moreover from this p have "p \<noteq> t" using assms(2) by auto
  ultimately show "node_at s' p = node_at s p" using assms(3) p by simp
qed

lemma atomic_replace_outcome:
  assumes "atomic_replace q bytes mode s = (r, s')"
  shows "untouched q s s' \<and> (node_at s' q = node_at s q \<or> node_at s' q = Some (File bytes mode))
    \<and> (r = Inr () \<longrightarrow> node_at s' q = Some (File bytes mode))"
proof (cases "q = []")
  case True
  then show ?thesis using assms by (auto simp: atomic_replace_def path_parent_def err_io_def untouched_def)
next
  case q: False
  let ?n = "case file_name q of Some n \<Rightarrow> n | None \<Rightarrow> ''data''"
  have neq: "q \<noteq> temp_path (butlast q) ?n pid i" for pid i
    using q by (intro temp_path_neq [symmetric]) (simp add: file_name_def)
  have "bind_io (create_dir_all (butlast q)) (\<lambda>_. bind_io (unique_temporary (butlast q) (file_name q) mode) (\<lambda>t.
      match_io (write_and_sync t mode bytes)
        (\<lambda>_. match_io (rename t q) (\<lambda>_. sync_directory (butlast q)) (\<lambda>e. ignore_io (remove_file t) (err_io e)))
        (\<lambda>e. ignore_io (remove_file t) (err_io e)))) s = (r, s')"
    using assms q by (simp add: atomic_replace_def path_parent_def)
  then show ?thesis
  proof (cases rule: staged_cases)
    case stopped
    then show ?thesis using dirs_added_kept [OF stopped(2)] dirs_added_parent [OF stopped(2) q]
      by (auto simp: untouched_def)
  next
    case (failed e i pid s1 s2 c)
    note r = ignored_remove [OF failed(4)]
    have "untouched q s s'" using r failed(3) by (intro untouchedI [OF failed(1,2)]) auto
    moreover have "node_at s' q = node_at s q"
      using r failed(3) neq [of pid i] dirs_added_parent [OF failed(1) q] by auto
    ultimately show ?thesis using r by simp
  next
    case (staged i pid s1 s2)
    let ?t = "temp_path (butlast q) ?n pid i"
    from staged(4) show ?thesis
    proof (cases rule: match_io_cases)
      case (Err e s3)
      note r = ignored_remove [OF Err(2)] rename_effect [OF Err(1)]
      have "untouched q s s'" using r staged(3) by (intro untouchedI [OF staged(1,2)]) auto
      moreover have "node_at s' q = node_at s q"
        using r staged(3) neq [of pid i] dirs_added_parent [OF staged(1) q] by auto
      ultimately show ?thesis using r by simp
    next
      case (Ok u s3)
      have s3: "node_at s3 = (node_at s2)(?t := None, q \<mapsto> File bytes mode)"
        using rename_effect [OF Ok(1)] staged(3) by auto
      have s': "node_at s' = node_at s3" using sync_directory_effect [OF Ok(2)] .
      have "untouched q s s'" using s3 s' staged(3) by (intro untouchedI [OF staged(1,2)]) auto
      then show ?thesis using s3 s' by simp
    qed
  qed
qed

lemma atomic_create_outcome:
  assumes "atomic_create q bytes mode s = (r, s')"
  shows "untouched q s s' \<and> (node_at s' q = node_at s q \<or> node_at s q = None \<and> node_at s' q = Some (File bytes mode))
    \<and> (r = Inr () \<longrightarrow> node_at s q = None \<and> node_at s' q = Some (File bytes mode))"
proof (cases "q = []")
  case True
  then show ?thesis using assms by (auto simp: atomic_create_def path_parent_def err_io_def untouched_def)
next
  case q: False
  let ?n = "case file_name q of Some n \<Rightarrow> n | None \<Rightarrow> ''data''"
  have neq: "q \<noteq> temp_path (butlast q) ?n pid i" for pid i
    using q by (intro temp_path_neq [symmetric]) (simp add: file_name_def)
  have "bind_io (create_dir_all (butlast q)) (\<lambda>_. bind_io (unique_temporary (butlast q) (file_name q) mode) (\<lambda>t.
      match_io (write_and_sync t mode bytes)
        (\<lambda>_. match_io (hard_link t q) (\<lambda>_. bind_io (remove_file t) (\<lambda>_. sync_directory (butlast q)))
           (\<lambda>e. ignore_io (remove_file t) (err_io e)))
        (\<lambda>e. ignore_io (remove_file t) (err_io e)))) s = (r, s')"
    using assms q by (simp add: atomic_create_def path_parent_def)
  then show ?thesis
  proof (cases rule: staged_cases)
    case stopped
    then show ?thesis using dirs_added_kept [OF stopped(2)] dirs_added_parent [OF stopped(2) q]
      by (auto simp: untouched_def)
  next
    case (failed e i pid s1 s2 c)
    note r = ignored_remove [OF failed(4)]
    have "untouched q s s'" using r failed(3) by (intro untouchedI [OF failed(1,2)]) auto
    moreover have "node_at s' q = node_at s q"
      using r failed(3) neq [of pid i] dirs_added_parent [OF failed(1) q] by auto
    ultimately show ?thesis using r by simp
  next
    case (staged i pid s1 s2)
    let ?t = "temp_path (butlast q) ?n pid i"
    from staged(4) show ?thesis
    proof (cases rule: match_io_cases)
      case (Err e s3)
      note r = ignored_remove [OF Err(2)] hard_link_effect [OF Err(1)]
      have "untouched q s s'" using r staged(3) by (intro untouchedI [OF staged(1,2)]) auto
      moreover have "node_at s' q = node_at s q"
        using r staged(3) neq [of pid i] dirs_added_parent [OF staged(1) q] by auto
      ultimately show ?thesis using r by simp
    next
      case (Ok u s3)
      have s3: "node_at s2 q = None" "node_at s3 = (node_at s2)(q \<mapsto> File bytes mode)"
        using hard_link_effect [OF Ok(1)] staged(3) by auto
      have s': "node_at s' = node_at s3 \<or> node_at s' = (node_at s3)(?t := None)"
        using Ok(2) by (cases rule: bind_io_cases) (auto dest!: remove_file_effect sync_directory_effect)
      have "untouched q s s'" using s3 s' staged(3) by (intro untouchedI [OF staged(1,2)]) auto
      moreover have "node_at s q = None"
        using s3(1) staged(3) neq [of pid i] dirs_added_parent [OF staged(1) q] by (auto split: if_splits)
      ultimately show ?thesis using s3 s' neq [of pid i] by auto
    qed
  qed
qed

section \<open>The store as an interface\<close>

text \<open>
  What clients of a content store rely on: identifiers are those of the content, a read
  never returns content with another identifier, what was put can be read back, and putting
  one object takes no other away. \<open>calm\<close> states are those in which no I/O error is pending.
\<close>

locale content_store =
  fixes put :: "'b \<Rightarrow> 's \<Rightarrow> ('e + 'i) \<times> 's"
    and get :: "'i \<Rightarrow> 's \<Rightarrow> ('e + 'b) \<times> 's"
    and ident :: "'b \<Rightarrow> 'i"
    and calm :: "'s \<Rightarrow> bool"
  assumes put_ident: "put b s = (Inr i, t) \<Longrightarrow> ident b = i"
    and put_calm: "put b s = (r, t) \<Longrightarrow> calm s \<Longrightarrow> calm t"
    and get_sound: "get i s = (Inr b, t) \<Longrightarrow> ident b = i"
    and put_readable: "put b s = (Inr i, t) \<Longrightarrow> calm s \<Longrightarrow> \<exists>b'. fst (get i t) = Inr b'"
    and put_keeps: "put b s = (r, t) \<Longrightarrow> calm s \<Longrightarrow> fst (get i s) = Inr b' \<Longrightarrow> fst (get i t) = Inr b'"
begin

lemma put_get: "put b s = (Inr i, t) \<Longrightarrow> calm s \<Longrightarrow> \<exists>b'. fst (get i t) = Inr b' \<and> ident b' = ident b"
  using put_readable get_sound put_ident by (metis prod.collapse)

lemma put_get_exact:
  "put b s = (Inr i, t) \<Longrightarrow> calm s \<Longrightarrow> \<exists>b'. fst (get i t) = Inr b' \<and> (b' = b \<or> b' \<noteq> b \<and> ident b' = ident b)"
  using put_get by blast

lemma puts_keep:
  "calm s \<Longrightarrow> fst (get i s) = Inr b \<Longrightarrow> fst (get i (foldl (\<lambda>s c. snd (put c s)) s cs)) = Inr b"
proof (induction cs arbitrary: s)
  case (Cons c cs)
  have p: "put c s = (fst (put c s), snd (put c s))" by simp
  have "calm (snd (put c s))" by (rule put_calm [OF p Cons.prems(1)])
  moreover have "fst (get i (snd (put c s))) = Inr b" by (rule put_keeps [OF p Cons.prems])
  ultimately show ?case using Cons.IH by simp
qed simp

end

section \<open>The store on disk\<close>

lemma bind_cas_cases:
  assumes "bind_cas m f s = (r, s')"
  obtains (Err) e where "m s = (Inl e, s')" "r = Inl e" | (Ok) x t where "m s = (Inr x, t)" "f x t = (r, s')"
  using assms by (auto simp: bind_cas_def split: prod.splits sum.splits)

lemma lift_cas_result: "lift_cas m s = (map_err CasIo (fst (m s)), snd (m s))"
  by (simp add: lift_cas_def case_prod_unfold Let_def)

lemma verify_existing_effect:
  assumes "verify_existing L i q s = (r, s')"
  shows "node_at s' = node_at s \<and> (r = Inr () \<longrightarrow> (\<exists>b m. node_at s q = Some (File b m) \<and> content_verify L i b))"
  using assms unfolding verify_existing_def
proof (cases rule: bind_cas_cases)
  case (Err e)
  then show ?thesis using read_file_effect [of q s "fst (read_file q s)"] by (auto simp: lift_cas_result)
next
  case (Ok x t)
  then have "read_file q s = (Inr x, t)" by (cases "read_file q s") (auto simp: lift_cas_result result_simps)
  then show ?thesis using read_file_effect [of q s "Inr x" t] Ok(2) by (auto split: if_splits)
qed

lemma path_exists_effect:
  assumes "path_exists q s = (b, s')"
  shows "node_at s' = node_at s \<and> (b \<longrightarrow> node_at s q \<noteq> None)"
  using assms unfolding path_exists_def
  by (auto simp: syscall_def ret_io_def split: list.splits option.splits)

lemma path_for_not_Nil: "path_for L base i \<noteq> []"
  by (simp add: path_for_def Let_def)

lemma cas_temp_neq:
  "temp_path (butlast (path_for L base i)) (content_hex_digest L i) pid n \<noteq> path_for L base i"
  by (rule temp_path_neq) (simp add: path_for_def Let_def)

definition cas_outcome :: "'z hash_lib_scheme \<Rightarrow> path \<Rightarrow> content_id \<Rightarrow> bytes \<Rightarrow> fs \<Rightarrow> cas_error + content_id \<Rightarrow> fs \<Rightarrow> bool" where
  "cas_outcome L q i bytes s r s' \<longleftrightarrow> untouched q s s'
     \<and> (node_at s' q = node_at s q \<or> node_at s q = None \<and> node_at s' q = Some (File bytes None))
     \<and> (\<forall>j. r = Inr j \<longrightarrow> j = i \<and> (\<exists>b m. node_at s' q = Some (File b m) \<and> content_verify L i b))"

lemma verify_branch_outcome:
  assumes "bind_cas (verify_existing L i q) (\<lambda>_ s. (Inr i, s)) t = (r, s')"
    and "untouched q s t" "node_at t q = node_at s q"
  shows "cas_outcome L q i bytes s r s'"
  using assms(1)
proof (cases rule: bind_cas_cases)
  case (Err e)
  then show ?thesis using verify_existing_effect [OF Err(1)] assms(2,3)
    by (auto simp: cas_outcome_def untouched_def)
next
  case (Ok x u)
  then show ?thesis using verify_existing_effect [of L i q t "Inr x" u] assms(2,3)
    by (auto simp: cas_outcome_def untouched_def)
qed

lemma lift_cas_cases:
  assumes "lift_cas m s = (r, s')"
  obtains (Err) e where "m s = (Inl e, s')" "r = Inl (CasIo e)" | (Ok) x where "m s = (Inr x, s')" "r = Inr x"
  using assms by (cases "m s"; cases "fst (m s)") (auto simp: lift_cas_def)

lemma cas_outcome_dirs:
  assumes "dirs_added (butlast q) s s'" "q \<noteq> []" "\<forall>j. r \<noteq> Inr j"
  shows "cas_outcome L q i bytes s r s'"
  using assms dirs_added_parent [OF assms(1,2)] dirs_added_kept [OF assms(1)]
  by (auto simp: cas_outcome_def untouched_def)

text \<open>The second half of \<open>put\<close>, from the moment the temporary file exists.\<close>

lemma cas_publish_outcome:
  assumes "dirs_added (butlast q) s s1" "q \<noteq> []" "t \<noteq> q" "t \<noteq> []" "node_at s1 t = None"
    and "node_at s2 = (node_at s1)(t \<mapsto> File [] None)" "i = content_of L bytes"
    and run: "(case write_and_sync t None bytes s2 of
          (Inl e, s) \<Rightarrow> (Inl (CasIo e), snd (remove_file t s))
        | (Inr _, s) \<Rightarrow>
            (case hard_link t q s of
               (Inr _, s) \<Rightarrow> bind_cas (lift_cas (remove_file t)) (\<lambda>_ s. (Inr i, s)) s
             | (Inl e, s) \<Rightarrow>
                 let s = snd (remove_file t s) in
                 if e = AlreadyExists then bind_cas (verify_existing L i q) (\<lambda>_ s. (Inr i, s)) s
                 else (Inl (CasIo e), s))) = (r, s')"
  shows "cas_outcome L q i bytes s r s'"
proof -
  obtain w s3 where w: "write_and_sync t None bytes s2 = (w, s3)" by (cases "write_and_sync t None bytes s2")
  obtain c where c: "node_at s3 = (node_at s1)(t \<mapsto> File c None)" "w = Inr () \<longrightarrow> c = bytes"
    using write_and_sync_effect [OF w assms(4)] assms(6) by auto
  have q1: "node_at s1 q = node_at s q" using dirs_added_parent [OF assms(1,2)] .
  have rem: "node_at (snd (remove_file t u)) = node_at u \<or> node_at (snd (remove_file t u)) = (node_at u)(t := None)" for u
    using remove_file_effect [of t u] by (cases "remove_file t u") auto
  show ?thesis
  proof (cases w)
    case (Inl e)
    then have r: "r = Inl (CasIo e)" "s' = snd (remove_file t s3)" using run w by auto
    have "untouched q s s'" using rem [of s3] c r by (intro untouchedI [OF assms(1,5)]) auto
    moreover have "node_at s' q = node_at s q" using rem [of s3] c r q1 assms(3) by auto
    ultimately show ?thesis using r by (simp add: cas_outcome_def)
  next
    case (Inr u)
    obtain h s4 where h: "hard_link t q s3 = (h, s4)" by (cases "hard_link t q s3")
    note heff = hard_link_effect [OF h]
    show ?thesis
    proof (cases h)
      case err: (Inl e)
      let ?s5 = "snd (remove_file t s4)"
      have u: "untouched q s ?s5" using rem [of s4] heff err c by (intro untouchedI [OF assms(1,5)]) auto
      have n: "node_at ?s5 q = node_at s q" using rem [of s4] heff err c q1 assms(3) by auto
      show ?thesis
      proof (cases "e = AlreadyExists")
        case True
        then show ?thesis using verify_branch_outcome [OF _ u n] run w Inr h err by simp
      next
        case False
        then show ?thesis using u n run w Inr h err by (auto simp: cas_outcome_def Let_def)
      qed
    next
      case ok: (Inr v)
      have s4: "node_at s3 q = None" "node_at s4 = (node_at s3)(q \<mapsto> File bytes None)"
        using heff ok c Inr by auto
      have "bind_cas (lift_cas (remove_file t)) (\<lambda>_ s. (Inr i, s)) s4 = (r, s')" using run w Inr h ok by simp
      then have s': "s' = snd (remove_file t s4)" "\<forall>j. r = Inr j \<longrightarrow> j = i"
        by (auto simp: lift_cas_result bind_cas_def split: sum.splits)
      have "untouched q s s'" using rem [of s4] s4 s' c by (intro untouchedI [OF assms(1,5)]) auto
      moreover have "node_at s q = None" using s4(1) c q1 assms(3) by (simp split: if_splits)
      moreover have "node_at s' q = Some (File bytes None)" using rem [of s4] s4 s' assms(3) by auto
      ultimately show ?thesis using s'(2) assms(7) by (simp add: cas_outcome_def content_verify_def)
    qed
  qed
qed

lemma cas_put_outcome:
  assumes "cas_put L base bytes s = (r, s')"
  shows "cas_outcome L (path_for L base (content_of L bytes)) (content_of L bytes) bytes s r s'"
proof -
  let ?i = "content_of L bytes" and ?q = "path_for L base (content_of L bytes)"
  obtain there s0 where p: "path_exists ?q s = (there, s0)" by (cases "path_exists ?q s")
  have same: "node_at s0 = node_at s" using path_exists_effect [OF p] by simp
  have out: "cas_outcome L ?q ?i bytes s0 r s' = cas_outcome L ?q ?i bytes s r s'"
    using same by (simp add: cas_outcome_def untouched_def)
  show ?thesis
  proof (cases there)
    case True
    then show ?thesis
      using verify_branch_outcome [of L ?i ?q s0 r s' s] assms p same
      by (simp add: cas_put_def untouched_def Let_def)
  next
    case False
    have "bind_cas (lift_cas (create_dir_all (butlast ?q))) (\<lambda>_.
        bind_cas (lift_cas (\<lambda>s. temp_loop (temp_rounds s) (butlast ?q) (content_hex_digest L ?i) None s)) (\<lambda>t s.
        case write_and_sync t None bytes s of
          (Inl e, s) \<Rightarrow> (Inl (CasIo e), snd (remove_file t s))
        | (Inr _, s) \<Rightarrow>
            (case hard_link t ?q s of
               (Inr _, s) \<Rightarrow> bind_cas (lift_cas (remove_file t)) (\<lambda>_ s. (Inr ?i, s)) s
             | (Inl e, s) \<Rightarrow>
                 let s = snd (remove_file t s) in
                 if e = AlreadyExists then bind_cas (verify_existing L ?i ?q) (\<lambda>_ s. (Inr ?i, s)) s
                 else (Inl (CasIo e), s)))) s0 = (r, s')"
      using assms p False by (simp add: cas_put_def Let_def)
    then have "cas_outcome L ?q ?i bytes s0 r s'"
    proof (cases rule: bind_cas_cases)
      case (Err e)
      from Err(1) show ?thesis
        by (cases rule: lift_cas_cases)
           (use Err(2) create_dir_all_effect in \<open>auto intro!: cas_outcome_dirs simp: path_for_not_Nil\<close>)
    next
      case (Ok u s1)
      then have d: "dirs_added (butlast ?q) s0 s1"
        using create_dir_all_effect by (auto elim: lift_cas_cases)
      from Ok(2) show ?thesis
      proof (cases rule: bind_cas_cases)
        case (Err e)
        then obtain e' where "temp_loop (temp_rounds s1) (butlast ?q) (content_hex_digest L ?i) None s1 = (Inl e', s')"
          by (auto elim: lift_cas_cases)
        then have "node_at s' = node_at s1" using temp_loop_effect by fastforce
        then show ?thesis using d Err(2)
          by (intro cas_outcome_dirs) (auto simp: dirs_added_def path_for_not_Nil)
      next
        case (Ok t s2)
        then have "temp_loop (temp_rounds s1) (butlast ?q) (content_hex_digest L ?i) None s1 = (Inr t, s2)"
          by (auto elim: lift_cas_cases)
        from temp_loop_effect [OF this] obtain n where
          "t = temp_path (butlast ?q) (content_hex_digest L ?i) (fs_pid s1) n" "node_at s1 t = None"
          "node_at s2 = (node_at s1)(t \<mapsto> File [] None)" by auto
        then show ?thesis
          using cas_publish_outcome [OF d path_for_not_Nil _ _ _ _ refl Ok(2)] cas_temp_neq temp_path_not_Nil by metis
      qed
    qed
    then show ?thesis by (simp add: out)
  qed
qed

section \<open>Quiet runs\<close>

text \<open>A run that starts without pending faults stays without them.\<close>

definition quiet :: "(fs \<Rightarrow> 'r \<times> fs) \<Rightarrow> bool" where
  "quiet m \<longleftrightarrow> (\<forall>s. fs_faults s = [] \<longrightarrow> fs_faults (snd (m s)) = [])"

named_theorems quiet_intros

lemma quiet_syscall: "(\<And>s. fs_faults (snd (k s)) = fs_faults s) \<Longrightarrow> quiet (syscall f k)"
  by (simp add: quiet_def syscall_def)

lemma make_dirs_faults: "fs_faults (snd (make_dirs b cs s)) = fs_faults s"
proof (induction b cs arbitrary: s rule: make_dirs.induct)
  case (2 b c cs)
  then show ?case by (auto simp: set_node_def split: option.splits node.splits)
qed (simp add: ret_io_def)

lemma quiet_calls [quiet_intros]:
  "quiet (create_dir_all q)" "quiet (open_new q m)" "quiet (write_all q m bs)" "quiet sync_all"
  "quiet (remove_file q)" "quiet (rename q q')" "quiet (hard_link q q')" "quiet (open_dir q)"
  "quiet (read_file q)"
  unfolding create_dir_all_def open_new_def write_all_def sync_all_def remove_file_def rename_def
    hard_link_def open_dir_def read_file_def
  by (rule quiet_syscall; auto simp: make_dirs_faults set_node_def del_node_def ret_io_def
      split: option.splits node.splits)+

lemma quiet_path_exists [quiet_intros]: "quiet (path_exists q)"
  by (simp add: quiet_def path_exists_def syscall_def ret_io_def)

lemma quiet_step: "quiet m \<Longrightarrow> m s = (r, t) \<Longrightarrow> fs_faults s = [] \<Longrightarrow> fs_faults t = []"
  unfolding quiet_def by (metis snd_conv)

lemma quiet_bind_io [quiet_intros]: "quiet m \<Longrightarrow> (\<And>x. quiet (f x)) \<Longrightarrow> quiet (bind_io m f)"
  unfolding quiet_def bind_io_def by (auto split: prod.splits sum.splits)

lemma quiet_bind_cas [quiet_intros]: "quiet m \<Longrightarrow> (\<And>x. quiet (f x)) \<Longrightarrow> quiet (bind_cas m f)"
  unfolding quiet_def bind_cas_def by (auto split: prod.splits sum.splits)

lemma quiet_lift_cas [quiet_intros]: "quiet m \<Longrightarrow> quiet (lift_cas m)"
  by (simp add: quiet_def lift_cas_result)

lemma quiet_temp_loop [quiet_intros]: "quiet (temp_loop n parent name mode)"
  unfolding quiet_def
proof (intro allI impI)
  fix s :: fs assume "fs_faults s = []"
  then show "fs_faults (snd (temp_loop n parent name mode s)) = []"
  proof (induction n arbitrary: s)
    case (Suc n)
    let ?t = "s\<lparr>fs_temp_sequence := fs_temp_sequence s + 1\<rparr>"
    obtain r t where o: "open_new (temp_path parent name (fs_pid s) (fs_temp_sequence s)) mode ?t = (r, t)"
      by (cases "open_new (temp_path parent name (fs_pid s) (fs_temp_sequence s)) mode ?t")
    have "fs_faults t = []" using quiet_step [OF quiet_calls(2) o] Suc.prems by simp
    then show ?case using Suc.IH o by (auto split: sum.splits)
  qed simp
qed

lemma quiet_write_and_sync [quiet_intros]: "quiet (write_and_sync q m bs)"
  unfolding write_and_sync_def by (intro quiet_intros)

lemma quiet_verify_existing [quiet_intros]: "quiet (verify_existing L i q)"
  unfolding verify_existing_def by (intro quiet_intros) (simp add: quiet_def)

lemma quiet_ret: "quiet (\<lambda>s. (r, s))"
  by (simp add: quiet_def)

lemma cas_put_quiet:
  assumes "fs_faults s = []" "cas_put L base bytes s = (r, s')"
  shows "fs_faults s' = []"
proof -
  let ?i = "content_of L bytes" and ?q = "path_for L base (content_of L bytes)"
  obtain there s0 where p: "path_exists ?q s = (there, s0)" by (cases "path_exists ?q s")
  have s0: "fs_faults s0 = []" using quiet_step [OF quiet_path_exists p assms(1)] .
  have rem: "fs_faults u = [] \<Longrightarrow> fs_faults (snd (remove_file t u)) = []" for t u
    using quiet_calls(5) by (simp add: quiet_def)
  have pub: "quiet (\<lambda>s. case write_and_sync t None bytes s of
          (Inl e, s) \<Rightarrow> (Inl (CasIo e), snd (remove_file t s))
        | (Inr _, s) \<Rightarrow>
            (case hard_link t ?q s of
               (Inr _, s) \<Rightarrow> bind_cas (lift_cas (remove_file t)) (\<lambda>_ s. (Inr ?i, s)) s
             | (Inl e, s) \<Rightarrow>
                 let s = snd (remove_file t s) in
                 if e = AlreadyExists then bind_cas (verify_existing L ?i ?q) (\<lambda>_ s. (Inr ?i, s)) s
                 else (Inl (CasIo e), s)))" for t
    unfolding quiet_def
  proof (intro allI impI, goal_cases)
    case (1 u)
    obtain w u1 where w: "write_and_sync t None bytes u = (w, u1)" by (cases "write_and_sync t None bytes u")
    have u1: "fs_faults u1 = []" using quiet_step [OF quiet_write_and_sync w 1] .
    obtain h u2 where h: "hard_link t ?q u1 = (h, u2)" by (cases "hard_link t ?q u1")
    have u2: "fs_faults u2 = []" using quiet_step [OF quiet_calls(7) h u1] .
    have v: "quiet (bind_cas (verify_existing L ?i ?q) (\<lambda>_ s. (Inr ?i, s)))"
      "quiet (bind_cas (lift_cas (remove_file t)) (\<lambda>_ s. (Inr ?i, s)))"
      by (intro quiet_intros quiet_ret)+
    show ?case using w h u1 u2 rem [of u1 t] rem [of u2 t] v
      by (auto simp: quiet_def Let_def split: sum.splits)
  qed
  have all: "quiet (bind_cas (verify_existing L ?i ?q) (\<lambda>_ s. (Inr ?i, s)))"
    by (intro quiet_intros quiet_ret)
  have "quiet (\<lambda>s. temp_loop (temp_rounds s) (butlast ?q) (content_hex_digest L ?i) None s)"
    using quiet_temp_loop by (simp add: quiet_def)
  note all2 = quiet_bind_cas [OF quiet_lift_cas [OF quiet_calls(1)] quiet_bind_cas [OF quiet_lift_cas [OF this] pub]]
  show ?thesis
    using assms(2) p quiet_step [OF all _ s0] quiet_step [OF all2 _ s0]
    by (auto simp: cas_put_def Let_def split: if_splits)
qed

lemma quiet_more [quiet_intros]:
  "quiet m \<Longrightarrow> (\<And>x. quiet (f x)) \<Longrightarrow> (\<And>e. quiet (h e)) \<Longrightarrow> quiet (match_io m f h)"
  "quiet m \<Longrightarrow> quiet k \<Longrightarrow> quiet (ignore_io m k)" "quiet (err_io e)" "quiet (ret_io x)"
  by (auto simp: quiet_def match_io_def ignore_io_def err_io_def ret_io_def split: prod.splits sum.splits)

lemma quiet_action [quiet_intros]:
  "quiet m \<Longrightarrow> (\<And>x. quiet (k x)) \<Longrightarrow> quiet (bind_m m k)" "quiet m \<Longrightarrow> quiet (from_m g m)" "quiet (pure_m r)"
  "quiet m \<Longrightarrow> quiet n \<Longrightarrow> quiet (if c then m else n)"
  by (auto simp: quiet_def bind_m_def from_m_def split: prod.splits sum.splits)

lemma quiet_unique_temporary [quiet_intros]: "quiet (unique_temporary parent name mode)"
  using quiet_temp_loop by (simp add: quiet_def unique_temporary_def)

lemma quiet_atomic [quiet_intros]: "quiet (atomic_create q bytes mode)" "quiet (atomic_replace q bytes mode)"
  unfolding atomic_create_def atomic_replace_def sync_directory_def
  by (cases "path_parent q"; simp only: option.case; intro quiet_intros)+

text \<open>Without faults a published file is also tidied up, so a creation that fails changed nothing.\<close>

lemma tidy_calm:
  assumes "fs_faults s = []" "node_at s t = Some (File b m)" "node_at s p = Some Dir" "t \<noteq> []"
  shows "\<exists>s'. bind_io (remove_file t) (\<lambda>_. sync_directory p) s = (Inr (), s')"
proof -
  have "fs_faults (del_node t s) = []" using assms(1) by (simp add: del_node_def)
  moreover have "node_at (del_node t s) p = Some Dir" using assms by (auto simp: node_at_del_node)
  ultimately show ?thesis using assms
    by (auto simp: bind_io_def remove_file_def syscall_def sync_directory_def open_dir_def sync_all_def ret_io_def)
qed

lemma atomic_create_refused:
  assumes "fs_faults s = []" "atomic_create q bytes mode s = (Inl e, s')"
  shows "node_at s' q = node_at s q"
proof (cases "q = []")
  case False
  let ?n = "case file_name q of Some n \<Rightarrow> n | None \<Rightarrow> ''data''"
  have neq: "q \<noteq> temp_path (butlast q) ?n pid i" for pid i
    using False by (intro temp_path_neq [symmetric]) (simp add: file_name_def)
  have "bind_io (create_dir_all (butlast q)) (\<lambda>_. bind_io (unique_temporary (butlast q) (file_name q) mode) (\<lambda>t.
      match_io (write_and_sync t mode bytes)
        (\<lambda>_. match_io (hard_link t q) (\<lambda>_. bind_io (remove_file t) (\<lambda>_. sync_directory (butlast q)))
           (\<lambda>e. ignore_io (remove_file t) (err_io e)))
        (\<lambda>e. ignore_io (remove_file t) (err_io e)))) s = (Inl e, s')"
    using assms(2) False by (simp add: atomic_create_def path_parent_def)
  then show ?thesis
  proof (cases rule: bind_io_cases)
    case (Err e')
    then show ?thesis using create_dir_all_effect [OF Err(1)] dirs_added_parent [OF _ False] by blast
  next
    case (Ok u s1)
    note c = create_dir_all_effect [OF Ok(1)] and f1 = quiet_step [OF quiet_calls(1) Ok(1) assms(1)]
    have q1: "node_at s1 q = node_at s q" using c dirs_added_parent [OF _ False] by blast
    from Ok(2) show ?thesis
    proof (cases rule: bind_io_cases)
      case (Err e')
      then show ?thesis using temp_loop_effect [of _ "butlast q" _ mode s1 "Inl e'" s'] q1
        by (auto simp: unique_temporary_def)
    next
      case (Ok t s2)
      note f2 = quiet_step [OF quiet_unique_temporary Ok(1) f1]
      from temp_loop_effect [OF Ok(1) [unfolded unique_temporary_def]] obtain i where
        t: "t = temp_path (butlast q) ?n (fs_pid s1) i" "node_at s1 t = None"
          "node_at s2 = (node_at s1)(t \<mapsto> File [] mode)" by auto
      have "t \<noteq> q" using t(1) neq [of "fs_pid s1" i] by blast
      then have tq: "t \<noteq> q" "t \<noteq> []" "t \<noteq> butlast q" using t temp_path_not_Nil c by auto
      from Ok(2) show ?thesis
      proof (cases rule: match_io_cases)
        case (Err e' s3)
        then show ?thesis using ignored_remove [OF Err(2)] write_and_sync_effect [OF Err(1) tq(2)] t(3) tq(1) q1 by auto
      next
        case (Ok w s3)
        note f3 = quiet_step [OF quiet_write_and_sync Ok(1) f2]
        have s3: "node_at s3 = (node_at s1)(t \<mapsto> File bytes mode)"
          using write_and_sync_effect [OF Ok(1) tq(2)] t(3) by auto
        from Ok(2) show ?thesis
        proof (cases rule: match_io_cases)
          case (Err e' s4)
          then show ?thesis using ignored_remove [OF Err(2)] hard_link_effect [OF Err(1)] s3 tq(1) q1 by auto
        next
          case (Ok w s4)
          note f4 = quiet_step [OF quiet_calls(7) Ok(1) f3]
          have "butlast q \<noteq> q" using False by (metis append_butlast_last_id append_self_conv not_Cons_self2)
          then have "node_at s4 t = Some (File bytes mode)" "node_at s4 (butlast q) = Some Dir"
            using hard_link_effect [OF Ok(1)] s3 tq c by auto
          then show ?thesis using tidy_calm [OF f4 _ _ tq(2)] Ok(2) by fastforce
        qed
      qed
    qed
  qed
qed (use assms(2) in \<open>simp add: atomic_create_def path_parent_def err_io_def\<close>)

lemma temp_loop_calm:
  "temp_loop n parent name mode s = (Inl e, s') \<Longrightarrow> fs_faults s = [] \<Longrightarrow> node_at s parent = Some Dir \<Longrightarrow>
     e = NamesExhausted"
proof (induction n arbitrary: s)
  case (Suc n)
  let ?t = "s\<lparr>fs_temp_sequence := fs_temp_sequence s + 1\<rparr>"
  let ?c = "temp_path parent name (fs_pid s) (fs_temp_sequence s)"
  have "butlast ?c = parent" by (simp add: temp_path_def)
  then have o: "open_new ?c mode ?t = (if node_at s ?c \<noteq> None then (Inl AlreadyExists, ?t) else (Inr (), set_node ?c (File [] mode) ?t))"
    using Suc.prems(2,3) by (simp add: open_new_def syscall_def)
  then have "temp_loop n parent name mode ?t = (Inl e, s')"
    using Suc.prems(1) by (auto simp: Let_def split: if_splits)
  then show ?case using Suc.IH [of ?t] Suc.prems by simp
qed simp

lemma atomic_create_succeeds:
  assumes "fs_faults s = []" "q \<noteq> []" "node_at s q = None" "\<And>p r. butlast q = p @ r \<Longrightarrow> node_at s p = Some Dir"
    and "length (fs_nodes s) < 2 ^ 64 - 1"
  shows "fst (atomic_create q bytes mode s) = Inr ()"
proof -
  let ?n = "case file_name q of Some n \<Rightarrow> n | None \<Rightarrow> ''data''"
  have dir: "node_at s (butlast q) = Some Dir" using assms(4) by (metis append_Nil2)
  have cd: "create_dir_all (butlast q) s = (Inr (), s)"
    using assms(1) make_dirs_noop [of "butlast q" s "[]"] assms(4) by (simp add: create_dir_all_def syscall_def)
  obtain r1 s1 where ut: "unique_temporary (butlast q) (file_name q) mode s = (r1, s1)"
    by (cases "unique_temporary (butlast q) (file_name q) mode s")
  have "r1 \<noteq> Inl NamesExhausted"
    using temp_loop_terminates [of s "butlast q" ?n mode] assms(1,5) ut by (auto simp: unique_temporary_def temp_rounds_def)
  then obtain t where r1: "r1 = Inr t"
    using temp_loop_calm [OF _ assms(1) dir] ut by (cases r1) (auto simp: unique_temporary_def)
  from temp_loop_effect [OF ut [unfolded unique_temporary_def]] r1 obtain i where
    t: "t = temp_path (butlast q) ?n (fs_pid s) i" "node_at s t = None" "node_at s1 = (node_at s)(t \<mapsto> File [] mode)"
    by auto
  have "t \<noteq> q" using t(1) temp_path_neq [of q ?n] assms(2) by (simp add: file_name_def)
  then have tq: "t \<noteq> q" "t \<noteq> []" "t \<noteq> butlast q" using t temp_path_not_Nil dir by auto
  have f1: "fs_faults s1 = []" using quiet_step [OF quiet_unique_temporary ut assms(1)] .
  let ?s2 = "set_node t (File bytes mode) s1"
  have f2: "fs_faults ?s2 = []" using f1 by (simp add: set_node_def)
  have n2: "node_at ?s2 = (node_at s)(t \<mapsto> File bytes mode)" using t(3) tq(2) by (simp add: node_at_set_node)
  have w: "write_and_sync t mode bytes s1 = (Inr (), ?s2)"
    using f1 f2 by (simp add: write_and_sync_def bind_io_def write_all_def syscall_def sync_all_def ret_io_def)
  let ?s3 = "set_node q (File bytes mode) ?s2"
  have h: "hard_link t q ?s2 = (Inr (), ?s3)"
    using f2 n2 tq assms(3) dir by (simp add: hard_link_def syscall_def)
  have "butlast q \<noteq> q" using assms(2) by (metis append_butlast_last_id append_self_conv not_Cons_self2)
  then have "node_at ?s3 t = Some (File bytes mode)" "node_at ?s3 (butlast q) = Some Dir"
    using n2 tq dir assms(2) by (simp_all add: node_at_set_node)
  moreover have "fs_faults ?s3 = []" using f2 by (simp add: set_node_def)
  ultimately obtain s4 where "bind_io (remove_file t) (\<lambda>_. sync_directory (butlast q)) ?s3 = (Inr (), s4)"
    using tidy_calm [OF _ _ _ tq(2)] by blast
  then show ?thesis using cd ut r1 w h assms(2)
    by (simp add: atomic_create_def path_parent_def bind_io_def match_io_def)
qed

lemma cas_get_calm:
  assumes "fs_faults s = []"
  shows "cas_get L base i s =
    (case node_at s (path_for L base i) of
       None \<Rightarrow> Inl (CasNotFound i)
     | Some Dir \<Rightarrow> Inl (CasIo IsADirectory)
     | Some (File b m) \<Rightarrow> if content_verify L i b then Inr b else Inl (CasCorrupt i), s)"
  using assms by (simp add: cas_get_def read_file_def syscall_def split: option.splits node.splits)

interpretation cas: content_store "cas_put L base" "cas_get L base" "content_of L" "\<lambda>s. fs_faults s = []" for L base
proof
  fix b s i t assume "cas_put L base b s = (Inr i, t)"
  from cas_put_outcome [OF this] show "content_of L b = i" by (simp add: cas_outcome_def)
next
  fix b s r t assume "cas_put L base b s = (r, t)" "fs_faults s = []"
  then show "fs_faults t = []" using cas_put_quiet by blast
next
  fix i s b t assume "cas_get L base i s = (Inr b, t)"
  then show "content_of L b = i"
    by (auto simp: cas_get_def content_verify_def split: prod.splits sum.splits if_splits)
next
  fix b s i t assume p: "cas_put L base b s = (Inr i, t)" and c: "fs_faults s = []"
  have "fs_faults t = []" using cas_put_quiet [OF c p] .
  then show "\<exists>b'. fst (cas_get L base i t) = Inr b'"
    using cas_put_outcome [OF p] by (auto simp: cas_outcome_def cas_get_calm)
next
  fix b s r t i b' assume p: "cas_put L base b s = (r, t)" and c: "fs_faults s = []"
    and g: "fst (cas_get L base i s) = Inr b'"
  have "node_at s (path_for L base i) \<noteq> None" using g c by (auto simp: cas_get_calm split: option.splits)
  then have "node_at t (path_for L base i) = node_at s (path_for L base i)"
    using cas_put_outcome [OF p] by (cases "path_for L base i = path_for L base (content_of L b)")
      (auto simp: cas_outcome_def untouched_def)
  then show "fst (cas_get L base i t) = Inr b'" using g c cas_put_quiet [OF c p] by (simp add: cas_get_calm)
qed

section \<open>Properties\<close>

text \<open>
  C9: Atomic replacement is all or nothing. Whatever system calls fail, at whatever point
  (a crash being a run in which every later call fails), the target holds either its old
  node or exactly the new bytes with the new mode, never a part of them; success means the
  new bytes; and no other existing path is changed.
\<close>

theorem atomic_replace_all_or_nothing:
  "let (r, s') = atomic_replace q bytes mode s in
     (node_at s' q = node_at s q \<or> node_at s' q = Some (File bytes mode))
     \<and> (if r = Inr () then node_at s' q = Some (File bytes mode) else True)
     \<and> untouched q s s'"
  by (cases "atomic_replace q bytes mode s") (auto dest!: atomic_replace_outcome)

text \<open>
  Atomic creation never replaces. Under any faults an existing target keeps its node and
  the call fails; a missing one stays missing or receives exactly the new bytes; success
  means it was created by this call; no other existing path is changed.
\<close>

theorem atomic_create_never_replaces:
  "let (r, s') = atomic_create q bytes mode s in
     (if node_at s q = None then node_at s' q \<in> {None, Some (File bytes mode)} else node_at s' q = node_at s q \<and> r \<noteq> Inr ())
     \<and> (if r = Inr () then node_at s' q = Some (File bytes mode) else True)
     \<and> untouched q s s'"
  by (cases "atomic_create q bytes mode s") (auto dest!: atomic_create_outcome)

text \<open>
  C10: The loop that looks for an unused temporary name ends with a name or a real I/O error
  in every file system with fewer than \<open>2 ^ 64\<close> entries and pending faults, because the names
  it draws are distinct.
\<close>

theorem unique_temporary_terminates:
  assumes "length (fs_nodes s) + length (fs_faults s) < 2 ^ 64"
    and "\<forall>k. Some (NamesExhausted, k) \<notin> set (fs_faults s)"
  shows "fst (unique_temporary parent name mode s) \<noteq> Inl NamesExhausted"
  using temp_loop_terminates [of s] assms unfolding unique_temporary_def by (simp add: temp_rounds_def)

definition example_fs :: fs where
  "example_fs = \<lparr>fs_nodes = [([''a''], Dir), ([''a'', ''.f.7.3.tmp''], File [9] None)],
     fs_faults = [Some (AlreadyExists, 0)], fs_temp_sequence = 2, fs_pid = 7\<rparr>"

theorem unique_temporary_terminates_witness:
  "fst (unique_temporary [''a''] (Some ''f'') None example_fs) \<noteq> Inl NamesExhausted"
  by (rule unique_temporary_terminates) (simp_all add: example_fs_def)

text \<open>
  The content store gives back what was put. Without I/O errors, after a successful put
  the returned identifier is the content's, reading it returns content with that same
  identifier (the very bytes, unless the two are a collision of the hash), and every object
  that could be read before still reads the same.
\<close>

theorem cas_put_then_get:
  assumes "fs_faults s = []" "cas_put L base bytes s = (Inr i, t)"
  shows "i = content_of L bytes
    \<and> (\<exists>b. fst (cas_get L base i t) = Inr b
         \<and> (b = bytes \<or> b \<noteq> bytes \<and> sha256 L b = sha256 L bytes))
    \<and> (\<forall>j. case fst (cas_get L base j s) of Inr c \<Rightarrow> fst (cas_get L base j t) = Inr c | Inl _ \<Rightarrow> True)"
proof -
  have "i = content_of L bytes" using cas.put_ident [OF assms(2)] by simp
  moreover have "\<exists>b. fst (cas_get L base i t) = Inr b \<and> (b = bytes \<or> b \<noteq> bytes \<and> sha256 L b = sha256 L bytes)"
    using cas.put_get_exact [OF assms(2,1)] by (auto simp: content_of_def)
  moreover have "fst (cas_get L base j t) = Inr c" if "fst (cas_get L base j s) = Inr c" for j c
    using cas.put_keeps [OF assms(2,1) that] .
  ultimately show ?thesis by (auto split: sum.splits)
qed

definition empty_fs :: fs where
  "empty_fs = \<lparr>fs_nodes = [], fs_faults = [], fs_temp_sequence = 0, fs_pid = 7\<rparr>"

lemma example_put:
  "fst (cas_put example_hash_lib [''cas''] [1, 2] empty_fs) = Inr (content_of example_hash_lib [1, 2])"
  by code_simp

theorem cas_put_then_get_witness:
  "\<exists>t b. cas_put example_hash_lib [''cas''] [1, 2] empty_fs = (Inr (content_of example_hash_lib [1, 2]), t)
     \<and> fst (cas_get example_hash_lib [''cas''] (content_of example_hash_lib [1, 2]) t) = Inr b"
proof -
  obtain t where t: "cas_put example_hash_lib [''cas''] [1, 2] empty_fs = (Inr (content_of example_hash_lib [1, 2]), t)"
    using example_put by (metis prod.collapse)
  have "fs_faults empty_fs = []" by (simp add: empty_fs_def)
  from cas_put_then_get [OF this t] t show ?thesis by blast
qed

end
