(* ===== verification/Identity.thy ===== *)
theory Identity
  imports Storage
begin

text \<open>
  \<open>crates/peerless-identity\<close> and the envelopes of \<open>crates/peerless-protocol\<close>. A libp2p key is
  represented by its key material; decoding, signing and verification are fields of \<open>id_lib\<close>.
\<close>

section \<open>The key library\<close>

datatype public_key = PublicKey bytes
datatype keypair = Keypair bytes
datatype peer_id = PeerId bytes

record id_lib = hash_lib +
  try_decode_protobuf :: "bytes \<Rightarrow> string + public_key"
  encode_protobuf :: "public_key \<Rightarrow> bytes"
  public_of :: "keypair \<Rightarrow> public_key"
  public_verify :: "public_key \<Rightarrow> bytes \<Rightarrow> bytes \<Rightarrow> bool"
  keypair_sign :: "keypair \<Rightarrow> bytes \<Rightarrow> string + bytes"
  from_protobuf_encoding :: "bytes \<Rightarrow> string + keypair"
  to_protobuf_encoding :: "keypair \<Rightarrow> string + bytes"

text \<open>
  Documented behaviour: encoded keys decode to themselves, signing succeeds and its
  signatures verify under the public key.
\<close>

definition sign_ok :: "'z id_lib_scheme \<Rightarrow> bool" where
  "sign_ok L \<longleftrightarrow> (\<forall>k. try_decode_protobuf L (encode_protobuf L (public_of L k)) = Inr (public_of L k))
     \<and> (\<forall>k m. \<exists>s. keypair_sign L k m = Inr s \<and> public_verify L (public_of L k) m s)"

definition keys_persist :: "'z id_lib_scheme \<Rightarrow> bool" where
  "keys_persist L \<longleftrightarrow> (\<forall>k. \<exists>b. to_protobuf_encoding L k = Inr b \<and> from_protobuf_encoding L b = Inr k)"

section \<open>Identities\<close>

datatype identity_error =
    IdIo io_error
  | IdInvalidKey string

record node_identity =
  ni_node_id :: node_id
  ni_keypair :: keypair
  ni_public_key :: bytes

definition identity_of :: "'z id_lib_scheme \<Rightarrow> keypair \<Rightarrow> node_identity" where
  "identity_of L keypair =
     (let public_key = encode_protobuf L (public_of L keypair) in
      \<lparr>ni_node_id = node_derive L public_key, ni_keypair = keypair, ni_public_key = public_key\<rparr>)"

definition identity_sign :: "'z id_lib_scheme \<Rightarrow> node_identity \<Rightarrow> bytes \<Rightarrow> identity_error + bytes" where
  "identity_sign L i message = map_err IdInvalidKey (keypair_sign L (ni_keypair i) message)"

definition verify :: "'z id_lib_scheme \<Rightarrow> bytes \<Rightarrow> bytes \<Rightarrow> bytes \<Rightarrow> identity_error + bool" where
  "verify L public_key message signature =
     bind_r (map_err IdInvalidKey (try_decode_protobuf L public_key)) (\<lambda>public.
     Inr (public_verify L public message signature))"

text \<open>
  The persistent key: \<open>load_or_generate\<close>. The generated key pair and the clock's nanoseconds
  are arguments. Symbolic links do not occur in the modelled file system, so the metadata
  checks are those on directories and regular files.
\<close>

type_synonym 'a idm = "fs \<Rightarrow> (identity_error + 'a) \<times> fs"

definition lift_id :: "'a io \<Rightarrow> 'a idm" where
  "lift_id m s = (let (r, s) = m s in (map_err IdIo r, s))"

definition bind_id :: "'a idm \<Rightarrow> ('a \<Rightarrow> 'b idm) \<Rightarrow> 'b idm" where
  "bind_id m f s = (case m s of (Inl e, s) \<Rightarrow> (Inl e, s) | (Inr x, s) \<Rightarrow> f x s)"

definition symlink_metadata :: "path \<Rightarrow> node io" where
  "symlink_metadata p = syscall (\<lambda>_ s. s) (\<lambda>s.
     case node_at s p of None \<Rightarrow> (Inl NotFound, s) | Some n \<Rightarrow> (Inr n, s))"

definition set_permissions :: "path \<Rightarrow> u32 \<Rightarrow> unit io" where
  "set_permissions p mode = syscall (\<lambda>_ s. s) (\<lambda>s.
     case node_at s p of
       None \<Rightarrow> (Inl NotFound, s)
     | Some Dir \<Rightarrow> (Inr (), s)
     | Some (File b _) \<Rightarrow> (Inr (), set_node p (File b (Some mode)) s))"

definition secure_key_metadata :: "path \<Rightarrow> unit idm" where
  "secure_key_metadata path =
     bind_id (lift_id (symlink_metadata path)) (\<lambda>metadata.
     if metadata = Dir
     then (\<lambda>s. (Inl (IdInvalidKey ''identity key must be a regular non-symlink file''), s))
     else lift_id (set_permissions path (6 * 8 * 8)))"

definition read_keypair :: "'z id_lib_scheme \<Rightarrow> path \<Rightarrow> keypair idm" where
  "read_keypair L key_path =
     bind_id (secure_key_metadata key_path) (\<lambda>_.
     bind_id (lift_id (read_file key_path)) (\<lambda>bytes s.
     (map_err IdInvalidKey (from_protobuf_encoding L bytes), s)))"

definition load_or_generate :: "'z id_lib_scheme \<Rightarrow> keypair \<Rightarrow> nat \<Rightarrow> path \<Rightarrow> node_identity idm" where
  "load_or_generate L generated nonce directory =
     bind_id (lift_id (create_dir_all directory)) (\<lambda>_.
     bind_id (lift_id (symlink_metadata directory)) (\<lambda>metadata.
     if metadata \<noteq> Dir
     then (\<lambda>s. (Inl (IdInvalidKey ''identity directory must be a real directory''), s))
     else
     bind_id (lift_id (set_permissions directory (7 * 8 * 8))) (\<lambda>_ s.
     let key_path = directory @ [''key.protobuf''];
         (there, s) = path_exists key_path s
     in
     bind_id
       (if there then read_keypair L key_path
        else
          bind_id (\<lambda>s. (map_err IdInvalidKey (to_protobuf_encoding L generated), s)) (\<lambda>encoded s.
          let temporary = directory @ [''.key.'' @ fmt_dec (fs_pid s) @ ''.'' @ fmt_dec nonce @ ''.tmp''] in
          bind_id (lift_id (open_new temporary (Some (6 * 8 * 8)))) (\<lambda>_.
          bind_id (lift_id (write_all temporary (Some (6 * 8 * 8)) encoded)) (\<lambda>_.
          bind_id (lift_id sync_all) (\<lambda>_ s.
          case hard_link temporary key_path s of
            (Inr _, s) \<Rightarrow> bind_id (lift_id (remove_file temporary)) (\<lambda>_ s. (Inr generated, s)) s
          | (Inl e, s) \<Rightarrow>
              if e = AlreadyExists then
                bind_id (lift_id (remove_file temporary)) (\<lambda>_. read_keypair L key_path) s
              else (Inl (IdIo e), snd (remove_file temporary s))))) s))
       (\<lambda>keypair s. (Inr (identity_of L keypair), s)) s)))"

section \<open>Signatures\<close>

definition identity_wf :: "'z id_lib_scheme \<Rightarrow> node_identity \<Rightarrow> bool" where
  "identity_wf L i \<longleftrightarrow> i = identity_of L (ni_keypair i)"

lemma identity_of_wf [simp]: "identity_wf L (identity_of L k)"
  by (simp add: identity_wf_def identity_of_def Let_def)

lemma identity_wf_fields:
  assumes "identity_wf L i"
  shows "ni_public_key i = encode_protobuf L (public_of L (ni_keypair i))"
    "ni_node_id i = node_derive L (ni_public_key i)"
  using assms unfolding identity_wf_def
  by (metis identity_of_def node_identity.select_convs(3), metis identity_of_def node_identity.select_convs(1,3))

lemma sign_verifies:
  assumes "sign_ok L" "identity_wf L i"
  obtains s where "identity_sign L i m = Inr s" "verify L (ni_public_key i) m s = Inr True"
proof -
  obtain s where "keypair_sign L (ni_keypair i) m = Inr s" "public_verify L (public_of L (ni_keypair i)) m s"
    using assms(1) unfolding sign_ok_def by blast
  then show ?thesis using that [of s] assms identity_wf_fields(1) [OF assms(2)]
    by (simp add: identity_sign_def verify_def sign_ok_def)
qed

lemma load_or_generate_wf:
  "load_or_generate L g n d s = (Inr i, s') \<Longrightarrow> identity_wf L i"
  by (auto simp: load_or_generate_def bind_id_def Let_def split: prod.splits sum.splits if_splits)

section \<open>A concrete key library\<close>

text \<open>A toy scheme for the witnesses: the signature is the key followed by the message.\<close>

fun key_material :: "keypair \<Rightarrow> bytes" where
  "key_material (Keypair b) = b"

fun public_material :: "public_key \<Rightarrow> bytes" where
  "public_material (PublicKey b) = b"

definition example_id_lib :: id_lib where
  "example_id_lib = \<lparr>sha256 = example_sha, hex_encode = (\<lambda>b. concat (map fmt_02x b)), hex_decode = unhex,
     try_decode_protobuf = (\<lambda>b. Inr (PublicKey b)),
     encode_protobuf = public_material,
     public_of = (\<lambda>k. PublicKey (key_material k)),
     public_verify = (\<lambda>p m s. s = public_material p @ m),
     keypair_sign = (\<lambda>k m. Inr (key_material k @ m)),
     from_protobuf_encoding = (\<lambda>b. Inr (Keypair b)),
     to_protobuf_encoding = (\<lambda>k. Inr (key_material k))\<rparr>"

lemma example_id_lib_ok: "sign_ok example_id_lib" "keys_persist example_id_lib"
proof -
  show "sign_ok example_id_lib" by (simp add: sign_ok_def example_id_lib_def)
  have "Keypair (key_material k) = k" for k by (cases k) simp
  then show "keys_persist example_id_lib" by (simp add: keys_persist_def example_id_lib_def)
qed

end
