(* ===== verification/Protocol.thy ===== *)
theory Protocol
  imports Identity
begin

text \<open>
  \<open>crates/peerless-protocol\<close>: messages, signed envelopes and signed execution records, and
  the length-delimited frames of \<open>crates/peerless-network\<close>. A serde instance is a pair of
  functions; what the code relies on is that serialisation succeeds and is undone by
  deserialisation.
\<close>

section \<open>Serialisation\<close>

datatype json_error = JsonError string

record 'a serde =
  to_vec :: "'a \<Rightarrow> json_error + bytes"
  from_slice :: "bytes \<Rightarrow> json_error + 'a"

definition serde_at :: "'a serde \<Rightarrow> 'a \<Rightarrow> bool" where
  "serde_at S x \<longleftrightarrow> (\<exists>b. to_vec S x = Inr b \<and> from_slice S b = Inr x)"

lemma serde_atE:
  assumes "serde_at S x"
  obtains b where "to_vec S x = Inr b" "from_slice S b = Inr x"
  using assms unfolding serde_at_def by blast

lemma serde_inj: "serde_at S x \<Longrightarrow> serde_at S y \<Longrightarrow> to_vec S x = Inr b \<Longrightarrow> to_vec S y = Inr b \<Longrightarrow> x = y"
  unfolding serde_at_def by (metis sum.inject(2))

text \<open>A concrete instance for a finite list of values: a value is written as its position.\<close>

fun position :: "'a \<Rightarrow> 'a list \<Rightarrow> nat option" where
  "position x [] = None"
| "position x (y # ys) = (if x = y then Some 0 else map_option Suc (position x ys))"

definition table_serde :: "'a list \<Rightarrow> 'a serde" where
  "table_serde xs =
     \<lparr>to_vec = (\<lambda>x. case position x xs of None \<Rightarrow> Inl (JsonError []) | Some n \<Rightarrow> Inr (be_of_nat 4 n)),
      from_slice = (\<lambda>b. if nat_of_be b < length xs then Inr (xs ! nat_of_be b) else Inl (JsonError []))\<rparr>"

lemma position_Some: "x \<in> set xs \<Longrightarrow> \<exists>n. position x xs = Some n \<and> n < length xs \<and> xs ! n = x"
  by (induction xs) auto

lemma table_serde_at:
  assumes "x \<in> set xs" "length xs < 256 ^ 4"
  shows "serde_at (table_serde xs) x"
proof -
  obtain n where n: "position x xs = Some n" "n < length xs" "xs ! n = x" using position_Some [OF assms(1)] by blast
  then have "nat_of_be (be_of_nat 4 n) = n" using assms(2) by (simp add: nat_of_be_of_nat)
  with n show ?thesis by (simp add: serde_at_def table_serde_def)
qed

section \<open>Signed envelopes\<close>

definition ENVELOPE_VERSION :: u16 where "ENVELOPE_VERSION = 1"

datatype protocol_error =
    PeUnsupportedVersion u16
  | PeSignerMismatch
  | PeInvalidSignature
  | PeIdentity identity_error
  | PeJson json_error

record signed_envelope =
  env_version :: u16
  env_signer :: node_id
  env_public_key :: bytes
  env_payload :: bytes
  env_signature :: bytes

definition envelope_seal ::
  "'z id_lib_scheme \<Rightarrow> 'a serde \<Rightarrow> 'a \<Rightarrow> node_identity \<Rightarrow> protocol_error + signed_envelope" where
  "envelope_seal L S v identity =
     bind_r (map_err PeJson (to_vec S v)) (\<lambda>payload.
     bind_r (map_err PeIdentity (identity_sign L identity payload)) (\<lambda>signature.
     Inr \<lparr>env_version = ENVELOPE_VERSION, env_signer = ni_node_id identity,
          env_public_key = ni_public_key identity, env_payload = payload, env_signature = signature\<rparr>))"

definition open_with_signer ::
  "'z id_lib_scheme \<Rightarrow> 'a serde \<Rightarrow> signed_envelope \<Rightarrow> protocol_error + 'a \<times> node_id" where
  "open_with_signer L S e =
     (if env_version e \<noteq> ENVELOPE_VERSION then Inl (PeUnsupportedVersion (env_version e))
      else
        let derived = node_derive L (env_public_key e) in
        if derived \<noteq> env_signer e then Inl PeSignerMismatch
        else
          bind_r (map_err PeIdentity (verify L (env_public_key e) (env_payload e) (env_signature e))) (\<lambda>ok.
          if \<not> ok then Inl PeInvalidSignature
          else bind_r (map_err PeJson (from_slice S (env_payload e))) (\<lambda>v. Inr (v, env_signer e))))"

definition envelope_open ::
  "'z id_lib_scheme \<Rightarrow> 'a serde \<Rightarrow> signed_envelope \<Rightarrow> protocol_error + 'a" where
  "envelope_open L S e = bind_r (open_with_signer L S e) (\<lambda>(v, _). Inr v)"

section \<open>Execution records and messages\<close>

record execution_record =
  er_task_id :: string
  er_executor :: node_id
  er_component :: content_id
  er_input :: content_id
  er_output :: content_id
  er_execution_hash :: content_id
  er_started_at :: u64
  er_completed_at :: u64

record signed_execution_record =
  ser_record :: execution_record
  ser_signer :: node_id
  ser_public_key :: bytes
  ser_signature :: bytes

definition ser_seal ::
  "'z id_lib_scheme \<Rightarrow> execution_record serde \<Rightarrow> execution_record \<Rightarrow> node_identity \<Rightarrow>
     protocol_error + signed_execution_record" where
  "ser_seal L S r identity =
     bind_r (map_err PeJson (to_vec S r)) (\<lambda>payload.
     bind_r (map_err PeIdentity (identity_sign L identity payload)) (\<lambda>signature.
     Inr \<lparr>ser_record = r, ser_signer = ni_node_id identity, ser_public_key = ni_public_key identity,
          ser_signature = signature\<rparr>))"

definition ser_verify ::
  "'z id_lib_scheme \<Rightarrow> execution_record serde \<Rightarrow> signed_execution_record \<Rightarrow> protocol_error + bool" where
  "ser_verify L S r =
     (if node_derive L (ser_public_key r) \<noteq> ser_signer r \<or> er_executor (ser_record r) \<noteq> ser_signer r
      then Inr False
      else
        bind_r (map_err PeJson (to_vec S (ser_record r))) (\<lambda>payload.
        map_err PeIdentity (verify L (ser_public_key r) payload (ser_signature r))))"

datatype message =
    GetCapability
  | Capability node_capability
  | TaskOffer task node_id u64
  | TaskAccept string
  | TaskReject string string
  | TaskCommit string
  | TaskStarted string node_id
  | TaskError string string
  | TaskCancel string
  | HasContent content_id
  | CheckContent content_id
  | GetContent content_id
  | Content content_id bytes
  | ContentStart content_id u64 u32
  | ContentChunk content_id u32 bytes content_id
  | ContentComplete content_id
  | TaskResult signed_execution_record
  | StateSnapshot string bytes
  | LedgerBlock bytes

section \<open>Frames\<close>

definition MAX_FRAME :: nat where "MAX_FRAME = 64 * 1024 * 1024"

datatype network_error =
    NetIo io_error
  | NetJson json_error
  | NetFrameTooLarge

text \<open>
  A stream is the bytes written so far, or the bytes still to be read; a connection that
  ends early gives \<open>UnexpectedEof\<close>.
\<close>

definition write_frame :: "signed_envelope serde \<Rightarrow> bytes \<Rightarrow> signed_envelope \<Rightarrow> network_error + bytes" where
  "write_frame S stream e =
     bind_r (map_err NetJson (to_vec S e)) (\<lambda>bytes.
     if length bytes > MAX_FRAME then Inl NetFrameTooLarge
     else Inr (stream @ u32_be (of_nat (length bytes)) @ bytes))"

definition read_exact :: "nat \<Rightarrow> bytes \<Rightarrow> network_error + bytes \<times> bytes" where
  "read_exact n stream =
     (if length stream < n then Inl (NetIo UnexpectedEof) else Inr (take n stream, drop n stream))"

definition read_frame :: "signed_envelope serde \<Rightarrow> bytes \<Rightarrow> network_error + signed_envelope \<times> bytes" where
  "read_frame S stream =
     bind_r (read_exact 4 stream) (\<lambda>(size, stream).
     let size = unat (be_u32 size) in
     if size > MAX_FRAME then Inl NetFrameTooLarge
     else
       bind_r (read_exact size stream) (\<lambda>(bytes, stream).
       bind_r (map_err NetJson (from_slice S bytes)) (\<lambda>e. Inr (e, stream))))"

section \<open>Lemmas\<close>

lemma envelope_round_trip:
  assumes "sign_ok L" "serde_at S v" "identity_wf L i"
  obtains e where "envelope_seal L S v i = Inr e" "open_with_signer L S e = Inr (v, ni_node_id i)"
proof -
  obtain b where b: "to_vec S v = Inr b" "from_slice S b = Inr v" using serde_atE [OF assms(2)] .
  obtain s where s: "identity_sign L i b = Inr s" "verify L (ni_public_key i) b s = Inr True"
    using sign_verifies [OF assms(1,3)] .
  show ?thesis
    by (rule that) (use b s in \<open>auto simp: envelope_seal_def open_with_signer_def
      identity_wf_fields(2) [OF assms(3), symmetric]\<close>)
qed

lemma open_with_signer_Inr:
  "open_with_signer L S e = Inr (v, n) \<longleftrightarrow> env_version e = 1 \<and> n = env_signer e
     \<and> node_derive L (env_public_key e) = n \<and> verify L (env_public_key e) (env_payload e) (env_signature e) = Inr True
     \<and> from_slice S (env_payload e) = Inr v"
  by (auto simp: open_with_signer_def ENVELOPE_VERSION_def Let_def result_simps split: if_splits)

lemma ser_round_trip:
  assumes "sign_ok L" "serde_at S r" "identity_wf L i" "er_executor r = ni_node_id i"
  obtains s where "ser_seal L S r i = Inr s" "ser_verify L S s = Inr True" "ser_record s = r" "ser_signer s = ni_node_id i"
proof -
  obtain b where b: "to_vec S r = Inr b" using serde_atE [OF assms(2)] by metis
  obtain s where s: "identity_sign L i b = Inr s" "verify L (ni_public_key i) b s = Inr True"
    using sign_verifies [OF assms(1,3)] .
  show ?thesis
    by (rule that) (use b s assms(4) in \<open>auto simp: ser_seal_def ser_verify_def
      identity_wf_fields(2) [OF assms(3), symmetric]\<close>)
qed

lemma read_written_frame:
  assumes "serde_at S e" "write_frame S stream e = Inr out"
  shows "\<exists>frame. out = stream @ frame \<and> length frame \<le> MAX_FRAME + 4 \<and> read_frame S (frame @ rest) = Inr (e, rest)"
proof -
  obtain b where b: "to_vec S e = Inr b" "from_slice S b = Inr e" using serde_atE [OF assms(1)] .
  then have len: "length b \<le> MAX_FRAME" and out: "out = stream @ u32_be (of_nat (length b)) @ b"
    using assms(2) by (auto simp: write_frame_def split: if_splits)
  have "unat (of_nat (length b) :: u32) = length b" using len by (simp add: MAX_FRAME_def unat_of_nat)
  then have "read_frame S ((u32_be (of_nat (length b)) @ b) @ rest) = Inr (e, rest)"
    using b len by (simp add: read_frame_def read_exact_def)
  then show ?thesis using out len by (intro exI [of _ "u32_be (of_nat (length b)) @ b"]) simp
qed

section \<open>Properties\<close>

text \<open>
  C11: What is sealed, framed and sent arrives authentic. A value sealed by an identity gives
  an envelope that opens to the value and the node that sealed it. If its encoding has at
  most 64 MiB, writing it succeeds and appends one frame, four bytes longer than the
  encoding, which a reader takes off the stream exactly, leaving what follows; if it is
  longer, writing fails with \<open>FrameTooLarge\<close>.
\<close>

theorem sealed_frame_round_trip:
  assumes "sign_ok L" "identity_wf L i" "serde_at S v"
    and "\<forall>e. envelope_seal L S v i = Inr e \<longrightarrow> serde_at E e"
  shows "\<exists>e b. envelope_seal L S v i = Inr e \<and> open_with_signer L S e = Inr (v, ni_node_id i) \<and> to_vec E e = Inr b
    \<and> (if length b \<le> 67108864
       then \<exists>frame. write_frame E stream e = Inr (stream @ frame) \<and> length frame = length b + 4
              \<and> read_frame E (frame @ rest) = Inr (e, rest)
       else write_frame E stream e = Inl NetFrameTooLarge)"
proof -
  obtain e where e: "envelope_seal L S v i = Inr e" "open_with_signer L S e = Inr (v, ni_node_id i)"
    using envelope_round_trip [OF assms(1,3,2)] .
  have at: "serde_at E e" using assms(4) e(1) by blast
  then obtain b where b: "to_vec E e = Inr b" using serde_atE [OF at] by metis
  have "if length b \<le> 67108864
      then write_frame E stream e = Inr (stream @ u32_be (of_nat (length b)) @ b)
      else write_frame E stream e = Inl NetFrameTooLarge"
    using b by (simp add: write_frame_def MAX_FRAME_def)
  then show ?thesis using e b read_written_frame [OF at, of stream _ rest] by (fastforce split: if_splits)
qed

definition example_envelope :: signed_envelope where
  "example_envelope = \<lparr>env_version = 1, env_signer = node_derive example_id_lib [1], env_public_key = [1],
     env_payload = [0, 0, 0, 0], env_signature = [1, 0, 0, 0, 0]\<rparr>"

theorem sealed_frame_round_trip_witness:
  "open_with_signer example_id_lib (table_serde [TaskCommit ''t'']) example_envelope
     = Inr (TaskCommit ''t'', ni_node_id (identity_of example_id_lib (Keypair [1])))
   \<and> write_frame (table_serde [example_envelope]) [5] example_envelope = Inr ([5] @ [0, 0, 0, 4, 0, 0, 0, 0])
   \<and> read_frame (table_serde [example_envelope]) ([0, 0, 0, 4, 0, 0, 0, 0] @ [6]) = Inr (example_envelope, [6])"
proof -
  have seal: "envelope_seal example_id_lib (table_serde [TaskCommit ''t'']) (TaskCommit ''t'')
      (identity_of example_id_lib (Keypair [1])) = Inr example_envelope"
    by code_simp
  have enc: "be_of_nat 4 0 = [0, 0, 0, 0]" "u32_be 4 = [0, 0, 0, 4]" by code_simp+
  have wr: "to_vec (table_serde [example_envelope]) example_envelope = Inr [0, 0, 0, 0]"
    "write_frame (table_serde [example_envelope]) [5] example_envelope = Inr ([5] @ [0, 0, 0, 4, 0, 0, 0, 0])"
    by (simp_all add: write_frame_def table_serde_def MAX_FRAME_def enc)
  have at: "serde_at (table_serde [TaskCommit ''t'']) (TaskCommit ''t'')"
    "serde_at (table_serde [example_envelope]) example_envelope"
    by (rule table_serde_at; simp)+
  from sealed_frame_round_trip [OF example_id_lib_ok(1) identity_of_wf at(1), of "Keypair [1]"
      "table_serde [example_envelope]" "[5]" "[6]"]
  show ?thesis unfolding seal using at(2) wr by auto
qed

end
