(* ===== verification/Merkle.thy ===== *)
theory Merkle
  imports Core
begin

text \<open>
  The Merkle trees of \<open>crates/peerless-ledger\<close>: root, inclusion proof and its check. Levels
  of odd length repeat their last hash before the hashes are paired.
\<close>

unbundle bit_operations_syntax

type_synonym hash = bytes

section \<open>Model\<close>

definition pair_hash :: "'z hash_lib_scheme \<Rightarrow> hash \<Rightarrow> hash \<Rightarrow> hash" where
  "pair_hash L left right = sha256 L (left @ right)"

text \<open>\<open>as_chunks::<2>().0\<close> mapped with \<open>pair_hash\<close>.\<close>

fun pair_up :: "'z hash_lib_scheme \<Rightarrow> hash list \<Rightarrow> hash list" where
  "pair_up L (l # r # level) = pair_hash L l r # pair_up L level"
| "pair_up L _ = []"

definition pad_level :: "hash list \<Rightarrow> hash list" where
  "pad_level level = (if length level mod 2 = 1 then level @ [last level] else level)"

lemma length_pair_up: "length (pair_up L level) = length level div 2"
  by (induction L level rule: pair_up.induct) simp_all

lemma length_next_level: "length (pair_up L (pad_level level)) = (length level + 1) div 2"
  by (simp add: pad_level_def length_pair_up) presburger

lemma next_level_less: "1 < length level \<Longrightarrow> length (pair_up L (pad_level level)) < length level"
  unfolding length_next_level by linarith

function merkle_loop :: "'z hash_lib_scheme \<Rightarrow> hash list \<Rightarrow> hash" where
  "merkle_loop L level =
     (if length level > 1 then merkle_loop L (pair_up L (pad_level level)) else level ! 0)"
  by pat_completeness auto
termination
  by (relation "measure (\<lambda>(L, level). length level)") (simp_all add: next_level_less)

declare merkle_loop.simps [simp del]

definition merkle_root :: "'z hash_lib_scheme \<Rightarrow> hash list \<Rightarrow> hash" where
  "merkle_root L leaves = (if leaves = [] then sha256 L [] else merkle_loop L leaves)"

record merkle_proof_t =
  mp_index :: nat
  mp_siblings :: "hash list"

function proof_loop :: "'z hash_lib_scheme \<Rightarrow> hash list \<Rightarrow> nat \<Rightarrow> hash list" where
  "proof_loop L level cursor =
     (if length level > 1
      then pad_level level ! (cursor XOR 1) # proof_loop L (pair_up L (pad_level level)) (cursor div 2)
      else [])"
  by pat_completeness auto
termination
  by (relation "measure (\<lambda>(L, level, cursor). length level)") (simp_all add: next_level_less)

declare proof_loop.simps [simp del]

definition merkle_proof :: "'z hash_lib_scheme \<Rightarrow> hash list \<Rightarrow> nat \<Rightarrow> merkle_proof_t option" where
  "merkle_proof L leaves index =
     (if index \<ge> length leaves then None
      else Some \<lparr>mp_index = index, mp_siblings = proof_loop L leaves index\<rparr>)"

fun climb :: "'z hash_lib_scheme \<Rightarrow> hash \<Rightarrow> nat \<Rightarrow> hash list \<Rightarrow> hash" where
  "climb L current index [] = current"
| "climb L current index (sibling # siblings) =
     climb L (if index mod 2 = 0 then pair_hash L current sibling else pair_hash L sibling current)
       (index div 2) siblings"

definition merkle_verify :: "'z hash_lib_scheme \<Rightarrow> merkle_proof_t \<Rightarrow> hash \<Rightarrow> hash \<Rightarrow> bool" where
  "merkle_verify L p leaf target \<longleftrightarrow> climb L leaf (mp_index p) (mp_siblings p) = target"

section \<open>Completeness\<close>

lemma nth_pair_up:
  "2 * i + 1 < length level \<Longrightarrow> pair_up L level ! i = pair_hash L (level ! (2 * i)) (level ! (2 * i + 1))"
proof (induction L level arbitrary: i rule: pair_up.induct)
  case (1 L l r level)
  then show ?case by (cases i) simp_all
qed simp_all

lemma pad_level_length: "even (length (pad_level level))" "length level \<le> length (pad_level level)"
  by (auto simp: pad_level_def)

lemma pad_level_nth: "i < length level \<Longrightarrow> pad_level level ! i = level ! i"
  by (simp add: pad_level_def nth_append)

lemma xor_1_nat: "(i :: nat) XOR Suc 0 = (if even i then Suc i else i - 1)"
  using xor_one_eq [of i] by simp

text \<open>One step up from position \<open>i\<close> gives the hash at position \<open>i div 2\<close> of the next level.\<close>

lemma step_up:
  assumes "i < length level"
  shows "(if i mod 2 = 0 then pair_hash L (level ! i) (pad_level level ! (i XOR 1))
          else pair_hash L (pad_level level ! (i XOR 1)) (level ! i))
       = pair_up L (pad_level level) ! (i div 2)"
proof -
  have len: "2 * (i div 2) + 1 < length (pad_level level)"
    using assms pad_level_length [of level] by (auto elim!: evenE)  presburger
  have self: "pad_level level ! i = level ! i" using assms by (rule pad_level_nth)
  show ?thesis
  proof (cases "even i")
    case True
    then show ?thesis using nth_pair_up [OF len, of L] self by (auto simp: xor_1_nat elim!: evenE)
  next
    case False
    then show ?thesis using nth_pair_up [OF len, of L] self by (auto simp: xor_1_nat elim!: oddE)
  qed
qed

lemma climb_proof_loop:
  "i < length level \<Longrightarrow> climb L (level ! i) i (proof_loop L level i) = merkle_loop L level"
proof (induction L level i rule: proof_loop.induct)
  case (1 L level i)
  show ?case
  proof (cases "length level > 1")
    case True
    have "i div 2 < length (pair_up L (pad_level level))" using 1(2) True by (simp add: length_next_level)
    then have "climb L (pair_up L (pad_level level) ! (i div 2)) (i div 2)
        (proof_loop L (pair_up L (pad_level level)) (i div 2)) = merkle_loop L (pair_up L (pad_level level))"
      using 1(1) [OF True] by simp
    then show ?thesis using True
      unfolding proof_loop.simps [of L level] merkle_loop.simps [of L level] step_up [OF 1(2), of L, symmetric]
      by (cases "i mod 2 = 0") simp_all
  next
    case False
    then obtain a where "level = [a]" using 1(2) by (cases level) auto
    then show ?thesis using 1(2)
      by (simp add: proof_loop.simps [of L "[a]"] merkle_loop.simps [of L "[a]"])
  qed
qed

section \<open>Soundness\<close>

text \<open>
  The strings that are hashed while a root is computed and while a proof is checked. Every
  hash of a tree is a leaf or the hash of such a string. A climb that ends in the root
  starts from a hash of the tree, unless it passes through a leaf or two different strings
  of the lists have the same hash.
\<close>

fun join :: "hash \<Rightarrow> nat \<Rightarrow> hash \<Rightarrow> bytes" where
  "join current index sibling = (if index mod 2 = 0 then current @ sibling else sibling @ current)"

fun climb_inputs :: "'z hash_lib_scheme \<Rightarrow> hash \<Rightarrow> nat \<Rightarrow> hash list \<Rightarrow> bytes list" where
  "climb_inputs L current index [] = []"
| "climb_inputs L current index (sibling # siblings) =
     join current index sibling # climb_inputs L (sha256 L (join current index sibling)) (index div 2) siblings"

fun pair_inputs :: "hash list \<Rightarrow> bytes list" where
  "pair_inputs (l # r # level) = (l @ r) # pair_inputs level"
| "pair_inputs _ = []"

function loop_inputs :: "'z hash_lib_scheme \<Rightarrow> hash list \<Rightarrow> bytes list" where
  "loop_inputs L level =
     (if length level > 1 then pair_inputs (pad_level level) @ loop_inputs L (pair_up L (pad_level level)) else [])"
  by pat_completeness auto
termination
  by (relation "measure (\<lambda>(L, level). length level)") (simp_all add: next_level_less)

declare loop_inputs.simps [simp del]

definition root_inputs :: "'z hash_lib_scheme \<Rightarrow> hash list \<Rightarrow> bytes list" where
  "root_inputs L leaves = (if leaves = [] then [[]] else loop_inputs L leaves)"

definition collide :: "'z hash_lib_scheme \<Rightarrow> bytes list \<Rightarrow> bool" where
  "collide L inputs \<longleftrightarrow> list_ex (\<lambda>a. list_ex (\<lambda>b. a \<noteq> b \<and> sha256 L a = sha256 L b) inputs) inputs"

lemma no_collision: "\<not> collide L inputs \<Longrightarrow> a \<in> set inputs \<Longrightarrow> b \<in> set inputs \<Longrightarrow> sha256 L a = sha256 L b \<Longrightarrow> a = b"
  by (auto simp: collide_def list_ex_iff)

lemma climb_Cons: "climb L c i (s # ss) = climb L (sha256 L (join c i s)) (i div 2) ss"
  by (simp add: pair_hash_def)

lemma pair_up_inputs: "pair_up L level = map (sha256 L) (pair_inputs level)"
  by (induction L level rule: pair_up.induct) (simp_all add: pair_hash_def)

lemma pair_inputs_set: "x \<in> set (pair_inputs level) \<Longrightarrow> \<exists>l \<in> set level. \<exists>r \<in> set level. x = l @ r"
  by (induction level rule: pair_inputs.induct) auto

lemma pad_level_set: "x \<in> set (pad_level level) \<Longrightarrow> x \<in> set level"
  by (cases "level = []") (auto simp: pad_level_def split: if_splits)

lemma loop_inputs_split:
  assumes "sha_ok L"
  shows "\<forall>x \<in> set level. length x = 32 \<Longrightarrow> x \<in> set (loop_inputs L level) \<Longrightarrow>
    \<exists>l r. x = l @ r \<and> length l = 32 \<and> length r = 32
      \<and> {l, r} \<subseteq> set level \<union> sha256 L ` set (loop_inputs L level)"
  using assms
proof (induction L level rule: loop_inputs.induct)
  case (1 L level)
  let ?up = "pair_up L (pad_level level)"
  have big: "length level > 1" using 1(3) by (cases "length level > 1") (simp_all add: loop_inputs.simps [of L level])
  then have eq: "loop_inputs L level = pair_inputs (pad_level level) @ loop_inputs L ?up"
    by (simp add: loop_inputs.simps [of L level])
  have up: "set ?up = sha256 L ` set (pair_inputs (pad_level level))" by (simp add: pair_up_inputs)
  show ?case
  proof (cases "x \<in> set (pair_inputs (pad_level level))")
    case True
    then show ?thesis using pair_inputs_set [OF True] pad_level_set 1(2) by blast
  next
    case False
    then have "\<exists>l r. x = l @ r \<and> length l = 32 \<and> length r = 32 \<and> {l, r} \<subseteq> set ?up \<union> sha256 L ` set (loop_inputs L ?up)"
      using 1(1) [OF big] 1(3,4) eq up by (auto simp: sha_ok_def)
    then show ?thesis unfolding eq up by auto
  qed
qed

lemma root_inputs_length:
  "sha_ok L \<Longrightarrow> \<forall>x \<in> set leaves. length x = 32 \<Longrightarrow> x \<in> set (root_inputs L leaves) \<Longrightarrow> length x \<le> 64"
  using loop_inputs_split [of L leaves x] by (auto simp: root_inputs_def split: if_splits)

lemma merkle_loop_node:
  "level \<noteq> [] \<Longrightarrow> merkle_loop L level \<in> set level \<union> sha256 L ` set (loop_inputs L level)"
proof (induction L level rule: merkle_loop.induct)
  case (1 L level)
  show ?case
  proof (cases "length level > 1")
    case True
    have "0 < length (pair_up L (pad_level level))" unfolding length_next_level using True by simp
    then show ?thesis using 1(1) [OF True] True
      unfolding length_greater_0_conv merkle_loop.simps [of L level] loop_inputs.simps [of L level] by (auto simp: pair_up_inputs)
  next
    case False
    then obtain a where "level = [a]" using 1(2) by (cases level) auto
    then show ?thesis by (simp add: merkle_loop.simps [of L "[a]"])
  qed
qed

lemma climb_starts_in_tree:
  assumes "sha_ok L" "\<forall>x \<in> set leaves. length x = 32" "\<not> collide L inputs" "set (root_inputs L leaves) \<subseteq> set inputs"
  shows "length c = 32 \<Longrightarrow> \<forall>x \<in> set ss. length x = 32 \<Longrightarrow> set (climb_inputs L c i ss) \<subseteq> set inputs \<Longrightarrow>
    climb L c i ss \<in> set leaves \<union> sha256 L ` set (root_inputs L leaves) \<Longrightarrow>
    c \<in> set leaves \<union> sha256 L ` set (root_inputs L leaves)
    \<or> (\<exists>x \<in> set (climb_inputs L c i ss). length x = 64 \<and> sha256 L x \<in> set leaves)"
proof (induction ss arbitrary: c i)
  case (Cons s ss)
  let ?x = "join c i s"
  have len: "length (sha256 L ?x) = 32" "length ?x = 64" using assms(1) Cons.prems(1,2) by (simp_all add: sha_ok_def)
  consider "sha256 L ?x \<in> set leaves" | y where "y \<in> set (root_inputs L leaves)" "sha256 L ?x = sha256 L y"
    | x where "x \<in> set (climb_inputs L (sha256 L ?x) (i div 2) ss)" "length x = 64" "sha256 L x \<in> set leaves"
    using Cons.IH [OF len(1), of "i div 2"] Cons.prems(2-) by (auto simp: climb_Cons simp del: join.simps climb.simps)
  then show ?case
  proof cases
    case (2 y)
    then have y: "?x = y" using no_collision [OF assms(3), of ?x y] assms(4) Cons.prems(3) by auto
    then have "leaves \<noteq> []" using 2(1) len(2) by (auto simp: root_inputs_def simp del: join.simps)
    then obtain l r where "?x = l @ r" "length l = 32" "{l, r} \<subseteq> set leaves \<union> sha256 L ` set (root_inputs L leaves)"
      using loop_inputs_split [OF assms(1,2), of y] 2(1) y by (auto simp: root_inputs_def simp del: join.simps)
    then show ?thesis using Cons.prems(1,2) by (auto split: if_splits)
  qed (use len in \<open>auto simp del: join.simps\<close>)
qed simp

section \<open>Properties\<close>

text \<open>
  Inclusion proofs are complete: for every position of a list of event hashes there is a
  proof, and it verifies that hash against the root; outside the list there is none.
\<close>

theorem merkle_proof_complete:
  "case merkle_proof L leaves i of
     None \<Rightarrow> length leaves \<le> i
   | Some p \<Rightarrow> i < length leaves \<and> merkle_verify L p (leaves ! i) (merkle_root L leaves)"
  using climb_proof_loop [of i leaves L] by (auto simp: merkle_proof_def merkle_verify_def merkle_root_def)

text \<open>
  A proof of any index and length that verifies a hash against the root: the hash is one of
  the tree, or the path passes through a leaf on its way up, or there is a collision.
\<close>

lemma merkle_verify_in_tree:
  assumes "sha_ok L" "\<forall>x \<in> set leaves. length x = 32" "length leaf = 32" "\<forall>x \<in> set (mp_siblings p). length x = 32"
    and "merkle_verify L p leaf (merkle_root L leaves)"
    and "set (root_inputs L leaves) \<subseteq> set inputs" "set (climb_inputs L leaf (mp_index p) (mp_siblings p)) \<subseteq> set inputs"
    and "\<not> collide L inputs"
  shows "leaf \<in> set leaves \<union> sha256 L ` set (root_inputs L leaves)
    \<or> (\<exists>x \<in> set (climb_inputs L leaf (mp_index p) (mp_siblings p)). length x = 64 \<and> sha256 L x \<in> set leaves)"
proof (rule climb_starts_in_tree [OF assms(1,2,8,6,3,4,7)])
  show "climb L leaf (mp_index p) (mp_siblings p) \<in> set leaves \<union> sha256 L ` set (root_inputs L leaves)"
    using assms(5) merkle_loop_node [of leaves L] by (auto simp: merkle_verify_def merkle_root_def root_inputs_def)
qed

text \<open>
  A list of odd length above one and the same list with its last hash repeated have the same
  root: the root does not fix the list of events.
\<close>

lemma merkle_root_repeat:
  assumes "odd (length leaves)" "1 < length leaves"
  shows "merkle_root L (leaves @ [last leaves]) = merkle_root L leaves"
proof -
  have "pad_level (leaves @ [last leaves]) = pad_level leaves"
    using assms by (simp add: pad_level_def odd_iff_mod_2_eq_one)
  then show ?thesis using assms
    by (auto simp: merkle_root_def merkle_loop.simps [of L leaves] merkle_loop.simps [of L "leaves @ [last leaves]"])
qed

end
