(* ===== verification/Ledger.thy ===== *)
theory Ledger
  imports Protocol Merkle "HOL-Library.List_Lexorder" "HOL-Library.Char_ord"
begin

text \<open>
  \<open>crates/peerless-ledger\<close>: signed events, blocks, memberships and invitations, quorum and
  BFT consensus, and the hash chain on disk. The serde instances are fields of \<open>ledger_lib\<close>.
\<close>

section \<open>Events and blocks\<close>

datatype ledger_event =
    NodeJoined node_id
  | NodeRevoked node_id
  | TaskCreated string
  | TaskAccepted string node_id
  | TaskCompleted execution_record
  | TaskVerified string content_id
  | ContentPublished content_id node_id
  | StateCheckpoint string content_id

record signed_event =
  ev_event :: ledger_event
  ev_signer :: node_id
  ev_public_key :: bytes
  ev_signature :: bytes

record consensus_signature =
  cs_signer :: node_id
  cs_public_key :: bytes
  cs_signature :: bytes

record consensus_proof =
  cp_network_id :: string
  cp_signatures :: "consensus_signature list"

record block =
  bk_version :: u16
  bk_previous :: "hash option"
  bk_height :: u64
  bk_timestamp :: u64
  bk_events_root :: hash
  bk_events :: "signed_event list"
  bk_consensus :: consensus_proof

type_synonym proposal = "u16 \<times> hash option \<times> u64 \<times> u64 \<times> hash"
type_synonym membership_body = "string \<times> node_id \<times> node_id \<times> string list \<times> u64 option"

record ledger_lib = id_lib +
  sd_event :: "ledger_event serde"
  sd_signed_event :: "signed_event serde"
  sd_proposal :: "proposal serde"
  sd_block :: "block serde"
  to_vec_pretty :: "block \<Rightarrow> json_error + bytes"
  sd_membership :: "membership_body serde"

datatype ledger_error =
    LeIo io_error
  | LeJson json_error
  | LeIdentity identity_error
  | LeInvalidQuorum
  | LeNoQuorum
  | LeWrongLeader
  | LeInvalidBlock

definition MAX_BLOCK_BYTES :: nat where "MAX_BLOCK_BYTES = 16 * 1024 * 1024"

definition event_seal :: "'z ledger_lib_scheme \<Rightarrow> ledger_event \<Rightarrow> node_identity \<Rightarrow> ledger_error + signed_event" where
  "event_seal L event identity =
     bind_r (map_err LeJson (to_vec (sd_event L) event)) (\<lambda>payload.
     bind_r (map_err LeIdentity (identity_sign L identity payload)) (\<lambda>signature.
     Inr \<lparr>ev_event = event, ev_signer = ni_node_id identity, ev_public_key = ni_public_key identity,
          ev_signature = signature\<rparr>))"

definition event_verify :: "'z ledger_lib_scheme \<Rightarrow> signed_event \<Rightarrow> ledger_error + bool" where
  "event_verify L e =
     (if node_derive L (ev_public_key e) = ev_signer e then
        bind_r (map_err LeJson (to_vec (sd_event L) (ev_event e))) (\<lambda>payload.
        map_err LeIdentity (verify L (ev_public_key e) payload (ev_signature e)))
      else Inr False)"

definition event_hash :: "'z ledger_lib_scheme \<Rightarrow> signed_event \<Rightarrow> ledger_error + hash" where
  "event_hash L e = bind_r (map_err LeJson (to_vec (sd_signed_event L) e)) (\<lambda>b. Inr (sha256 L b))"

definition proposal_of :: "block \<Rightarrow> proposal" where
  "proposal_of b = (bk_version b, bk_previous b, bk_height b, bk_timestamp b, bk_events_root b)"

definition proposal_bytes :: "'z ledger_lib_scheme \<Rightarrow> block \<Rightarrow> ledger_error + bytes" where
  "proposal_bytes L b = map_err LeJson (to_vec (sd_proposal L) (proposal_of b))"

definition block_hash :: "'z ledger_lib_scheme \<Rightarrow> block \<Rightarrow> ledger_error + hash" where
  "block_hash L b = bind_r (map_err LeJson (to_vec (sd_block L) b)) (\<lambda>b. Inr (sha256 L b))"

definition events_hashes :: "'z ledger_lib_scheme \<Rightarrow> signed_event list \<Rightarrow> ledger_error + hash list" where
  "events_hashes L events = map_r (event_hash L) events"

definition block_proof :: "'z ledger_lib_scheme \<Rightarrow> block \<Rightarrow> nat \<Rightarrow> merkle_proof_t option" where
  "block_proof L b index =
     (case events_hashes L (bk_events b) of Inl _ \<Rightarrow> None | Inr hs \<Rightarrow> merkle_proof L hs index)"

section \<open>Memberships and invitations\<close>

record membership =
  mb_network_id :: string
  mb_member :: node_id
  mb_issuer :: node_id
  mb_permissions :: "string list"
  mb_expires_at :: "u64 option"
  mb_issuer_public_key :: bytes
  mb_signature :: bytes

definition membership_body_of :: "membership \<Rightarrow> membership_body" where
  "membership_body_of m = (mb_network_id m, mb_member m, mb_issuer m, mb_permissions m, mb_expires_at m)"

definition membership_payload :: "'z ledger_lib_scheme \<Rightarrow> membership \<Rightarrow> ledger_error + bytes" where
  "membership_payload L m = map_err LeJson (to_vec (sd_membership L) (membership_body_of m))"

definition membership_issue ::
  "'z ledger_lib_scheme \<Rightarrow> string \<Rightarrow> node_id \<Rightarrow> string list \<Rightarrow> u64 option \<Rightarrow> node_identity \<Rightarrow> ledger_error + membership" where
  "membership_issue L network_id member permissions expires_at issuer =
     (let v = \<lparr>mb_network_id = network_id, mb_member = member, mb_issuer = ni_node_id issuer,
               mb_permissions = permissions, mb_expires_at = expires_at,
               mb_issuer_public_key = ni_public_key issuer, mb_signature = []\<rparr> in
      bind_r (membership_payload L v) (\<lambda>payload.
      bind_r (map_err LeIdentity (identity_sign L issuer payload)) (\<lambda>signature.
      Inr (v\<lparr>mb_signature := signature\<rparr>))))"

definition membership_verify ::
  "'z ledger_lib_scheme \<Rightarrow> membership \<Rightarrow> node_id set \<Rightarrow> u64 \<Rightarrow> ledger_error + bool" where
  "membership_verify L m trusted now =
     (if mb_issuer m \<in> trusted \<and> node_derive L (mb_issuer_public_key m) = mb_issuer m
         \<and> (case mb_expires_at m of None \<Rightarrow> True | Some expiry \<Rightarrow> expiry > now)
      then
        bind_r (membership_payload L m) (\<lambda>payload.
        map_err LeIdentity (verify L (mb_issuer_public_key m) payload (mb_signature m)))
      else Inr False)"

record invitation =
  iv_version :: u16
  iv_membership :: membership
  iv_bootstrap :: "string list"
  iv_issued_at :: u64

definition invitation_issue ::
  "'z ledger_lib_scheme \<Rightarrow> string \<Rightarrow> node_id \<Rightarrow> string list \<Rightarrow> u64 option \<Rightarrow> string list \<Rightarrow> u64 \<Rightarrow> node_identity \<Rightarrow>
     ledger_error + invitation" where
  "invitation_issue L network_id member permissions expires_at bootstrap issued_at issuer =
     bind_r (membership_issue L network_id member permissions expires_at issuer) (\<lambda>m.
     Inr \<lparr>iv_version = 1, iv_membership = m, iv_bootstrap = bootstrap, iv_issued_at = issued_at\<rparr>)"

definition invitation_verify_for ::
  "'z ledger_lib_scheme \<Rightarrow> invitation \<Rightarrow> node_id \<Rightarrow> u64 \<Rightarrow> ledger_error + bool" where
  "invitation_verify_for L i member now =
     (if iv_version i = 1 \<and> iv_issued_at i \<le> now \<and> mb_member (iv_membership i) = member
      then membership_verify L (iv_membership i) {mb_issuer (iv_membership i)} now
      else Inr False)"

section \<open>Consensus\<close>

record quorum_consensus =
  qc_network_id :: string
  qc_members :: "node_id set"
  qc_quorum :: nat

definition quorum_new :: "string \<Rightarrow> node_id set \<Rightarrow> nat \<Rightarrow> ledger_error + quorum_consensus" where
  "quorum_new network_id members quorum =
     (if quorum = 0 \<or> quorum > card members then Inl LeInvalidQuorum
      else Inr \<lparr>qc_network_id = network_id, qc_members = members, qc_quorum = quorum\<rparr>)"

text \<open>The loop over the approvals; \<open>seen\<close> is the set of nodes that have signed.\<close>

fun collect_signatures ::
  "'z ledger_lib_scheme \<Rightarrow> node_id set \<Rightarrow> bytes \<Rightarrow> node_id set \<Rightarrow> consensus_signature list \<Rightarrow> node_identity list \<Rightarrow>
     (ledger_error + unit) \<times> consensus_signature list" where
  "collect_signatures L members payload seen signatures [] = (Inr (), signatures)"
| "collect_signatures L members payload seen signatures (identity # approvals) =
     (if ni_node_id identity \<in> members \<and> ni_node_id identity \<notin> seen then
        (case identity_sign L identity payload of
           Inl e \<Rightarrow> (Inl (LeIdentity e), signatures)
         | Inr signature \<Rightarrow>
             collect_signatures L members payload (insert (ni_node_id identity) seen)
               (signatures @ [\<lparr>cs_signer = ni_node_id identity, cs_public_key = ni_public_key identity,
                               cs_signature = signature\<rparr>]) approvals)
      else collect_signatures L members payload seen signatures approvals)"

definition quorum_finalize ::
  "'z ledger_lib_scheme \<Rightarrow> quorum_consensus \<Rightarrow> block \<Rightarrow> node_identity list \<Rightarrow> (ledger_error + unit) \<times> block" where
  "quorum_finalize L c b approvals =
     (let b = b\<lparr>bk_consensus := \<lparr>cp_network_id = qc_network_id c, cp_signatures = []\<rparr>\<rparr> in
      case proposal_bytes L b of
        Inl e \<Rightarrow> (Inl e, b)
      | Inr payload \<Rightarrow>
          let (r, signatures) = collect_signatures L (qc_members c) payload {} [] approvals;
              b = b\<lparr>bk_consensus := \<lparr>cp_network_id = qc_network_id c, cp_signatures = signatures\<rparr>\<rparr>
          in case r of
               Inl e \<Rightarrow> (Inl e, b)
             | Inr _ \<Rightarrow> if length signatures < qc_quorum c then (Inl LeNoQuorum, b) else (Inr (), b))"

fun valid_signers ::
  "'z ledger_lib_scheme \<Rightarrow> node_id set \<Rightarrow> bytes \<Rightarrow> node_id set \<Rightarrow> consensus_signature list \<Rightarrow> ledger_error + node_id set" where
  "valid_signers L members payload valid [] = Inr valid"
| "valid_signers L members payload valid (approval # approvals) =
     (if cs_signer approval \<in> members \<and> node_derive L (cs_public_key approval) = cs_signer approval then
        bind_r (map_err LeIdentity (verify L (cs_public_key approval) payload (cs_signature approval))) (\<lambda>ok.
        valid_signers L members payload (if ok then insert (cs_signer approval) valid else valid) approvals)
      else valid_signers L members payload valid approvals)"

definition quorum_verify :: "'z ledger_lib_scheme \<Rightarrow> quorum_consensus \<Rightarrow> block \<Rightarrow> ledger_error + bool" where
  "quorum_verify L c b =
     (if cp_network_id (bk_consensus b) \<noteq> qc_network_id c then Inr False
      else
        bind_r (proposal_bytes L b) (\<lambda>payload.
        bind_r (valid_signers L (qc_members c) payload {} (cp_signatures (bk_consensus b))) (\<lambda>valid.
        Inr (card valid \<ge> qc_quorum c))))"

record bft_consensus =
  bft_inner :: quorum_consensus
  bft_ordered_members :: "node_id list"
  bft_max_faults :: nat

definition saturate :: "nat \<Rightarrow> nat" where
  "saturate n = min n (2 ^ 64 - 1)"

definition bft_new :: "string \<Rightarrow> node_id set \<Rightarrow> nat \<Rightarrow> ledger_error + bft_consensus" where
  "bft_new network_id members max_faults =
     (let required_members = saturate (saturate (max_faults * 3) + 1) in
      if card members < required_members then Inl LeInvalidQuorum
      else
        let quorum = saturate (saturate (max_faults * 2) + 1);
            ordered_members = sorted_list_of_set members
        in bind_r (quorum_new network_id members quorum) (\<lambda>inner.
           Inr \<lparr>bft_inner = inner, bft_ordered_members = ordered_members, bft_max_faults = max_faults\<rparr>))"

definition leader :: "bft_consensus \<Rightarrow> u64 \<Rightarrow> node_id" where
  "leader c height = bft_ordered_members c ! (unat height mod length (bft_ordered_members c))"

definition bft_finalize ::
  "'z ledger_lib_scheme \<Rightarrow> bft_consensus \<Rightarrow> block \<Rightarrow> node_identity list \<Rightarrow> (ledger_error + unit) \<times> block" where
  "bft_finalize L c b approvals =
     (if \<not> list_ex (\<lambda>identity. ni_node_id identity = leader c (bk_height b)) approvals
      then (Inl LeWrongLeader, b)
      else quorum_finalize L (bft_inner c) b approvals)"

definition bft_verify :: "'z ledger_lib_scheme \<Rightarrow> bft_consensus \<Rightarrow> block \<Rightarrow> ledger_error + bool" where
  "bft_verify L c b =
     (if list_ex (\<lambda>signature. cs_signer signature = leader c (bk_height b)) (cp_signatures (bk_consensus b))
      then quorum_verify L (bft_inner c) b
      else Inr False)"

section \<open>Consensus as an interface\<close>

text \<open>
  The trait \<open>ConsensusEngine\<close>: finalising touches nothing but the consensus proof, and what
  approvers in good standing finalised verifies.
\<close>

locale consensus_engine =
  fixes finalize :: "block \<Rightarrow> node_identity list \<Rightarrow> (ledger_error + unit) \<times> block"
    and verifies :: "block \<Rightarrow> ledger_error + bool"
    and good :: "node_identity list \<Rightarrow> bool"
  assumes finalize_keeps: "finalize b ids = (r, b') \<Longrightarrow> proposal_of b' = proposal_of b \<and> bk_events b' = bk_events b"
    and finalize_verifies: "good ids \<Longrightarrow> finalize b ids = (Inr (), b') \<Longrightarrow> verifies b' = Inr True"
begin

lemma finalized_fields:
  assumes "finalize b ids = (r, b')"
  shows "bk_version b' = bk_version b" "bk_previous b' = bk_previous b" "bk_height b' = bk_height b"
    "bk_timestamp b' = bk_timestamp b" "bk_events_root b' = bk_events_root b" "bk_events b' = bk_events b"
  using finalize_keeps [OF assms] by (simp_all add: proposal_of_def)

end

definition approves :: "'z ledger_lib_scheme \<Rightarrow> node_id set \<Rightarrow> bytes \<Rightarrow> consensus_signature \<Rightarrow> bool" where
  "approves L members payload a \<longleftrightarrow> cs_signer a \<in> members \<and> node_derive L (cs_public_key a) = cs_signer a
     \<and> verify L (cs_public_key a) payload (cs_signature a) = Inr True"

lemma valid_signers_Inr:
  "valid_signers L M p V as = Inr W \<Longrightarrow> W = V \<union> cs_signer ` {a \<in> set as. approves L M p a}"
proof (induction as arbitrary: V)
  case (Cons a as)
  show ?case
  proof (cases "cs_signer a \<in> M \<and> node_derive L (cs_public_key a) = cs_signer a")
    case True
    then obtain ok where ok: "verify L (cs_public_key a) p (cs_signature a) = Inr ok"
      "valid_signers L M p (if ok then insert (cs_signer a) V else V) as = Inr W"
      using Cons.prems by (auto simp: result_simps)
    from Cons.IH [OF ok(2)] True ok(1) show ?thesis by (auto simp: approves_def)
  next
    case False
    then have "W = V \<union> cs_signer ` {a \<in> set as. approves L M p a}"
      using Cons.prems by (intro Cons.IH) auto
    then show ?thesis using False by (auto simp: approves_def)
  qed
qed simp

lemma valid_signers_all:
  "list_all (approves L M p) as \<Longrightarrow> valid_signers L M p V as = Inr (V \<union> cs_signer ` set as)"
  by (induction as arbitrary: V) (auto simp: approves_def)

lemma collect_signatures_ok:
  assumes "sign_ok L"
  shows "list_all (identity_wf L) ids \<Longrightarrow>
    \<exists>new. collect_signatures L M p seen sigs ids = (Inr (), sigs @ new) \<and> list_all (approves L M p) new
      \<and> distinct (map cs_signer new) \<and> cs_signer ` set new = ni_node_id ` set ids \<inter> M - seen"
proof (induction ids arbitrary: seen sigs)
  case (Cons i ids)
  show ?case
  proof (cases "ni_node_id i \<in> M \<and> ni_node_id i \<notin> seen")
    case True
    have wf: "identity_wf L i" using Cons.prems by simp
    obtain s where s: "identity_sign L i p = Inr s" "verify L (ni_public_key i) p s = Inr True"
      by (rule sign_verifies [OF assms wf])
    let ?c = "\<lparr>cs_signer = ni_node_id i, cs_public_key = ni_public_key i, cs_signature = s\<rparr>"
    obtain new where "collect_signatures L M p (insert (ni_node_id i) seen) (sigs @ [?c]) ids
        = (Inr (), (sigs @ [?c]) @ new)" "list_all (approves L M p) new" "distinct (map cs_signer new)"
      "cs_signer ` set new = ni_node_id ` set ids \<inter> M - insert (ni_node_id i) seen"
      using Cons.IH [of "insert (ni_node_id i) seen" "sigs @ [?c]"] Cons.prems by auto
    moreover have "approves L M p ?c"
      using True s identity_wf_fields(2) [OF wf] by (simp add: approves_def)
    ultimately show ?thesis using True s
      by (intro exI [of _ "?c # new"]) auto
  next
    case False
    then have "ni_node_id ` set (i # ids) \<inter> M - seen = ni_node_id ` set ids \<inter> M - seen" by auto
    then show ?thesis using False Cons by auto
  qed
qed simp

lemma proposal_of_consensus [simp]: "proposal_of (b\<lparr>bk_consensus := c\<rparr>) = proposal_of b"
  by (simp add: proposal_of_def)

lemma proposal_bytes_consensus [simp]: "proposal_bytes L (b\<lparr>bk_consensus := c\<rparr>) = proposal_bytes L b"
  by (simp add: proposal_bytes_def)

lemma quorum_finalize_keeps:
  "quorum_finalize L c b ids = (r, b') \<Longrightarrow>
     \<exists>sigs. b' = b\<lparr>bk_consensus := \<lparr>cp_network_id = qc_network_id c, cp_signatures = sigs\<rparr>\<rparr>"
  by (auto simp: quorum_finalize_def Let_def split: sum.splits prod.splits if_splits)

lemma quorum_finalize_ok:
  assumes "sign_ok L" "list_all (identity_wf L) ids" "proposal_bytes L b = Inr p"
  obtains sigs where "list_all (approves L (qc_members c) p) sigs" "distinct (map cs_signer sigs)"
    "cs_signer ` set sigs = ni_node_id ` set ids \<inter> qc_members c"
    "quorum_finalize L c b ids =
      (if length sigs < qc_quorum c then Inl LeNoQuorum else Inr (),
       b\<lparr>bk_consensus := \<lparr>cp_network_id = qc_network_id c, cp_signatures = sigs\<rparr>\<rparr>)"
proof -
  obtain new where "collect_signatures L (qc_members c) p {} [] ids = (Inr (), [] @ new)"
    "list_all (approves L (qc_members c) p) new" "distinct (map cs_signer new)"
    "cs_signer ` set new = ni_node_id ` set ids \<inter> qc_members c - {}"
    using collect_signatures_ok [OF assms(1,2), of "qc_members c" p "{}" "[]"] by blast
  with assms(3) show ?thesis by (intro that [of new]) (auto simp: quorum_finalize_def Let_def)
qed

lemma quorum_verify_approved:
  assumes "proposal_bytes L b = Inr p" "cp_network_id (bk_consensus b) = qc_network_id c"
    and "list_all (approves L (qc_members c) p) (cp_signatures (bk_consensus b))"
    and "distinct (map cs_signer (cp_signatures (bk_consensus b)))"
    and "qc_quorum c \<le> length (cp_signatures (bk_consensus b))"
  shows "quorum_verify L c b = Inr True"
proof -
  have "card (cs_signer ` set (cp_signatures (bk_consensus b))) = length (cp_signatures (bk_consensus b))"
    using distinct_card [OF assms(4)] by simp
  then show ?thesis using assms by (simp add: quorum_verify_def valid_signers_all)
qed

lemma quorum_finalize_verifies:
  assumes "sign_ok L" "list_all (identity_wf L) ids" "quorum_finalize L c b ids = (Inr (), b')"
  shows "quorum_verify L c b' = Inr True"
proof -
  obtain p where p: "proposal_bytes L b = Inr p"
    using assms(3) by (cases "proposal_bytes L b") (auto simp: quorum_finalize_def Let_def)
  obtain sigs where "list_all (approves L (qc_members c) p) sigs" "distinct (map cs_signer sigs)"
    "cs_signer ` set sigs = ni_node_id ` set ids \<inter> qc_members c"
    "quorum_finalize L c b ids =
      (if length sigs < qc_quorum c then Inl LeNoQuorum else Inr (),
       b\<lparr>bk_consensus := \<lparr>cp_network_id = qc_network_id c, cp_signatures = sigs\<rparr>\<rparr>)"
    by (rule quorum_finalize_ok [OF assms(1,2) p])
  with assms(3) p show ?thesis
    by (intro quorum_verify_approved [of L b' p]) (auto split: if_splits)
qed

interpretation quorum: consensus_engine "quorum_finalize L c" "quorum_verify L c"
  "\<lambda>ids. sign_ok L \<and> list_all (identity_wf L) ids" for L c
proof
  fix b ids r b' assume "quorum_finalize L c b ids = (r, b')"
  then show "proposal_of b' = proposal_of b \<and> bk_events b' = bk_events b"
    by (auto dest!: quorum_finalize_keeps)
next
  fix ids b b' assume "sign_ok L \<and> list_all (identity_wf L) ids" "quorum_finalize L c b ids = (Inr (), b')"
  then show "quorum_verify L c b' = Inr True" using quorum_finalize_verifies by blast
qed

section \<open>BFT committees\<close>

definition bft_wf :: "bft_consensus \<Rightarrow> bool" where
  "bft_wf c \<longleftrightarrow> set (bft_ordered_members c) = qc_members (bft_inner c) \<and> bft_ordered_members c \<noteq> []"

lemma bft_new_Inr:
  assumes "bft_new n M f = Inr c" "finite M"
  shows "bft_wf c" "qc_members (bft_inner c) = M" "qc_network_id (bft_inner c) = n"
    "qc_quorum (bft_inner c) = saturate (saturate (f * 2) + 1)" "saturate (saturate (f * 3) + 1) \<le> card M"
  using assms
  by (auto simp: bft_new_def bft_wf_def quorum_new_def Let_def result_simps saturate_def split: if_splits)

lemma leader_member: "bft_wf c \<Longrightarrow> leader c h \<in> qc_members (bft_inner c)"
  unfolding leader_def bft_wf_def by (metis length_greater_0_conv mod_less_divisor nth_mem)

interpretation bft: consensus_engine "bft_finalize L c" "bft_verify L c"
  "\<lambda>ids. sign_ok L \<and> list_all (identity_wf L) ids \<and> bft_wf c" for L c
proof
  fix b ids r b' assume "bft_finalize L c b ids = (r, b')"
  then show "proposal_of b' = proposal_of b \<and> bk_events b' = bk_events b"
    by (auto simp: bft_finalize_def split: if_splits dest!: quorum_finalize_keeps)
next
  fix ids b b' assume ok: "sign_ok L \<and> list_all (identity_wf L) ids \<and> bft_wf c"
    and fin: "bft_finalize L c b ids = (Inr (), b')"
  have q: "quorum_finalize L (bft_inner c) b ids = (Inr (), b')"
    and lead: "leader c (bk_height b) \<in> ni_node_id ` set ids"
    using fin by (auto simp: bft_finalize_def list_ex_iff image_iff eq_commute split: if_splits)
  obtain p where p: "proposal_bytes L b = Inr p"
    using q by (cases "proposal_bytes L b") (auto simp: quorum_finalize_def Let_def)
  obtain sigs where "list_all (approves L (qc_members (bft_inner c)) p) sigs" "distinct (map cs_signer sigs)"
    "cs_signer ` set sigs = ni_node_id ` set ids \<inter> qc_members (bft_inner c)"
    "quorum_finalize L (bft_inner c) b ids =
      (if length sigs < qc_quorum (bft_inner c) then Inl LeNoQuorum else Inr (),
       b\<lparr>bk_consensus := \<lparr>cp_network_id = qc_network_id (bft_inner c), cp_signatures = sigs\<rparr>\<rparr>)"
    by (rule quorum_finalize_ok [OF conjunct1 [OF ok] conjunct1 [OF conjunct2 [OF ok]] p])
  then have "leader c (bk_height b') \<in> cs_signer ` set (cp_signatures (bk_consensus b'))"
    using q lead leader_member [of c "bk_height b"] ok by (auto split: if_splits)
  moreover have "quorum_verify L (bft_inner c) b' = Inr True"
    using quorum_finalize_verifies ok q by blast
  ultimately show "bft_verify L c b' = Inr True" by (auto simp: bft_verify_def list_ex_iff)
qed

text \<open>The members that approved a block: valid signatures over its proposal by distinct members.\<close>

definition approvers :: "'z ledger_lib_scheme \<Rightarrow> quorum_consensus \<Rightarrow> block \<Rightarrow> node_id set" where
  "approvers L c b =
     (case proposal_bytes L b of
        Inl _ \<Rightarrow> {}
      | Inr p \<Rightarrow> cs_signer ` {a \<in> set (cp_signatures (bk_consensus b)). approves L (qc_members c) p a})"

lemma approvers_members: "approvers L c b \<subseteq> qc_members c"
  by (auto simp: approvers_def approves_def split: sum.splits)

lemma quorum_verify_True:
  "quorum_verify L c b = Inr True \<Longrightarrow> cp_network_id (bk_consensus b) = qc_network_id c
     \<and> qc_quorum c \<le> card (approvers L c b)"
  by (auto simp: quorum_verify_def approvers_def result_simps split: if_splits dest!: valid_signers_Inr)

lemma card_intersection:
  assumes "finite M" "A \<subseteq> M" "B \<subseteq> M"
  shows "card A + card B \<le> card M + card (A \<inter> B)"
proof -
  have "card (A \<union> B) \<le> card M" using assms by (intro card_mono) auto
  moreover have "card A + card B = card (A \<union> B) + card (A \<inter> B)"
    using assms by (intro card_Un_Int) (auto intro: finite_subset)
  ultimately show ?thesis by simp
qed

section \<open>Properties of consensus\<close>

text \<open>
  What a quorum finalises is what a quorum verifies: approvals by distinct members reach
  the quorum exactly when enough distinct members are among the approvers (repeated and
  foreign identities do not count), and then the finalised block verifies.
\<close>

theorem quorum_finalize_complete:
  assumes "sign_ok L" "list_all (identity_wf L) ids" "serde_at (sd_proposal L) (proposal_of b)"
  shows "let (r, b') = quorum_finalize L c b ids in
    (if qc_quorum c \<le> card (ni_node_id ` set ids \<inter> qc_members c)
     then r = Inr () \<and> quorum_verify L c b' = Inr True
     else r = Inl LeNoQuorum)
    \<and> proposal_of b' = proposal_of b \<and> bk_events b' = bk_events b"
proof -
  obtain p where p: "proposal_bytes L b = Inr p"
    using serde_atE [OF assms(3)] by (metis map_err_simps(2) proposal_bytes_def)
  obtain sigs where "list_all (approves L (qc_members c) p) sigs" and sg: "distinct (map cs_signer sigs)"
    "cs_signer ` set sigs = ni_node_id ` set ids \<inter> qc_members c"
    "quorum_finalize L c b ids =
      (if length sigs < qc_quorum c then Inl LeNoQuorum else Inr (),
       b\<lparr>bk_consensus := \<lparr>cp_network_id = qc_network_id c, cp_signatures = sigs\<rparr>\<rparr>)"
    by (rule quorum_finalize_ok [OF assms(1,2) p])
  have len: "length sigs = card (ni_node_id ` set ids \<inter> qc_members c)"
    using distinct_card [OF sg(1)] sg(2) by simp
  show ?thesis
  proof (cases "length sigs < qc_quorum c")
    case True
    then show ?thesis using sg(3) len by simp
  next
    case False
    then have "quorum_finalize L c b ids = (Inr (),
       b\<lparr>bk_consensus := \<lparr>cp_network_id = qc_network_id c, cp_signatures = sigs\<rparr>\<rparr>)" using sg(3) by simp
    then show ?thesis using quorum.finalize_verifies [of L ids c b] assms(1,2) False len by simp
  qed
qed

text \<open>
  C13: BFT safety for committees of exactly \<open>3 f + 1\<close> members: two blocks that both verify
  share at least \<open>f + 1\<close> approving members, so unless more than \<open>f\<close> members signed both
  proposals, two different proposals cannot both be final.
\<close>

theorem bft_quorums_intersect:
  assumes "bft_new n M f = Inr c" "finite M" "card M = 3 * f + 1" "3 * f + 1 < 2 ^ 64"
    and "bft_verify L c b = Inr True" "bft_verify L c b' = Inr True"
  shows "f + 1 \<le> card (approvers L (bft_inner c) b \<inter> approvers L (bft_inner c) b')"
proof -
  note c = bft_new_Inr [OF assms(1,2)]
  have q: "qc_quorum (bft_inner c) = 2 * f + 1" using c(4) assms(4) by (simp add: saturate_def)
  have "2 * f + 1 \<le> card (approvers L (bft_inner c) b)" "2 * f + 1 \<le> card (approvers L (bft_inner c) b')"
    using assms(5,6) q quorum_verify_True [of L "bft_inner c"] by (auto simp: bft_verify_def split: if_splits)
  moreover have "card (approvers L (bft_inner c) b) + card (approvers L (bft_inner c) b')
      \<le> card M + card (approvers L (bft_inner c) b \<inter> approvers L (bft_inner c) b')"
    using approvers_members [of L "bft_inner c"] c(2) by (intro card_intersection [OF assms(2)]) auto
  ultimately show ?thesis using assms(3) by linarith
qed

text \<open>
  \<open>BftConsensus::verify\<close> looks for the leader among the names of the signatures, not among
  the valid ones: any block the quorum part verifies, with an entry appended that names the
  leader but carries somebody else's key and any bytes as signature, verifies.
\<close>

theorem bft_leader_signature_unchecked:
  assumes "quorum_verify L (bft_inner c) b = Inr True" "node_derive L pk \<noteq> leader c (bk_height b)"
  shows "bft_verify L c (b\<lparr>bk_consensus := \<lparr>cp_network_id = cp_network_id (bk_consensus b),
    cp_signatures = cp_signatures (bk_consensus b)
      @ [\<lparr>cs_signer = leader c (bk_height b), cs_public_key = pk, cs_signature = sig\<rparr>]\<rparr>\<rparr>) = Inr True"
proof -
  have "valid_signers L M p V (as @ [a]) = valid_signers L M p V as"
    if "node_derive L (cs_public_key a) \<noteq> cs_signer a" for M p V as a
    using that by (induction as arbitrary: V) (auto simp: bind_r_def split: sum.splits)
  then show ?thesis using assms by (auto simp: bft_verify_def quorum_verify_def list_ex_iff bind_r_def
      split: if_splits sum.splits)
qed

section \<open>Properties of memberships\<close>

text \<open>
  An invitation issued by an identity is accepted exactly by the node it was issued for,
  from the moment of issue until it expires, and the membership in it exactly where its
  issuer is trusted.
\<close>

theorem invitation_round_trip:
  assumes "sign_ok L" "identity_wf L issuer"
    and "serde_at (sd_membership L) (network, member, ni_node_id issuer, permissions, expiry)"
  shows "\<exists>i. invitation_issue L network member permissions expiry bootstrap issued issuer = Inr i
    \<and> mb_permissions (iv_membership i) = permissions \<and> mb_network_id (iv_membership i) = network
    \<and> invitation_verify_for L i node now = Inr (issued \<le> now \<and> node = member \<and> (case expiry of None \<Rightarrow> True | Some e \<Rightarrow> now < e))
    \<and> membership_verify L (iv_membership i) trusted now
        = Inr (ni_node_id issuer \<in> trusted \<and> (case expiry of None \<Rightarrow> True | Some e \<Rightarrow> now < e))"
proof -
  obtain p where p: "to_vec (sd_membership L) (network, member, ni_node_id issuer, permissions, expiry) = Inr p"
    using serde_atE [OF assms(3)] by metis
  obtain s where s: "identity_sign L issuer p = Inr s" "verify L (ni_public_key issuer) p s = Inr True"
    by (rule sign_verifies [OF assms(1,2)])
  let ?m = "\<lparr>mb_network_id = network, mb_member = member, mb_issuer = ni_node_id issuer, mb_permissions = permissions,
    mb_expires_at = expiry, mb_issuer_public_key = ni_public_key issuer, mb_signature = s\<rparr>"
  have iss: "membership_issue L network member permissions expiry issuer = Inr ?m"
    using p s by (simp add: membership_issue_def membership_payload_def membership_body_of_def)
  have ver: "membership_verify L ?m T now = Inr (ni_node_id issuer \<in> T \<and> (case expiry of None \<Rightarrow> True | Some e \<Rightarrow> now < e))" for T
    using p s identity_wf_fields(2) [OF assms(2)]
    by (auto simp: membership_verify_def membership_payload_def membership_body_of_def)
  show ?thesis using ver by (auto simp: invitation_issue_def iss invitation_verify_for_def)
qed

section \<open>A concrete committee\<close>

definition example_ledger_lib ::
  "ledger_event list \<Rightarrow> signed_event list \<Rightarrow> proposal list \<Rightarrow> block list \<Rightarrow> membership_body list \<Rightarrow> ledger_lib" where
  "example_ledger_lib evs sevs props blocks mems =
     \<lparr>sha256 = example_sha, hex_encode = (\<lambda>b. concat (map fmt_02x b)), hex_decode = unhex,
      try_decode_protobuf = (\<lambda>b. Inr (PublicKey b)), encode_protobuf = public_material,
      public_of = (\<lambda>k. PublicKey (key_material k)), public_verify = (\<lambda>p m s. s = public_material p @ m),
      keypair_sign = (\<lambda>k m. Inr (key_material k @ m)),
      from_protobuf_encoding = (\<lambda>b. Inr (Keypair b)), to_protobuf_encoding = (\<lambda>k. Inr (key_material k)),
      sd_event = table_serde evs, sd_signed_event = table_serde sevs, sd_proposal = table_serde props,
      sd_block = table_serde blocks, to_vec_pretty = to_vec (table_serde blocks), sd_membership = table_serde mems\<rparr>"

lemma example_ledger_lib_ok: "sign_ok (example_ledger_lib a b c d e)" "sha_ok (example_ledger_lib a b c d e)"
  by (simp_all add: sign_ok_def sha_ok_def example_ledger_lib_def example_sha_def min_def)

definition example_block :: "u64 \<Rightarrow> block" where
  "example_block t = \<lparr>bk_version = 1, bk_previous = None, bk_height = 0, bk_timestamp = t, bk_events_root = [],
     bk_events = [], bk_consensus = \<lparr>cp_network_id = ''n'', cp_signatures = []\<rparr>\<rparr>"

abbreviation consensus_lib :: ledger_lib where
  "consensus_lib \<equiv> example_ledger_lib [] [] [proposal_of (example_block 1), proposal_of (example_block 2)] [] []"

definition example_member :: "u8 \<Rightarrow> node_identity" where
  "example_member k =
     \<lparr>ni_node_id = node_derive consensus_lib [k], ni_keypair = Keypair [k], ni_public_key = [k]\<rparr>"

lemma example_member_wf: "identity_wf (example_ledger_lib a b c d e) (example_member k)"
  by (simp add: identity_wf_def example_member_def identity_of_def example_ledger_lib_def node_derive_def Let_def)

lemma example_member_id: "ni_node_id (example_member k) = ni_node_id (example_member j) \<longleftrightarrow> k = j"
  by (auto simp: example_member_def node_derive_def example_ledger_lib_def example_sha_def)

lemma example_proposals: "t \<in> {1, 2} \<Longrightarrow> serde_at (sd_proposal consensus_lib) (proposal_of (example_block t))"
  by (auto simp: example_ledger_lib_def intro!: table_serde_at)

theorem quorum_finalize_complete_witness:
  "let c = \<lparr>qc_network_id = ''n'', qc_members = ni_node_id ` example_member ` {1, 2, 3}, qc_quorum = 2\<rparr>;
       (r, b) = quorum_finalize consensus_lib c (example_block 1) [example_member 1, example_member 1, example_member 3]
   in r = Inr () \<and> quorum_verify consensus_lib c b = Inr True"
proof -
  let ?c = "\<lparr>qc_network_id = ''n'', qc_members = ni_node_id ` example_member ` {1, 2, 3}, qc_quorum = 2\<rparr>"
  have "ni_node_id ` set [example_member 1, example_member 1, example_member 3] \<inter> qc_members ?c
      = {ni_node_id (example_member 1), ni_node_id (example_member 3)}" by auto
  then have "card (ni_node_id ` set [example_member 1, example_member 1, example_member 3] \<inter> qc_members ?c) = 2"
    by (simp add: example_member_id)
  then show ?thesis
    using quorum_finalize_complete [OF example_ledger_lib_ok(1) _ example_proposals,
      of "[example_member 1, example_member 1, example_member 3]" 1 ?c]
    by (simp add: example_member_wf case_prod_unfold Let_def)
qed

text \<open>When all members approve, a block is final.\<close>

lemma bft_finalize_unanimous:
  assumes "sign_ok L" "list_all (identity_wf L) ids" "serde_at (sd_proposal L) (proposal_of b)"
    and "bft_wf c" "ni_node_id ` set ids = qc_members (bft_inner c)"
    and "qc_quorum (bft_inner c) \<le> card (qc_members (bft_inner c))"
  shows "\<exists>b'. bft_finalize L c b ids = (Inr (), b') \<and> bft_verify L c b' = Inr True"
proof -
  obtain p where p: "proposal_bytes L b = Inr p"
    using serde_atE [OF assms(3)] by (metis map_err_simps(2) proposal_bytes_def)
  obtain sigs where "list_all (approves L (qc_members (bft_inner c)) p) sigs" and sg: "distinct (map cs_signer sigs)"
    "cs_signer ` set sigs = ni_node_id ` set ids \<inter> qc_members (bft_inner c)"
    "quorum_finalize L (bft_inner c) b ids =
      (if length sigs < qc_quorum (bft_inner c) then Inl LeNoQuorum else Inr (),
       b\<lparr>bk_consensus := \<lparr>cp_network_id = qc_network_id (bft_inner c), cp_signatures = sigs\<rparr>\<rparr>)"
    by (rule quorum_finalize_ok [OF assms(1,2) p])
  have "length sigs = card (qc_members (bft_inner c))"
    using distinct_card [OF sg(1)] sg(2) assms(5) by simp
  moreover have "leader c (bk_height b) \<in> ni_node_id ` set ids"
    using leader_member [OF assms(4), of "bk_height b"] assms(5) by simp
  then have "list_ex (\<lambda>i. ni_node_id i = leader c (bk_height b)) ids"
    by (auto simp: list_ex_iff image_iff eq_commute)
  ultimately have fin: "bft_finalize L c b ids = (Inr (),
      b\<lparr>bk_consensus := \<lparr>cp_network_id = qc_network_id (bft_inner c), cp_signatures = sigs\<rparr>\<rparr>)"
    using sg(3) assms(6) by (simp add: bft_finalize_def)
  then show ?thesis using bft.finalize_verifies [of L ids c b] assms(1,2,4) by blast
qed

theorem bft_quorums_intersect_witness:
  "\<exists>c b b'. bft_new ''n'' (ni_node_id ` example_member ` {1, 2, 3, 4}) 1 = Inr c
     \<and> bft_verify consensus_lib c b = Inr True \<and> bft_verify consensus_lib c b' = Inr True
     \<and> 2 \<le> card (approvers consensus_lib (bft_inner c) b \<inter> approvers consensus_lib (bft_inner c) b')"
proof -
  let ?M = "ni_node_id ` example_member ` {1, 2, 3, 4}"
  have card: "card ?M = 4" by (simp add: example_member_id)
  then obtain c where c: "bft_new ''n'' ?M 1 = Inr c"
    by (auto simp: bft_new_def quorum_new_def saturate_def)
  note wf = bft_new_Inr [OF c]
  have "\<exists>b'. bft_finalize consensus_lib c (example_block t) (map example_member [1, 2, 3, 4]) = (Inr (), b')
      \<and> bft_verify consensus_lib c b' = Inr True" if "t \<in> {1, 2}" for t
    by (rule bft_finalize_unanimous [OF example_ledger_lib_ok(1) _ example_proposals [OF that]])
       (use wf card in \<open>auto simp: example_member_wf saturate_def\<close>)
  then obtain b b' where "bft_verify consensus_lib c b = Inr True" "bft_verify consensus_lib c b' = Inr True" by blast
  from bft_quorums_intersect [OF c _ _ _ this] this c card show ?thesis by force
qed

theorem bft_leader_signature_unchecked_witness:
  "\<exists>c b. quorum_verify consensus_lib (bft_inner c) b = Inr True
     \<and> bft_verify consensus_lib c (b\<lparr>bk_consensus := \<lparr>cp_network_id = cp_network_id (bk_consensus b),
         cp_signatures = cp_signatures (bk_consensus b)
           @ [\<lparr>cs_signer = leader c (bk_height b), cs_public_key = [9], cs_signature = [7]\<rparr>]\<rparr>\<rparr>) = Inr True"
proof -
  let ?c = "\<lparr>bft_inner = \<lparr>qc_network_id = ''n'', qc_members = ni_node_id ` example_member ` {1, 2, 3, 4}, qc_quorum = 3\<rparr>,
    bft_ordered_members = map (ni_node_id \<circ> example_member) [1, 2, 3, 4], bft_max_faults = 1\<rparr>"
  have "\<exists>b. bft_finalize consensus_lib ?c (example_block 1) (map example_member [1, 2, 3, 4]) = (Inr (), b)
      \<and> bft_verify consensus_lib ?c b = Inr True"
    by (rule bft_finalize_unanimous [OF example_ledger_lib_ok(1) _ example_proposals])
       (auto simp: example_member_wf bft_wf_def example_member_id)
  then obtain b where q: "quorum_verify consensus_lib (bft_inner ?c) b = Inr True"
    by (auto simp: bft_verify_def split: if_splits)
  have "bft_wf ?c" by (auto simp: bft_wf_def)
  then have "leader ?c (bk_height b) \<in> ni_node_id ` example_member ` {1, 2, 3, 4}" using leader_member by fastforce
  moreover have "node_derive consensus_lib [9] = ni_node_id (example_member 9)" by (simp add: example_member_def)
  ultimately have "node_derive consensus_lib [9] \<noteq> leader ?c (bk_height b)" by (auto simp: example_member_id)
  from bft_leader_signature_unchecked [OF q this] q show ?thesis by blast
qed

theorem invitation_round_trip_witness:
  "let L = example_ledger_lib [] [] [] [] [(''n'', NodeId [9], ni_node_id (example_member 1), [''execute''], Some 8)] in
   \<exists>i. invitation_issue L ''n'' (NodeId [9]) [''execute''] (Some 8) [] 3 (example_member 1) = Inr i
     \<and> invitation_verify_for L i (NodeId [9]) 7 = Inr True"
proof -
  let ?L = "example_ledger_lib [] [] [] [] [(''n'', NodeId [9], ni_node_id (example_member 1), [''execute''], Some 8)]"
  have "serde_at (sd_membership ?L) (''n'', NodeId [9], ni_node_id (example_member 1), [''execute''], Some 8)"
    by (simp add: example_ledger_lib_def table_serde_at)
  from invitation_round_trip [OF example_ledger_lib_ok(1) example_member_wf this, of "[]" 3 "NodeId [9]" 7] show ?thesis
    by (auto simp: Let_def)
qed

end
