(* ===== verification/Ledger_Chain.thy ===== *)
theory Ledger_Chain
  imports Ledger
begin

text \<open>
  The persistent hash chain of \<open>crates/peerless-ledger\<close>: \<open>Ledger::open\<close>, \<open>next_block\<close> and
  \<open>append\<close> over the file system. A block is a file named by its height and hash. The
  consensus engine an operation is given is its \<open>verify\<close> function.
\<close>

section \<open>The ledger\<close>

record ledger =
  lg_root :: path
  lg_blocks :: "block list"

definition hex_string :: "hash \<Rightarrow> string" where
  "hex_string value = concat (map fmt_02x value)"

definition block_name :: "u64 \<Rightarrow> hash \<Rightarrow> string" where
  "block_name height h = fmt_020 (unat height) @ ''-'' @ hex_string h @ ''.json''"

definition last_hash :: "'z ledger_lib_scheme \<Rightarrow> block list \<Rightarrow> ledger_error + hash option" where
  "last_hash L blocks =
     (if blocks = [] then Inr None else bind_r (block_hash L (last blocks)) (\<lambda>h. Inr (Some h)))"

text \<open>\<open>Path::extension\<close>: what follows the last dot, unless the dot is the first character.\<close>

definition extension :: "string \<Rightarrow> string option" where
  "extension name =
     (let before = dropWhile (\<lambda>c. c \<noteq> CHR ''.'') (rev name) in
      if length before \<le> 1 then None else Some (rev (takeWhile (\<lambda>c. c \<noteq> CHR ''.'') (rev name))))"

definition load_block :: "'z ledger_lib_scheme \<Rightarrow> path \<Rightarrow> string \<Rightarrow> (fs, ledger_error, block) action" where
  "load_block L base name =
     bind_m (from_m (\<lambda>_. LeInvalidBlock) (read_limited (base @ [name]) MAX_BLOCK_BYTES)) (\<lambda>bytes.
     bind_m (pure_m (map_err LeJson (from_slice (sd_block L) bytes))) (\<lambda>b.
     bind_m (pure_m (block_hash L b)) (\<lambda>h.
     pure_m (if name \<noteq> block_name (bk_height b) h then Inl LeInvalidBlock else Inr b))))"

fun check_chain ::
  "'z ledger_lib_scheme \<Rightarrow> hash option \<Rightarrow> string option \<Rightarrow> u64 option \<Rightarrow> nat \<Rightarrow> block list \<Rightarrow> ledger_error + unit" where
  "check_chain L previous network_id last_timestamp height [] = Inr ()"
| "check_chain L previous network_id last_timestamp height (b # bs) =
     (if bk_version b \<noteq> 1 \<or> bk_height b \<noteq> of_nat height \<or> bk_previous b \<noteq> previous then Inl LeInvalidBlock
      else
        bind_r (events_hashes L (bk_events b)) (\<lambda>hashes.
        if bk_events_root b \<noteq> merkle_root L hashes
           \<or> (case network_id of None \<Rightarrow> False | Some known \<Rightarrow> known \<noteq> cp_network_id (bk_consensus b))
           \<or> (case last_timestamp of None \<Rightarrow> False | Some known \<Rightarrow> known > bk_timestamp b)
        then Inl LeInvalidBlock
        else
          bind_r (block_hash L b) (\<lambda>h.
          check_chain L (Some h) (Some (cp_network_id (bk_consensus b))) (Some (bk_timestamp b)) (Suc height) bs)))"

definition ledger_open :: "'z ledger_lib_scheme \<Rightarrow> path \<Rightarrow> (fs, ledger_error, ledger) action" where
  "ledger_open L base =
     bind_m (from_m LeIo (create_dir_all base)) (\<lambda>_.
     bind_m (from_m LeIo (read_dir base)) (\<lambda>files.
     bind_m (map_m (load_block L base) (filter (\<lambda>name. extension name = Some ''json'') (sort files))) (\<lambda>blocks.
     bind_m (pure_m (check_chain L None None None 0 blocks)) (\<lambda>_.
     pure_m (Inr \<lparr>lg_root = base, lg_blocks = blocks\<rparr>)))))"

definition next_block ::
  "'z ledger_lib_scheme \<Rightarrow> ledger \<Rightarrow> signed_event list \<Rightarrow> u64 \<Rightarrow> string \<Rightarrow> ledger_error + block" where
  "next_block L lg events timestamp network_id =
     bind_r (last_hash L (lg_blocks lg)) (\<lambda>previous.
     bind_r (events_hashes L events) (\<lambda>hashes.
     Inr \<lparr>bk_version = 1, bk_previous = previous, bk_height = of_nat (length (lg_blocks lg)),
          bk_timestamp = timestamp, bk_events_root = merkle_root L hashes, bk_events = events,
          bk_consensus = \<lparr>cp_network_id = network_id, cp_signatures = []\<rparr>\<rparr>))"

text \<open>The checks of \<open>append\<close>, in the order in which the code evaluates them.\<close>

definition append_check ::
  "'z ledger_lib_scheme \<Rightarrow> (block \<Rightarrow> ledger_error + bool) \<Rightarrow> block list \<Rightarrow> block \<Rightarrow> ledger_error + unit" where
  "append_check L verifies blocks b =
     bind_r (map_r (event_verify L) (bk_events b)) (\<lambda>valid.
     let valid_events = list_all (\<lambda>v. v) valid in
     if bk_height b \<noteq> of_nat (length blocks) then Inl LeInvalidBlock
     else
       bind_r (last_hash L blocks) (\<lambda>previous.
       if bk_previous b \<noteq> previous \<or> bk_version b \<noteq> 1
          \<or> (blocks \<noteq> [] \<and> bk_timestamp b < bk_timestamp (last blocks))
       then Inl LeInvalidBlock
       else
         bind_r (events_hashes L (bk_events b)) (\<lambda>hashes.
         if bk_events_root b \<noteq> merkle_root L hashes then Inl LeInvalidBlock
         else
           bind_r (verifies b) (\<lambda>ok.
           if \<not> ok \<or> \<not> valid_events then Inl LeInvalidBlock else Inr ()))))"

definition append_block ::
  "'z ledger_lib_scheme \<Rightarrow> (block \<Rightarrow> ledger_error + bool) \<Rightarrow> ledger \<Rightarrow> block \<Rightarrow> (fs, ledger_error, hash) action" where
  "append_block L verifies lg b =
     bind_m (pure_m (append_check L verifies (lg_blocks lg) b)) (\<lambda>_.
     bind_m (pure_m (block_hash L b)) (\<lambda>h.
     bind_m (from_m LeIo (create_dir_all (lg_root lg))) (\<lambda>_.
     bind_m (pure_m (map_err LeJson (to_vec_pretty L b))) (\<lambda>bytes.
     if length bytes > MAX_BLOCK_BYTES then pure_m (Inl LeInvalidBlock)
     else
       bind_m (from_m LeIo (atomic_create (lg_root lg @ [block_name (bk_height b) h]) bytes None)) (\<lambda>_.
       pure_m (Inr h))))))"

definition ledger_append ::
  "'z ledger_lib_scheme \<Rightarrow> (block \<Rightarrow> ledger_error + bool) \<Rightarrow> block \<Rightarrow> (ledger \<times> fs, ledger_error, hash) action" where
  "ledger_append L verifies b = (\<lambda>(lg, s).
     case append_block L verifies lg b s of
       (Inl e, s) \<Rightarrow> (Inl e, lg, s)
     | (Inr h, s) \<Rightarrow> (Inr h, lg\<lparr>lg_blocks := lg_blocks lg @ [b]\<rparr>, s))"

definition ledger_height :: "ledger \<Rightarrow> u64" where
  "ledger_height lg = of_nat (length (lg_blocks lg))"

section \<open>Names of blocks\<close>

lemma string_less_append:
  assumes "length a = length b" "a < (b :: string)"
  shows "a @ x < b @ y"
  using assms by (induction a b rule: list_induct2) auto

definition digits :: "string \<Rightarrow> bool" where
  "digits s \<longleftrightarrow> list_all (\<lambda>c. 48 \<le> (of_char c :: nat) \<and> of_char c < (58 :: nat)) s"

lemma read_dec_Cons: "read_dec (c # s) = (of_char c - 48) * 10 ^ length s + read_dec s"
proof (induction s rule: rev_induct)
  case Nil
  then show ?case using read_dec_snoc [of "[]" c] by simp
next
  case (snoc d s)
  have "read_dec (c # s @ [d]) = read_dec (c # s) * 10 + (of_char d - 48)"
    using read_dec_snoc [of "c # s" d] by simp
  then show ?case by (simp add: snoc algebra_simps)
qed

lemma read_dec_bound: "digits s \<Longrightarrow> read_dec s < 10 ^ length s"
proof (induction s)
  case (Cons c s)
  have "of_char c - 48 \<le> (9 :: nat)" using Cons.prems by (auto simp: digits_def)
  then have "(of_char c - 48) * 10 ^ length s \<le> (9 :: nat) * 10 ^ length s" by (rule mult_right_mono) simp
  moreover have "read_dec s < 10 ^ length s" using Cons by (simp add: digits_def)
  moreover have "(10 :: nat) ^ length (c # s) = 10 * 10 ^ length s" by simp
  ultimately show ?case unfolding read_dec_Cons by linarith
qed simp

lemma digits_order:
  assumes "length a = length b" "digits a" "digits b" "read_dec a < read_dec b"
  shows "a < b"
  using assms
proof (induction a b rule: list_induct2)
  case (Cons c a d b)
  let ?c = "of_char c - 48 :: nat" and ?d = "of_char d - 48 :: nat"
  have lt: "?c * 10 ^ length b + read_dec a < ?d * 10 ^ length b + read_dec b"
    using Cons.prems(3) Cons.hyps by (simp add: read_dec_Cons)
  have "read_dec b < 10 ^ length b" using Cons.prems(2) by (intro read_dec_bound) (simp add: digits_def)
  with lt have "?c * 10 ^ length b < Suc ?d * 10 ^ length b" by simp
  then have "?c < Suc ?d" by (simp only: mult_less_cancel2)
  moreover have "48 \<le> (of_char c :: nat)" "48 \<le> (of_char d :: nat)" using Cons.prems by (simp_all add: digits_def)
  ultimately have le: "of_char c \<le> (of_char d :: nat)" by linarith
  show ?case
  proof (cases "c = d")
    case True
    then show ?thesis using Cons lt by (simp add: digits_def)
  next
    case False
    then have "of_char c < (of_char d :: nat)" using le by (simp add: order_less_le)
    then show ?thesis by (simp add: less_char_def)
  qed
qed simp

lemma digits_fmt_020: "digits (fmt_020 n)"
proof -
  have "digits (fmt_dec n)" for n
  proof (induction n rule: fmt_dec.induct)
    case (1 n)
    show ?case
    proof (cases "n < 10")
      case True
      then show ?thesis by (simp add: fmt_dec.simps [of n] digits_def of_char_digit)
    next
      case False
      then have "fmt_dec n = fmt_dec (n div 10) @ [char_of (48 + n mod 10)]" by (simp add: fmt_dec.simps [of n])
      then show ?thesis using 1 [OF False] of_char_digit [of "n mod 10"] by (simp add: digits_def)
    qed
  qed
  moreover have "digits (replicate k (CHR ''0''))" for k by (induction k) (simp_all add: digits_def)
  ultimately show ?thesis by (simp add: fmt_020_def digits_def)
qed

lemma read_dec_fmt_020 [simp]: "read_dec (fmt_020 n) = n"
  by (simp add: fmt_020_def)

lemma block_name_less: "h < h' \<Longrightarrow> block_name h x < block_name h' y"
  unfolding block_name_def
  by (intro string_less_append digits_order) (simp_all add: digits_fmt_020 word_less_nat_alt)

lemma extension_suffix:
  assumes "base \<noteq> []" "CHR ''.'' \<notin> set ext"
  shows "extension (base @ ''.'' @ ext) = Some ext"
proof -
  have ne: "c \<noteq> CHR ''.''" if "c \<in> set (rev ext)" for c using assms(2) that by auto
  have "dropWhile (\<lambda>c. c \<noteq> CHR ''.'') (rev ext @ CHR ''.'' # rev base) = CHR ''.'' # rev base"
    "takeWhile (\<lambda>c. c \<noteq> CHR ''.'') (rev ext @ CHR ''.'' # rev base) = rev ext"
    using dropWhile_append2 [of "rev ext" "\<lambda>c. c \<noteq> CHR ''.''" "CHR ''.'' # rev base"]
      takeWhile_append2 [of "rev ext" "\<lambda>c. c \<noteq> CHR ''.''" "CHR ''.'' # rev base"] ne by simp_all
  then show ?thesis using assms(1) by (simp add: extension_def Let_def)
qed

lemma extension_block_name: "extension (block_name h x) = Some ''json''"
  using extension_suffix [of "fmt_020 (unat h) @ ''-'' @ hex_string x" "''json''"]
  by (simp add: block_name_def)

lemma extension_temp: "extension (last (temp_path p name pid n)) = Some ''tmp''"
  using extension_suffix [of "''.'' @ name @ ''.'' @ fmt_dec pid @ ''.'' @ fmt_dec (unat n)" "''tmp''"]
  by (simp add: temp_path_def)

section \<open>Valid chains\<close>

definition chain_ok :: "'z ledger_lib_scheme \<Rightarrow> block list \<Rightarrow> bool" where
  "chain_ok L bs \<longleftrightarrow> check_chain L None None None 0 bs = Inr ()"

definition sound_events :: "'z ledger_lib_scheme \<Rightarrow> block \<Rightarrow> bool" where
  "sound_events L b \<longleftrightarrow> (\<exists>hs. events_hashes L (bk_events b) = Inr hs \<and> bk_events_root b = merkle_root L hs)"

definition event_bytes :: "'z ledger_lib_scheme \<Rightarrow> signed_event \<Rightarrow> bytes" where
  "event_bytes L e = (case to_vec (sd_signed_event L) e of Inr bytes \<Rightarrow> bytes | Inl _ \<Rightarrow> [])"

text \<open>The strings hashed for the root over the events and for the check of a proof for \<open>e\<close>.\<close>

definition inclusion_inputs :: "'z ledger_lib_scheme \<Rightarrow> signed_event list \<Rightarrow> signed_event \<Rightarrow> merkle_proof_t \<Rightarrow> bytes list" where
  "inclusion_inputs L events e p =
     map (event_bytes L) (e # events) @ root_inputs L (map (\<lambda>x. sha256 L (event_bytes L x)) events)
     @ climb_inputs L (sha256 L (event_bytes L e)) (mp_index p) (mp_siblings p)"

lemma events_hashes_bytes: "events_hashes L events = Inr hs \<Longrightarrow> hs = map (\<lambda>x. sha256 L (event_bytes L x)) events"
  unfolding events_hashes_def
proof (induction events arbitrary: hs)
  case (Cons x events)
  then show ?case by (auto simp: event_hash_def event_bytes_def result_simps split: sum.splits)
qed simp

definition links :: "'z ledger_lib_scheme \<Rightarrow> block \<Rightarrow> block \<Rightarrow> bool" where
  "links L a b \<longleftrightarrow> (\<exists>h. block_hash L a = Inr h \<and> bk_previous b = Some h)
     \<and> cp_network_id (bk_consensus a) = cp_network_id (bk_consensus b) \<and> bk_timestamp a \<le> bk_timestamp b"

lemma check_chain_Cons:
  "check_chain L p n t k (b # bs) = Inr () \<longleftrightarrow>
     bk_version b = 1 \<and> bk_height b = of_nat k \<and> bk_previous b = p
     \<and> n \<in> {None, Some (cp_network_id (bk_consensus b))} \<and> (case t of None \<Rightarrow> True | Some t \<Rightarrow> t \<le> bk_timestamp b)
     \<and> sound_events L b
     \<and> (\<exists>h. block_hash L b = Inr h
          \<and> check_chain L (Some h) (Some (cp_network_id (bk_consensus b))) (Some (bk_timestamp b)) (Suc k) bs = Inr ())"
  by (cases "events_hashes L (bk_events b)")
     (auto simp: result_simps sound_events_def not_less split: option.splits if_splits)

lemma check_chain_snoc:
  "check_chain L p n t k (bs @ [b]) = Inr () \<longleftrightarrow>
     check_chain L p n t k bs = Inr () \<and> bk_version b = 1 \<and> bk_height b = of_nat (k + length bs)
     \<and> (if bs = [] then bk_previous b = p \<and> n \<in> {None, Some (cp_network_id (bk_consensus b))}
          \<and> (case t of None \<Rightarrow> True | Some t \<Rightarrow> t \<le> bk_timestamp b)
        else links L (last bs) b)
     \<and> sound_events L b \<and> (\<exists>h. block_hash L b = Inr h)"
proof (induction bs arbitrary: p n t k)
  case Nil
  then show ?case by (simp add: check_chain_Cons del: check_chain.simps(2))
next
  case (Cons a bs)
  have eq: "of_nat (Suc k + length bs) = (of_nat (k + length (a # bs)) :: u64)" by simp
  show ?case unfolding append_Cons check_chain_Cons Cons.IH eq
    by (cases "bs = []") (auto simp: links_def)
qed

lemma chain_ok_Nil [simp]: "chain_ok L []"
  by (simp add: chain_ok_def)

lemma chain_ok_snoc:
  "chain_ok L (bs @ [b]) \<longleftrightarrow> chain_ok L bs \<and> bk_version b = 1 \<and> bk_height b = of_nat (length bs)
     \<and> (if bs = [] then bk_previous b = None else links L (last bs) b)
     \<and> sound_events L b \<and> (\<exists>h. block_hash L b = Inr h)"
  unfolding chain_ok_def check_chain_snoc by simp

lemma chain_ok_prefix: "chain_ok L (bs @ cs) \<Longrightarrow> chain_ok L bs"
  by (induction cs rule: rev_induct) (auto simp: chain_ok_snoc simp flip: append_assoc)

lemma chain_ok_nth:
  assumes "chain_ok L bs" "i < length bs"
  shows "bk_height (bs ! i) = of_nat i" "\<exists>h. block_hash L (bs ! i) = Inr h" "sound_events L (bs ! i)"
    "0 < i \<Longrightarrow> links L (bs ! (i - 1)) (bs ! i)"
proof -
  have "bs = (take i bs @ [bs ! i]) @ drop (Suc i) bs" using id_take_nth_drop [OF assms(2)] by simp
  with assms(1) have "chain_ok L (take i bs @ [bs ! i])" by (metis chain_ok_prefix)
  then have *: "bk_height (bs ! i) = of_nat i \<and> (\<exists>h. block_hash L (bs ! i) = Inr h) \<and> sound_events L (bs ! i)
      \<and> (if take i bs = [] then bk_previous (bs ! i) = None else links L (last (take i bs)) (bs ! i))"
    using assms(2) by (simp add: chain_ok_snoc)
  then show "bk_height (bs ! i) = of_nat i" "\<exists>h. block_hash L (bs ! i) = Inr h" "sound_events L (bs ! i)" by blast+
  assume "0 < i"
  with assms(2) have ne: "take i bs \<noteq> []" by auto
  then have "last (take i bs) = bs ! (i - 1)" using assms(2) \<open>0 < i\<close> by (simp add: last_conv_nth)
  with ne * show "links L (bs ! (i - 1)) (bs ! i)" by simp
qed

section \<open>The chain on disk\<close>

definition name_of :: "'z ledger_lib_scheme \<Rightarrow> block \<Rightarrow> string" where
  "name_of L b = (case block_hash L b of Inl _ \<Rightarrow> [] | Inr h \<Rightarrow> block_name (bk_height b) h)"

definition holds_block :: "'z ledger_lib_scheme \<Rightarrow> fs \<Rightarrow> path \<Rightarrow> block \<Rightarrow> bool" where
  "holds_block L s q b \<longleftrightarrow> (\<exists>bytes m. node_at s q = Some (File bytes m) \<and> length bytes \<le> MAX_BLOCK_BYTES
     \<and> from_slice (sd_block L) bytes = Inr b)"

text \<open>What the memory of a ledger and the files below its root have to do with each other.\<close>

definition on_disk :: "'z ledger_lib_scheme \<Rightarrow> ledger \<Rightarrow> fs \<Rightarrow> bool" where
  "on_disk L lg s \<longleftrightarrow>
     (\<forall>p r. lg_root lg = p @ r \<longrightarrow> node_at s p = Some Dir)
     \<and> {n. node_at s (lg_root lg @ [n]) \<noteq> None \<and> extension n = Some ''json''} = name_of L ` set (lg_blocks lg)
     \<and> (\<forall>b \<in> set (lg_blocks lg). holds_block L s (lg_root lg @ [name_of L b]) b)"

definition stored :: "'z ledger_lib_scheme \<Rightarrow> ledger \<Rightarrow> fs \<Rightarrow> bool" where
  "stored L lg s \<longleftrightarrow> chain_ok L (lg_blocks lg) \<and> on_disk L lg s"

definition numbered :: "'z ledger_lib_scheme \<Rightarrow> block list \<Rightarrow> bool" where
  "numbered L bs \<longleftrightarrow> (\<forall>i < length bs. bk_height (bs ! i) = of_nat i \<and> (\<exists>h. block_hash L (bs ! i) = Inr h))"

lemma chain_numbered: "chain_ok L bs \<Longrightarrow> numbered L bs"
  using chain_ok_nth by (auto simp: numbered_def)

lemma names_sorted:
  assumes "numbered L bs" "length bs \<le> 2 ^ 64"
  shows "sorted_wrt (<) (map (name_of L) bs)"
  unfolding sorted_wrt_iff_nth_less
proof (intro allI impI)
  fix i j assume "i < j" "j < length (map (name_of L) bs)"
  then have ij: "i < length bs" "j < length bs" "i < j" by simp_all
  obtain x y where "block_hash L (bs ! i) = Inr x" "block_hash L (bs ! j) = Inr y"
    using assms(1) ij unfolding numbered_def by blast
  moreover have "(of_nat i :: u64) < of_nat j"
    using ij assms(2) by (simp add: word_less_nat_alt unat_of_nat)
  ultimately show "map (name_of L) bs ! i < map (name_of L) bs ! j"
    using ij block_name_less assms(1) by (simp add: name_of_def numbered_def)
qed

lemma load_block_Inr:
  assumes "load_block L base name s = (Inr b, s')"
  shows "node_at s' = node_at s" "holds_block L s (base @ [name]) b" "name = name_of L b"
    "\<exists>h. block_hash L b = Inr h"
proof -
  obtain bytes h where r: "read_limited (base @ [name]) MAX_BLOCK_BYTES s = (Inr bytes, s')"
    and b: "from_slice (sd_block L) bytes = Inr b" "block_hash L b = Inr h" "name = block_name (bk_height b) h"
    using assms by (auto simp: load_block_def result_simps split: if_splits)
  obtain content where c: "read_file (base @ [name]) s = (Inr content, s')"
    "length (take (min (MAX_BLOCK_BYTES + 1) (2 ^ 64 - 1)) content) \<le> MAX_BLOCK_BYTES"
    "bytes = take (min (MAX_BLOCK_BYTES + 1) (2 ^ 64 - 1)) content"
    using r by (auto simp: read_limited_def bind_io_def err_io_def ret_io_def Let_def
        split: sum.splits prod.splits if_splits)
  then have "bytes = content" "length content \<le> MAX_BLOCK_BYTES" by (auto simp: MAX_BLOCK_BYTES_def)
  with c read_file_effect [OF c(1)] b show "node_at s' = node_at s" "holds_block L s (base @ [name]) b"
    "name = name_of L b" "\<exists>h. block_hash L b = Inr h"
    by (auto simp: holds_block_def name_of_def)
qed

lemma load_blocks_Inr:
  assumes "map_m (load_block L base) names s = (Inr bs, s')"
  shows "node_at s' = node_at s \<and> names = map (name_of L) bs
    \<and> (\<forall>b \<in> set bs. holds_block L s (base @ [name_of L b]) b)"
  using assms
proof (induction names arbitrary: s bs)
  case (Cons n names)
  obtain b t bs' where b: "load_block L base n s = (Inr b, t)" "map_m (load_block L base) names t = (Inr bs', s')"
    "bs = b # bs'" using Cons.prems by (auto simp: result_simps)
  have "holds_block L t = holds_block L s" using load_block_Inr(1) [OF b(1)] by (simp add: holds_block_def fun_eq_iff)
  then show ?case using Cons.IH [OF b(2)] load_block_Inr [OF b(1)] b(3) by auto
qed simp

lemma ledger_open_stored:
  assumes "ledger_open L base s = (Inr lg, s')"
  shows "stored L lg s' \<and> lg_root lg = base"
proof -
  obtain s1 s2 files bs where o: "create_dir_all base s = (Inr (), s1)" "read_dir base s1 = (Inr files, s2)"
    "map_m (load_block L base) (filter (\<lambda>n. extension n = Some ''json'') (sort files)) s2 = (Inr bs, s')"
    "check_chain L None None None 0 bs = Inr ()" "lg = \<lparr>lg_root = base, lg_blocks = bs\<rparr>"
    using assms by (auto simp: ledger_open_def result_simps)
  note ld = load_blocks_Inr [OF o(3)] and rd = read_dir_run [OF o(2)]
  have same: "node_at s' = node_at s1" "node_at s2 = node_at s1" using ld rd by simp_all
  have "set (filter (\<lambda>n. extension n = Some ''json'') (sort files)) = set (map (name_of L) bs)" using ld by simp
  then have "{n. node_at s1 (base @ [n]) \<noteq> None \<and> extension n = Some ''json''} = name_of L ` set bs"
    using rd(3) by auto
  then show ?thesis using o(4,5) same ld create_dir_all_prefixes [OF o(1)]
    by (auto simp: stored_def on_disk_def chain_ok_def holds_block_def)
qed

lemma map_m_inverse: "(\<And>x. x \<in> set xs \<Longrightarrow> f (g x) s = (Inr x, s)) \<Longrightarrow> map_m f (map g xs) s = (Inr xs, s)"
  by (induction xs) (simp_all add: bind_m_def)

lemma load_block_stored:
  assumes "fs_faults s = []" "holds_block L s (base @ [name_of L b]) b" "block_hash L b = Inr h"
  shows "load_block L base (name_of L b) s = (Inr b, s)"
proof -
  obtain bytes m where f: "node_at s (base @ [name_of L b]) = Some (File bytes m)" "length bytes \<le> MAX_BLOCK_BYTES"
    "from_slice (sd_block L) bytes = Inr b" using assms(2) by (auto simp: holds_block_def)
  then have "read_limited (base @ [name_of L b]) MAX_BLOCK_BYTES s = (Inr bytes, s)"
    using assms(1) by (simp add: read_limited_def bind_io_def read_file_def syscall_def ret_io_def MAX_BLOCK_BYTES_def)
  then show ?thesis using f(3) assms(3) by (simp add: load_block_def bind_m_def from_m_def name_of_def)
qed

lemma ledger_open_on_disk:
  assumes "on_disk L lg s" "numbered L (lg_blocks lg)" "fs_faults s = []" "length (lg_blocks lg) \<le> 2 ^ 64"
  shows "ledger_open L (lg_root lg) s = (bind_r (check_chain L None None None 0 (lg_blocks lg)) (\<lambda>_. Inr lg), s)"
proof -
  let ?base = "lg_root lg" and ?bs = "lg_blocks lg"
  note st = assms(1) [unfolded on_disk_def]
  have dirs: "create_dir_all ?base s = (Inr (), s)"
    unfolding create_dir_all_def syscall_def using assms(3) st by (simp add: make_dirs_noop)
  have dir: "node_at s ?base = Some Dir" using st by (metis append_Nil2)
  obtain files where files: "read_dir ?base s = (Inr files, s)"
    using assms(3) dir by (simp add: read_dir_def syscall_def)
  note rd = read_dir_run [OF files]
  let ?names = "filter (\<lambda>n. extension n = Some ''json'') (sort files)"
  have sn: "set ?names = name_of L ` set ?bs" using st rd(3) by auto
  have "?names = map (name_of L) ?bs"
  proof (rule sorted_distinct_set_unique)
    show "sorted ?names" "distinct ?names" using rd(2) by (simp_all add: sorted_wrt_filter)
    show "sorted (map (name_of L) ?bs)" "distinct (map (name_of L) ?bs)"
      using names_sorted [OF assms(2,4)] by (auto simp: strict_sorted_iff)
    show "set ?names = set (map (name_of L) ?bs)" using sn by simp
  qed
  moreover have "map_m (load_block L ?base) (map (name_of L) ?bs) s = (Inr ?bs, s)"
  proof (rule map_m_inverse)
    fix b assume b: "b \<in> set ?bs"
    then obtain i where "i < length ?bs" "b = ?bs ! i" by (auto simp: in_set_conv_nth)
    then obtain h where "block_hash L b = Inr h" using assms(2) by (auto simp: numbered_def)
    then show "load_block L ?base (name_of L b) s = (Inr b, s)" using b st by (intro load_block_stored [OF assms(3)]) auto
  qed
  ultimately show ?thesis using dirs files
    by (simp add: ledger_open_def bind_m_def from_m_def bind_r_def split: sum.splits)
qed

lemma ledger_open_of_stored:
  assumes "stored L lg s" "fs_faults s = []" "length (lg_blocks lg) \<le> 2 ^ 64"
  shows "ledger_open L (lg_root lg) s = (Inr lg, s)"
  using ledger_open_on_disk [of L lg s] chain_numbered [of L "lg_blocks lg"] assms by (simp add: stored_def chain_ok_def)

section \<open>Appending\<close>

text \<open>Besides the target, creating a file touches only temporary names and missing directories.\<close>

lemma atomic_create_frame:
  assumes "atomic_create q bytes mode s = (r, s')" "q \<noteq> []" "p \<noteq> q" "butlast p = butlast q" "p \<noteq> []"
    and "extension (last p) \<noteq> Some ''tmp''"
  shows "node_at s' p = node_at s p"
proof -
  let ?n = "case file_name q of Some n \<Rightarrow> n | None \<Rightarrow> ''data''"
  have neq: "p \<noteq> temp_path (butlast q) ?n pid i" for pid i using assms(6) extension_temp by metis
  have dirs: "dirs_added (butlast q) u v \<Longrightarrow> node_at v p = node_at u p" for u v
    using dirs_added_parent [of p u v] assms(4,5) by simp
  have "bind_io (create_dir_all (butlast q)) (\<lambda>_. bind_io (unique_temporary (butlast q) (file_name q) mode) (\<lambda>t.
      match_io (write_and_sync t mode bytes)
        (\<lambda>_. match_io (hard_link t q) (\<lambda>_. bind_io (remove_file t) (\<lambda>_. sync_directory (butlast q)))
           (\<lambda>e. ignore_io (remove_file t) (err_io e)))
        (\<lambda>e. ignore_io (remove_file t) (err_io e)))) s = (r, s')"
    using assms(1,2) by (simp add: atomic_create_def path_parent_def)
  then show ?thesis
  proof (cases rule: staged_cases)
    case stopped
    then show ?thesis by (intro dirs)
  next
    case (failed e i pid s1 s2 c)
    then show ?thesis using ignored_remove [OF failed(4)] dirs [OF failed(1)] neq [of pid i] by auto
  next
    case (staged i pid s1 s2)
    note d = dirs [OF staged(1)] neq [of pid i]
    from staged(4) show ?thesis
    proof (cases rule: match_io_cases)
      case (Err e s3)
      then show ?thesis using ignored_remove [OF Err(2)] hard_link_effect [OF Err(1)] staged(3) d by auto
    next
      case (Ok u s3)
      have "node_at s3 p = node_at s2 p" using hard_link_effect [OF Ok(1)] assms(3) by auto
      moreover have "node_at s' p = node_at s3 p"
        using Ok(2) d(2) by (cases rule: bind_io_cases) (auto dest!: remove_file_effect sync_directory_effect)
      ultimately show ?thesis using staged(3) d by auto
    qed
  qed
qed

lemma append_check_Inr:
  assumes "append_check L verifies bs b = Inr ()"
  shows "bk_version b = 1" "bk_height b = of_nat (length bs)" "sound_events L b" "verifies b = Inr True"
    "bs = [] \<Longrightarrow> bk_previous b = None"
    "bs \<noteq> [] \<Longrightarrow> (\<exists>h. block_hash L (last bs) = Inr h \<and> bk_previous b = Some h) \<and> bk_timestamp (last bs) \<le> bk_timestamp b"
    "\<forall>e \<in> set (bk_events b). event_verify L e = Inr True"
proof -
  obtain vs hs where "list_all2 (\<lambda>e v. event_verify L e = Inr v) (bk_events b) vs" "list_all (\<lambda>v. v) vs"
    "events_hashes L (bk_events b) = Inr hs" "bk_events_root b = merkle_root L hs"
    and rest: "bk_height b = of_nat (length bs)" "last_hash L bs = Inr (bk_previous b)" "bk_version b = 1"
      "bs = [] \<or> bk_timestamp (last bs) \<le> bk_timestamp b" "verifies b = Inr True"
    using assms by (auto simp: append_check_def result_simps Let_def not_less split: if_splits)
  then show "sound_events L b" "\<forall>e \<in> set (bk_events b). event_verify L e = Inr True"
    by (auto simp: sound_events_def list_all2_conv_all_nth list_all_length in_set_conv_nth)
  show "bk_version b = 1" "bk_height b = of_nat (length bs)" "verifies b = Inr True" using rest by blast+
  show "bk_previous b = None" if "bs = []" using rest that by (simp add: last_hash_def)
  show "(\<exists>h. block_hash L (last bs) = Inr h \<and> bk_previous b = Some h) \<and> bk_timestamp (last bs) \<le> bk_timestamp b" if "bs \<noteq> []"
    using rest that by (auto simp: last_hash_def result_simps)
qed

definition same_network :: "block list \<Rightarrow> block \<Rightarrow> bool" where
  "same_network bs b \<longleftrightarrow> (bs = [] \<or> cp_network_id (bk_consensus (last bs)) = cp_network_id (bk_consensus b))"

lemma append_extends:
  assumes "chain_ok L bs" "append_check L verifies bs b = Inr ()" "same_network bs b" "block_hash L b = Inr h"
  shows "chain_ok L (bs @ [b])"
  using assms append_check_Inr [OF assms(2)]
  by (auto simp: chain_ok_snoc links_def same_network_def)

lemma ledger_append_Inr:
  assumes "ledger_append L verifies b (lg, s) = (Inr h, lg', s')"
  obtains s1 bytes where "append_check L verifies (lg_blocks lg) b = Inr ()" "block_hash L b = Inr h"
    "create_dir_all (lg_root lg) s = (Inr (), s1)" "to_vec_pretty L b = Inr bytes" "length bytes \<le> MAX_BLOCK_BYTES"
    "atomic_create (lg_root lg @ [block_name (bk_height b) h]) bytes None s1 = (Inr (), s')"
    "lg' = lg\<lparr>lg_blocks := lg_blocks lg @ [b]\<rparr>"
  using assms by (auto simp: ledger_append_def append_block_def result_simps not_less split: prod.splits sum.splits if_splits)

lemma ledger_append_Inl: "ledger_append L verifies b (lg, s) = (Inl e, lg', s') \<Longrightarrow> lg' = lg"
  by (auto simp: ledger_append_def split: prod.splits sum.splits)

text \<open>A successful append stores the block, and every file of the chain is as it was.\<close>

definition pretty_ok :: "'z ledger_lib_scheme \<Rightarrow> bool" where
  "pretty_ok L \<longleftrightarrow> (\<forall>b bytes. to_vec_pretty L b = Inr bytes \<longrightarrow> from_slice (sd_block L) bytes = Inr b)"

lemma prefix_dirs_kept:
  assumes "untouched (base @ [n]) s s'" "base = p @ r" "node_at s p = Some Dir"
  shows "node_at s' p = Some Dir"
proof -
  have "length p \<noteq> length (base @ [n])" using assms(2) by simp
  then have "p \<noteq> base @ [n]" by metis
  then show ?thesis using assms(1,3) by (simp add: untouched_def)
qed

lemma ledger_append_on_disk:
  assumes "on_disk L lg s" "ledger_append L verifies b (lg, s) = (Inr h, lg', s')" "pretty_ok L"
  shows "on_disk L lg' s'"
proof -
  let ?base = "lg_root lg" and ?q = "lg_root lg @ [name_of L b]"
  obtain s1 bytes where a: "append_check L verifies (lg_blocks lg) b = Inr ()" "block_hash L b = Inr h"
    "create_dir_all ?base s = (Inr (), s1)" "to_vec_pretty L b = Inr bytes" "length bytes \<le> MAX_BLOCK_BYTES"
    "atomic_create (?base @ [block_name (bk_height b) h]) bytes None s1 = (Inr (), s')"
    "lg' = lg\<lparr>lg_blocks := lg_blocks lg @ [b]\<rparr>" by (rule ledger_append_Inr [OF assms(2)])
  have q: "?base @ [block_name (bk_height b) h] = ?q" using a(2) by (simp add: name_of_def)
  note st = assms(1) [unfolded on_disk_def] and ac = atomic_create_outcome [OF a(6) [unfolded q]]
  have s1: "node_at s1 (?base @ [n]) = node_at s (?base @ [n])" for n
    using create_dir_all_effect [OF a(3)] dirs_added_parent [of "?base @ [n]"] by simp
  have dirs: "node_at s' p = Some Dir" if "?base = p @ r" for p r
    using prefix_dirs_kept [OF conjunct1 [OF ac] that] create_dir_all_prefixes [OF a(3) that] by blast
  have kept: "node_at s' (?base @ [n]) = node_at s (?base @ [n])"
    if "n \<noteq> name_of L b" "extension n \<noteq> Some ''tmp''" for n
    using atomic_create_frame [OF a(6) [unfolded q], of "?base @ [n]"] that s1 by simp
  have new: "node_at s' ?q = Some (File bytes None)" using ac by simp
  have ext: "extension (name_of L b) = Some ''json''" using a(2) by (simp add: name_of_def extension_block_name)
  have "{n. node_at s' (?base @ [n]) \<noteq> None \<and> extension n = Some ''json''}
      = insert (name_of L b) {n. node_at s (?base @ [n]) \<noteq> None \<and> extension n = Some ''json''}"
    using kept new ext by (intro set_eqI, rename_tac n, case_tac "n = name_of L b") auto
  moreover have "holds_block L s' ?q b"
    using new a(4,5) assms(3) unfolding holds_block_def pretty_ok_def by blast
  moreover have "holds_block L s' (?base @ [name_of L b']) b'" if "b' \<in> set (lg_blocks lg)" for b'
  proof -
    have h: "holds_block L s (?base @ [name_of L b']) b'" using st that by blast
    then have "node_at s1 (?base @ [name_of L b']) \<noteq> None" using s1 by (auto simp: holds_block_def)
    then have "name_of L b' \<noteq> name_of L b" using ac by auto
    moreover have "extension (name_of L b') = Some ''json''" using st that by blast
    ultimately show ?thesis using kept [of "name_of L b'"] h by (simp add: holds_block_def)
  qed
  ultimately show ?thesis using st dirs unfolding on_disk_def by (auto simp: a(7))
qed

lemma ledger_append_stored:
  assumes "stored L lg s" "ledger_append L verifies b (lg, s) = (Inr h, lg', s')" "pretty_ok L"
    and "same_network (lg_blocks lg) b"
  shows "stored L lg' s'"
proof -
  obtain s1 bytes where a: "append_check L verifies (lg_blocks lg) b = Inr ()" "block_hash L b = Inr h"
    "create_dir_all (lg_root lg) s = (Inr (), s1)" "to_vec_pretty L b = Inr bytes" "length bytes \<le> MAX_BLOCK_BYTES"
    "atomic_create (lg_root lg @ [block_name (bk_height b) h]) bytes None s1 = (Inr (), s')"
    "lg' = lg\<lparr>lg_blocks := lg_blocks lg @ [b]\<rparr>" by (rule ledger_append_Inr [OF assms(2)])
  have "chain_ok L (lg_blocks lg @ [b])"
    using append_extends [OF _ a(1) assms(4) a(2)] assms(1) by (simp add: stored_def)
  then show ?thesis using ledger_append_on_disk [OF _ assms(2,3)] assms(1) a(7) by (simp add: stored_def)
qed

text \<open>On a healthy disk a refused append leaves the files of the chain alone.\<close>

lemma ledger_append_refused:
  assumes "stored L lg s" "fs_faults s = []" "ledger_append L verifies b (lg, s) = (Inl e, lg', s')"
  shows "stored L lg' s'"
proof -
  let ?base = "lg_root lg"
  note st = assms(1) [unfolded stored_def on_disk_def]
  have dirs: "create_dir_all ?base s = (Inr (), s)"
    unfolding create_dir_all_def syscall_def using assms(2) st by (simp add: make_dirs_noop)
  have lg: "lg' = lg" by (rule ledger_append_Inl [OF assms(3)])
  consider "s' = s" | h bytes e' where "block_hash L b = Inr h"
      "atomic_create (?base @ [block_name (bk_height b) h]) bytes None s = (Inl e', s')"
    using assms(3) dirs
    by (auto simp: ledger_append_def append_block_def bind_m_def from_m_def map_err_Inl_iff split: prod.splits sum.splits if_splits)
  then show ?thesis
  proof cases
    case 2
    have "node_at s' (?base @ [n]) = node_at s (?base @ [n])" if "extension n = Some ''json''" for n
      using atomic_create_frame [OF 2(2), of "?base @ [n]"] atomic_create_refused [OF assms(2) 2(2)] that
      by (cases "n = block_name (bk_height b) h") auto
    moreover have "node_at s' p = Some Dir" if "?base = p @ r" for p r
      using prefix_dirs_kept [OF _ that] atomic_create_outcome [OF 2(2)] st that by blast
    moreover have "extension (name_of L c) = Some ''json''" if "c \<in> set (lg_blocks lg)" for c using st that by blast
    ultimately show ?thesis using st unfolding stored_def on_disk_def lg holds_block_def by auto
  qed (use assms(1) lg in simp)
qed

section \<open>Runs of a ledger\<close>

text \<open>
  The state machine of one ledger under one quorum: whatever blocks are offered, accepted or
  refused, memory and disk agree and the chain stays on the quorum's network.
\<close>

definition quorum_step :: "'z ledger_lib_scheme \<Rightarrow> quorum_consensus \<Rightarrow> ledger \<times> fs \<Rightarrow> block \<Rightarrow> ledger \<times> fs" where
  "quorum_step L c st b = snd (ledger_append L (quorum_verify L c) b st)"

definition on_network :: "quorum_consensus \<Rightarrow> ledger \<Rightarrow> bool" where
  "on_network c lg \<longleftrightarrow> (\<forall>b \<in> set (lg_blocks lg). cp_network_id (bk_consensus b) = qc_network_id c)"

definition ledger_inv :: "'z ledger_lib_scheme \<Rightarrow> quorum_consensus \<Rightarrow> path \<Rightarrow> ledger \<times> fs \<Rightarrow> bool" where
  "ledger_inv L c base st \<longleftrightarrow> pretty_ok L \<and> lg_root (fst st) = base \<and> stored L (fst st) (snd st)
     \<and> fs_faults (snd st) = [] \<and> on_network c (fst st)"

lemma ledger_append_quiet:
  assumes "ledger_append L verifies b (lg, s) = (r, lg', s')" "fs_faults s = []"
  shows "fs_faults s' = []"
proof -
  have "quiet (append_block L verifies lg b)" unfolding append_block_def by (intro quiet_intros)
  then show ?thesis using assms quiet_step by (auto simp: ledger_append_def split: prod.splits sum.splits)
qed

lemma ledger_inv_step: "ledger_inv L c base st \<Longrightarrow> ledger_inv L c base (quorum_step L c st b)"
proof -
  assume inv: "ledger_inv L c base st"
  obtain lg s where st: "st = (lg, s)" by (cases st)
  obtain r lg' s' where a: "ledger_append L (quorum_verify L c) b (lg, s) = (r, lg', s')"
    by (cases "ledger_append L (quorum_verify L c) b (lg, s)") auto
  note calm = ledger_append_quiet [OF a]
  show ?thesis
  proof (cases r)
    case (Inl e)
    note a = a [unfolded Inl]
    show ?thesis using inv a calm ledger_append_refused [OF _ _ a] ledger_append_Inl [OF a]
      by (simp add: ledger_inv_def quorum_step_def st)
  next
    case (Inr h)
    note a = a [unfolded Inr]
    obtain s1 bytes where c: "append_check L (quorum_verify L c) (lg_blocks lg) b = Inr ()" "block_hash L b = Inr h"
      "create_dir_all (lg_root lg) s = (Inr (), s1)" "to_vec_pretty L b = Inr bytes" "length bytes \<le> MAX_BLOCK_BYTES"
      "atomic_create (lg_root lg @ [block_name (bk_height b) h]) bytes None s1 = (Inr (), s')"
      "lg' = lg\<lparr>lg_blocks := lg_blocks lg @ [b]\<rparr>" by (rule ledger_append_Inr [OF a])
    have net: "cp_network_id (bk_consensus b) = qc_network_id c"
      using quorum_verify_True append_check_Inr(4) [OF c(1)] by blast
    have "on_network c lg" using inv by (simp add: ledger_inv_def st)
    with net have "same_network (lg_blocks lg) b"
      unfolding on_network_def same_network_def using last_in_set by metis
    then show ?thesis using ledger_append_stored [OF _ a] inv calm c(7) net
      by (auto simp: ledger_inv_def quorum_step_def st a on_network_def)
  qed
qed

interpretation chain: state_machine "quorum_step L c"
  "\<lambda>st. pretty_ok L \<and> (\<exists>s. ledger_open L base s = (Inr (fst st), snd st)) \<and> fs_faults (snd st) = [] \<and> on_network c (fst st)"
  "ledger_inv L c base" for L c base
proof
  fix st
  assume "pretty_ok L \<and> (\<exists>s. ledger_open L base s = (Inr (fst st), snd st)) \<and> fs_faults (snd st) = [] \<and> on_network c (fst st)"
  then show "ledger_inv L c base st" by (auto simp: ledger_inv_def dest: ledger_open_stored)
qed (rule ledger_inv_step)

section \<open>Finalised blocks are accepted\<close>

context consensus_engine
begin

lemma finalized_checked:
  assumes "next_block L lg events t n = Inr b" "finalize b ids = (Inr (), b')" "good ids"
    and "list_all (\<lambda>e. event_verify L e = Inr True) events"
    and "lg_blocks lg \<noteq> [] \<Longrightarrow> bk_timestamp (last (lg_blocks lg)) \<le> t"
  shows "append_check L verifies (lg_blocks lg) b' = Inr ()"
proof -
  obtain previous hashes where n: "last_hash L (lg_blocks lg) = Inr previous" "events_hashes L events = Inr hashes"
    "b = \<lparr>bk_version = 1, bk_previous = previous, bk_height = of_nat (length (lg_blocks lg)), bk_timestamp = t,
       bk_events_root = merkle_root L hashes, bk_events = events,
       bk_consensus = \<lparr>cp_network_id = n, cp_signatures = []\<rparr>\<rparr>"
    using assms(1) by (auto simp: next_block_def result_simps)
  have "map_r (event_verify L) events = Inr (map (\<lambda>_. True) events)"
    using assms(4) by (intro map_r_total) (auto simp: list_all_iff)
  then show ?thesis
    using n finalized_fields [OF assms(2)] finalize_verifies [OF assms(3,2)] assms(5)
    by (auto simp: append_check_def Let_def list_all_iff not_less)
qed

end

lemma new_block_name_free:
  assumes "stored L lg s" "length (lg_blocks lg) < 2 ^ 64" "bk_height b = of_nat (length (lg_blocks lg))"
    and "block_hash L b = Inr h"
  shows "node_at s (lg_root lg @ [name_of L b]) = None"
proof (rule ccontr)
  assume ex: "node_at s (lg_root lg @ [name_of L b]) \<noteq> None"
  have "extension (name_of L b) = Some ''json''" using assms(4) by (simp add: name_of_def extension_block_name)
  with ex have "name_of L b \<in> {n. node_at s (lg_root lg @ [n]) \<noteq> None \<and> extension n = Some ''json''}" by simp
  then have "name_of L b \<in> name_of L ` set (lg_blocks lg)" using assms(1) unfolding stored_def on_disk_def by argo
  then obtain b' where b': "b' \<in> set (lg_blocks lg)" "name_of L b' = name_of L b" by auto
  then obtain i where i: "i < length (lg_blocks lg)" "b' = lg_blocks lg ! i" by (auto simp: in_set_conv_nth)
  have chain: "chain_ok L (lg_blocks lg)" using assms(1) by (simp add: stored_def)
  obtain h' where "block_hash L b' = Inr h'" using chain_ok_nth(2) [OF chain i(1)] i(2) by blast
  moreover have "bk_height b' < bk_height b"
    using chain_ok_nth(1) [OF chain i(1)] i assms(2,3) by (simp add: word_less_nat_alt unat_of_nat)
  ultimately have "name_of L b' < name_of L b" using assms(4) by (simp add: name_of_def block_name_less)
  with b' show False by simp
qed

lemma ledger_append_succeeds:
  assumes "stored L lg s" "fs_faults s = []" "length (fs_nodes s) < 2 ^ 64 - 1" "length (lg_blocks lg) < 2 ^ 64"
    and "append_check L verifies (lg_blocks lg) b = Inr ()" "block_hash L b = Inr h"
    and "to_vec_pretty L b = Inr bytes" "length bytes \<le> MAX_BLOCK_BYTES"
  shows "ledger_append L verifies b (lg, s) = (Inr h, lg\<lparr>lg_blocks := lg_blocks lg @ [b]\<rparr>,
    snd (atomic_create (lg_root lg @ [block_name (bk_height b) h]) bytes None s))"
proof -
  let ?q = "lg_root lg @ [block_name (bk_height b) h]"
  note st = assms(1) [unfolded stored_def on_disk_def]
  have "create_dir_all (lg_root lg) s = (Inr (), s)"
    unfolding create_dir_all_def syscall_def using assms(2) st by (simp add: make_dirs_noop)
  moreover have "node_at s ?q = None"
    using new_block_name_free [OF assms(1,4) append_check_Inr(2) [OF assms(5)] assms(6)] assms(6)
    by (simp add: name_of_def)
  then have "fst (atomic_create ?q bytes None s) = Inr ()"
    using st assms(2,3) by (intro atomic_create_succeeds) auto
  ultimately show ?thesis using assms(5-8)
    by (cases "atomic_create ?q bytes None s") (auto simp: ledger_append_def append_block_def bind_m_def from_m_def)
qed

lemma map_r_repeat:
  assumes "map_r f xs = Inr ys" "xs \<noteq> []"
  shows "map_r f (xs @ [last xs]) = Inr (ys @ [last ys])"
proof -
  have all: "list_all2 (\<lambda>x y. f x = Inr y) xs ys" using assms(1) by (simp add: map_r_Inr_iff)
  then have "f (last xs) = Inr (last ys)"
    using list_all2_nthD [OF all, of "length xs - 1"] list_all2_lengthD [OF all] assms(2)
    by (cases ys) (simp_all add: last_conv_nth)
  then show ?thesis using all by (auto simp: map_r_Inr_iff intro!: list_all2_appendI)
qed

section \<open>Properties of the chain\<close>


definition blocks_collide :: "'z ledger_lib_scheme \<Rightarrow> block \<Rightarrow> block \<Rightarrow> bool" where
  "blocks_collide L a b \<longleftrightarrow> (\<exists>x y. to_vec (sd_block L) a = Inr x \<and> to_vec (sd_block L) b = Inr y
     \<and> x \<noteq> y \<and> sha256 L x = sha256 L y)"

text \<open>
  C15: The head of a chain fixes its history: two chains that both pass the checks of \<open>open\<close> and
  whose last blocks have the same hash are the same chain, or a block of the one and a block
  of the other serialise differently to the same hash, which is a collision.
\<close>

theorem chain_head_fixes_history:
  assumes "chain_ok L as" "chain_ok L bs" "as \<noteq> []" "bs \<noteq> []" "length as \<le> 2 ^ 64" "length bs \<le> 2 ^ 64"
    and "block_hash L (last as) = block_hash L (last bs)" "\<forall>b \<in> set as \<union> set bs. serde_at (sd_block L) b"
  shows "as = bs \<or> (\<exists>a \<in> set as. \<exists>b \<in> set bs. blocks_collide L a b)"
  using assms
proof (induction as arbitrary: bs rule: rev_induct)
  case (snoc a as)
  obtain bs' b where bs: "bs = bs' @ [b]" using snoc.prems(4) by (cases bs rule: rev_cases) auto
  have ser: "serde_at (sd_block L) a" "serde_at (sd_block L) b" using snoc.prems(8) bs by auto
  obtain x y where xy: "to_vec (sd_block L) a = Inr x" "to_vec (sd_block L) b = Inr y"
    using ser unfolding serde_at_def by blast
  have h: "sha256 L x = sha256 L y" using snoc.prems(7) bs xy by (simp add: block_hash_def)
  show ?case
  proof (cases "x = y")
    case False
    then have "blocks_collide L a b" using xy h by (simp add: blocks_collide_def)
    then show ?thesis using bs by auto
  next
    case True
    then have eq: "a = b" using serde_inj [OF ser] xy by simp
    note ca = snoc.prems(1) [unfolded chain_ok_snoc] and cb = snoc.prems(2) [unfolded bs chain_ok_snoc]
    have "(of_nat (length as) :: u64) = of_nat (length bs')" using ca cb eq by metis
    moreover have "unat (of_nat (length as) :: u64) = length as" "unat (of_nat (length bs') :: u64) = length bs'"
      using snoc.prems(5,6) bs by (simp_all add: unat_of_nat)
    ultimately have len: "length as = length bs'" by metis
    show ?thesis
    proof (cases "as = []")
      case True
      then show ?thesis using len eq bs by simp
    next
      case False
      then have ne: "bs' \<noteq> []" using len by auto
      then have "block_hash L (last as) = block_hash L (last bs')"
        using False ca cb eq by (auto simp: links_def)
      then have "as = bs' \<or> (\<exists>a \<in> set as. \<exists>b \<in> set bs'. blocks_collide L a b)"
        using snoc.prems(5,6,8) ca cb False ne bs by (intro snoc.IH) auto
      then show ?thesis unfolding bs eq set_append by blast
    qed
  qed
qed simp

text \<open>
  C12: Inclusion proofs are sound. A light client that holds the root of a block whose events
  match it, checks a proof of any index and length for an event and accepts it: the event is
  one of the block, or two different strings among the ones hashed (the encodings of the
  events, the pairs of the tree and of the proof's path) have the same SHA-256 value. The
  encodings have more than 64 bytes (the field names alone are longer), so neither an inner
  hash of the tree nor a path below an event passes for an event.
\<close>

theorem verified_event_is_in_block:
  assumes "sha_ok L" "sound_events L b"
    and "\<forall>x \<in> set (e # bk_events b). serde_at (sd_signed_event L) x \<and> 64 < length (event_bytes L x)"
    and "\<forall>x \<in> set (mp_siblings p). length x = 32"
    and "event_hash L e = Inr h" "merkle_verify L p h (bk_events_root b)"
  shows "e \<in> set (bk_events b) \<or> collide L (inclusion_inputs L (bk_events b) e p)"
proof (rule disjCI)
  assume "\<not> collide L (inclusion_inputs L (bk_events b) e p)"
  note nc = no_collision [OF this] and free = this
  let ?hash = "\<lambda>x. sha256 L (event_bytes L x)"
  have ser: "to_vec (sd_signed_event L) x = Inr (event_bytes L x)" if "x \<in> set (e # bk_events b)" for x
    using assms(3) that serde_atE [of "sd_signed_event L" x] unfolding event_bytes_def by (metis sum.simps(6))
  obtain hs where hs: "events_hashes L (bk_events b) = Inr hs" "bk_events_root b = merkle_root L hs"
    using assms(2) by (auto simp: sound_events_def)
  have eq: "hs = map ?hash (bk_events b)" "h = ?hash e"
    using hs(1) assms(5) ser events_hashes_bytes [of L "bk_events b"] by (auto simp: event_hash_def)
  have sub: "set (root_inputs L hs) \<subseteq> set (inclusion_inputs L (bk_events b) e p)"
    "set (climb_inputs L h (mp_index p) (mp_siblings p)) \<subseteq> set (inclusion_inputs L (bk_events b) e p)"
    "event_bytes L ` set (e # bk_events b) \<subseteq> set (inclusion_inputs L (bk_events b) e p)"
    unfolding eq by (auto simp: inclusion_inputs_def)
  have "h \<in> set hs \<union> sha256 L ` set (root_inputs L hs)
      \<or> (\<exists>x \<in> set (climb_inputs L h (mp_index p) (mp_siblings p)). length x = 64 \<and> sha256 L x \<in> set hs)"
    using assms(1,4,6) hs(2) by (intro merkle_verify_in_tree [OF assms(1) _ _ assms(4) _ sub(1,2) free]) (auto simp: eq sha_ok_def)
  then consider (leaf) x where "x \<in> set (bk_events b)" "?hash e = ?hash x"
    | (node) y where "y \<in> set (root_inputs L hs)" "?hash e = sha256 L y"
    | (below) x y where "y \<in> set (climb_inputs L h (mp_index p) (mp_siblings p))" "length y = 64"
        "x \<in> set (bk_events b)" "sha256 L y = ?hash x"
    unfolding eq by auto
  then show "e \<in> set (bk_events b)"
  proof cases
    case leaf
    then have "event_bytes L e = event_bytes L x" using nc sub(3) by auto
    then show ?thesis using leaf(1) ser [of e] ser [of x] assms(3) serde_inj [of "sd_signed_event L" e x] by auto
  next
    case node
    then have "event_bytes L e = y" using nc sub(1,3) by auto
    then show ?thesis using root_inputs_length [OF assms(1) _ node(1)] assms(1,3) by (auto simp: eq sha_ok_def)
  next
    case below
    then have "y = event_bytes L x" using nc [of y "event_bytes L x"] sub(2,3) by auto
    then show ?thesis using below(2,3) assms(3) by auto
  qed
qed

text \<open>
  C16: An honest proposal gets into the chain: the next block of a ledger, with verified events
  and a timestamp not before the last block's, finalised by the quorum, is appended on a
  healthy disk, under its hash.
\<close>

theorem finalized_block_is_appended:
  assumes "sign_ok L" "list_all (identity_wf L) ids" "ledger_open L base s0 = (Inr lg, s)"
    and "fs_faults s = []" "length (fs_nodes s) < 2 ^ 64 - 1" "length (lg_blocks lg) < 2 ^ 64"
    and "next_block L lg events t (qc_network_id c) = Inr b" "quorum_finalize L c b ids = (Inr (), b')"
    and "list_all (\<lambda>e. event_verify L e = Inr True) events"
    and "lg_blocks lg \<noteq> [] \<Longrightarrow> bk_timestamp (last (lg_blocks lg)) \<le> t"
    and "block_hash L b' = Inr h" "to_vec_pretty L b' = Inr bytes" "length bytes \<le> MAX_BLOCK_BYTES"
  shows "\<exists>s'. ledger_append L (quorum_verify L c) b' (lg, s) = (Inr h, lg\<lparr>lg_blocks := lg_blocks lg @ [b']\<rparr>, s')"
proof -
  have "append_check L (quorum_verify L c) (lg_blocks lg) b' = Inr ()"
    by (rule quorum.finalized_checked [OF assms(7,8)]) (use assms(1,2,9,10) in auto)
  moreover have "stored L lg s" using ledger_open_stored [OF assms(3)] by blast
  ultimately show ?thesis using ledger_append_succeeds [OF _ assms(4-6) _ assms(11-13)] by blast
qed

text \<open>
  One finality proof covers two different blocks: repeat the last of an odd number of
  events (three or more) and the block still passes every check of \<open>append\<close>, signatures of
  the quorum included.
\<close>

theorem repeated_event_still_final:
  assumes "append_check L (quorum_verify L c) bs b = Inr ()" "odd (length (bk_events b))" "1 < length (bk_events b)"
  shows "append_check L (quorum_verify L c) bs (b\<lparr>bk_events := bk_events b @ [last (bk_events b)]\<rparr>) = Inr ()"
proof -
  let ?b = "b\<lparr>bk_events := bk_events b @ [last (bk_events b)]\<rparr>"
  obtain vs hs where c: "map_r (event_verify L) (bk_events b) = Inr vs" "list_all (\<lambda>v. v) vs"
    "events_hashes L (bk_events b) = Inr hs" "bk_events_root b = merkle_root L hs"
    using assms(1) by (auto simp: append_check_def bind_r_Inr_iff Let_def split: if_splits)
  have ne: "bk_events b \<noteq> []" using assms(3) by auto
  have len: "length vs = length (bk_events b)" "length hs = length (bk_events b)"
    using map_r_length c(1,3) by (auto simp: events_hashes_def)
  have "map_r (event_verify L) (bk_events ?b) = Inr (vs @ [last vs])"
    "events_hashes L (bk_events ?b) = Inr (hs @ [last hs])"
    using map_r_repeat [OF c(1) ne] map_r_repeat [OF c(3) [unfolded events_hashes_def] ne] by (simp_all add: events_hashes_def)
  moreover have "list_all (\<lambda>v. v) vs \<Longrightarrow> vs \<noteq> [] \<Longrightarrow> last vs" by (induction vs) auto
  then have "list_all (\<lambda>v. v) (vs @ [last vs])" using c(2) len ne by (cases "vs = []") simp_all
  moreover have "merkle_root L (hs @ [last hs]) = merkle_root L hs"
    using assms(2,3) len by (intro merkle_root_repeat) simp_all
  moreover have "quorum_verify L c ?b = quorum_verify L c b"
    by (simp add: quorum_verify_def proposal_bytes_def proposal_of_def)
  ultimately show ?thesis using assms(1) c by (auto simp: append_check_def Let_def bind_r_def split: sum.splits if_splits)
qed

text \<open>
  \<open>append\<close> does not compare the network of a block with that of the chain, \<open>open\<close> does: a
  block appended under an engine of another network makes the ledger impossible to open.
\<close>

theorem network_change_prevents_reopening:
  assumes "pretty_ok L" "ledger_open L base s0 = (Inr lg, s)" "lg_blocks lg \<noteq> []" "length (lg_blocks lg) < 2 ^ 64"
    and "ledger_append L verifies b (lg, s) = (Inr h, lg', s')" "fs_faults s' = []"
    and "cp_network_id (bk_consensus b) \<noteq> cp_network_id (bk_consensus (last (lg_blocks lg)))"
  shows "\<exists>e. ledger_open L base s' = (Inl e, s')"
proof -
  have st: "chain_ok L (lg_blocks lg)" "on_disk L lg s" "lg_root lg = base"
    using ledger_open_stored [OF assms(2)] by (auto simp: stored_def)
  obtain s1 bytes where a: "append_check L verifies (lg_blocks lg) b = Inr ()" "block_hash L b = Inr h"
    "create_dir_all (lg_root lg) s = (Inr (), s1)" "to_vec_pretty L b = Inr bytes" "length bytes \<le> MAX_BLOCK_BYTES"
    "atomic_create (lg_root lg @ [block_name (bk_height b) h]) bytes None s1 = (Inr (), s')"
    "lg' = lg\<lparr>lg_blocks := lg_blocks lg @ [b]\<rparr>" by (rule ledger_append_Inr [OF assms(5)])
  have "numbered L (lg_blocks lg')"
    using chain_numbered [OF st(1)] a(2,7) append_check_Inr(2) [OF a(1)] by (auto simp: numbered_def nth_append less_Suc_eq)
  then have "ledger_open L base s' = (bind_r (check_chain L None None None 0 (lg_blocks lg')) (\<lambda>_. Inr lg'), s')"
    using ledger_open_on_disk [OF ledger_append_on_disk [OF st(2) assms(5,1)] _ assms(6)] assms(4) a(7) st(3) by simp
  moreover have "check_chain L None None None 0 (lg_blocks lg') \<noteq> Inr ()"
    using assms(3,7) a(7) by (auto simp: check_chain_snoc links_def)
  ultimately show ?thesis by (cases "check_chain L None None None 0 (lg_blocks lg')") auto
qed

section \<open>A concrete chain\<close>

definition demo_event :: "u8 \<Rightarrow> signed_event" where
  "demo_event k = \<lparr>ev_event = TaskCreated ''t'', ev_signer = NodeId (example_sha [k]), ev_public_key = [k],
     ev_signature = [k, 0, 0, 0, 0]\<rparr>"

definition demo_signature :: "bytes \<Rightarrow> consensus_signature" where
  "demo_signature proposal = \<lparr>cs_signer = NodeId (example_sha [1]), cs_public_key = [1], cs_signature = [1] @ proposal\<rparr>"

definition demo_genesis :: block where
  "demo_genesis = \<lparr>bk_version = 1, bk_previous = None, bk_height = 0, bk_timestamp = 5,
     bk_events_root = example_sha [0, 0, 0, 0], bk_events = [demo_event 1, demo_event 2, demo_event 3],
     bk_consensus = \<lparr>cp_network_id = ''n'', cp_signatures = [demo_signature [0, 0, 0, 0]]\<rparr>\<rparr>"

definition demo_second :: block where
  "demo_second = \<lparr>bk_version = 1, bk_previous = Some (example_sha [0, 0, 0, 0]), bk_height = 1, bk_timestamp = 5,
     bk_events_root = example_sha [], bk_events = [],
     bk_consensus = \<lparr>cp_network_id = ''m'', cp_signatures = [demo_signature [0, 0, 0, 1]]\<rparr>\<rparr>"

definition demo_local :: block where
  "demo_local = \<lparr>bk_version = 1, bk_previous = Some (example_sha [0, 0, 0, 0]), bk_height = 1, bk_timestamp = 5,
     bk_events_root = example_sha [0, 0, 0, 0], bk_events = [demo_event 1],
     bk_consensus = \<lparr>cp_network_id = ''local'', cp_signatures = [demo_signature [0, 0, 0, 1]]\<rparr>\<rparr>"

definition demo_lib :: ledger_lib where
  "demo_lib = example_ledger_lib [TaskCreated ''t''] [demo_event 1, demo_event 2, demo_event 3]
     [proposal_of demo_genesis, proposal_of demo_second] [demo_genesis, demo_second, demo_local] []"

definition demo_quorum :: "string \<Rightarrow> quorum_consensus" where
  "demo_quorum network = \<lparr>qc_network_id = network, qc_members = {NodeId (example_sha [1])}, qc_quorum = 1\<rparr>"

lemma table_serde_inverse: "to_vec (table_serde xs) x = Inr b \<Longrightarrow> length xs < 256 ^ 4 \<Longrightarrow> from_slice (table_serde xs) b = Inr x"
proof -
  assume t: "to_vec (table_serde xs) x = Inr b" and len: "length xs < 256 ^ 4"
  then obtain n where n: "position x xs = Some n" by (cases "position x xs") (simp_all add: table_serde_def)
  then have "x \<in> set xs" by (induction xs arbitrary: n) (auto split: if_splits)
  then show "from_slice (table_serde xs) b = Inr x" using serde_atE [OF table_serde_at [OF _ len]] t by (metis sum.inject(2))
qed

lemma demo_pretty: "pretty_ok demo_lib"
  by (auto simp: pretty_ok_def demo_lib_def example_ledger_lib_def table_serde_inverse)

lemma demo_check:
  "append_check demo_lib (quorum_verify demo_lib (demo_quorum ''n'')) [] demo_genesis = Inr ()"
  by code_simp

lemma demo_check2:
  "append_check demo_lib (quorum_verify demo_lib (demo_quorum ''m'')) [demo_genesis] demo_second = Inr ()"
  by code_simp

lemma demo_hash:
  "block_hash demo_lib demo_genesis = Inr (example_sha [0, 0, 0, 0])"
  "block_hash demo_lib demo_second = Inr (example_sha [0, 0, 0, 1])"
  by code_simp+

definition demo_fs :: fs where "demo_fs = empty_fs\<lparr>fs_nodes := [([''l''], Dir)]\<rparr>"

lemma demo_open:
  "ledger_open demo_lib [''l''] demo_fs = (Inr \<lparr>lg_root = [''l''], lg_blocks = []\<rparr>, demo_fs)"
  by code_simp

abbreviation demo_ledger :: "block list \<Rightarrow> ledger" where
  "demo_ledger bs \<equiv> \<lparr>lg_root = [''l''], lg_blocks = bs\<rparr>"

definition demo_fs1 :: fs where
  "demo_fs1 = snd (atomic_create [''l'', block_name 0 (example_sha [0, 0, 0, 0])] [0, 0, 0, 0] None demo_fs)"

lemma demo_fs1_nodes: "length (fs_nodes demo_fs1) = 2"
  by code_simp

lemma demo_fs_calm: "fs_faults demo_fs = []" "length (fs_nodes demo_fs) = 1"
  by (simp_all add: demo_fs_def empty_fs_def)

lemma demo_pretty_bytes:
  "to_vec_pretty demo_lib demo_genesis = Inr [0, 0, 0, 0]" "to_vec_pretty demo_lib demo_second = Inr [0, 0, 0, 1]"
  by code_simp+

lemma demo_append:
  "ledger_append demo_lib (quorum_verify demo_lib (demo_quorum ''n'')) demo_genesis (demo_ledger [], demo_fs)
     = (Inr (example_sha [0, 0, 0, 0]), demo_ledger [demo_genesis], demo_fs1)"
proof -
  have "stored demo_lib (demo_ledger []) demo_fs" using ledger_open_stored [OF demo_open] by blast
  from ledger_append_succeeds [OF this demo_fs_calm(1) _ _ _ demo_hash(1) demo_pretty_bytes(1)] show ?thesis
    using demo_check by (simp add: demo_fs_calm demo_fs1_def MAX_BLOCK_BYTES_def demo_genesis_def)
qed


lemma demo_stored: "stored demo_lib (demo_ledger [demo_genesis]) demo_fs1" "fs_faults demo_fs1 = []"
proof -
  have "stored demo_lib (demo_ledger []) demo_fs" using ledger_open_stored [OF demo_open] by blast
  from ledger_append_stored [OF this demo_append demo_pretty] show "stored demo_lib (demo_ledger [demo_genesis]) demo_fs1"
    by (simp add: same_network_def)
  show "fs_faults demo_fs1 = []" using ledger_append_quiet [OF demo_append demo_fs_calm(1)] .
qed

theorem chain_head_fixes_history_witness:
  "chain_ok demo_lib [demo_genesis] \<and> ([demo_genesis] = [demo_genesis]
     \<or> (\<exists>a \<in> set [demo_genesis]. \<exists>b \<in> set [demo_genesis]. blocks_collide demo_lib a b))"
proof -
  have ok: "chain_ok demo_lib [demo_genesis]" using demo_stored(1) by (simp add: stored_def)
  have "serde_at (sd_block demo_lib) demo_genesis"
    by (simp add: demo_lib_def example_ledger_lib_def table_serde_at)
  then show ?thesis using chain_head_fixes_history [OF ok ok] ok by auto
qed

theorem finalized_block_is_appended_witness:
  "\<exists>b s'. next_block demo_lib (demo_ledger []) [demo_event 1, demo_event 2, demo_event 3] 5 ''n'' = Inr b
     \<and> quorum_finalize demo_lib (demo_quorum ''n'') b [example_member 1] = (Inr (), demo_genesis)
     \<and> ledger_append demo_lib (quorum_verify demo_lib (demo_quorum ''n'')) demo_genesis (demo_ledger [], demo_fs)
         = (Inr (example_sha [0, 0, 0, 0]), demo_ledger [demo_genesis], s')"
proof -
  let ?b = "demo_genesis\<lparr>bk_consensus := \<lparr>cp_network_id = ''n'', cp_signatures = []\<rparr>\<rparr>"
  have nb: "next_block demo_lib (demo_ledger []) [demo_event 1, demo_event 2, demo_event 3] 5 ''n'' = Inr ?b" by code_simp
  have fin: "quorum_finalize demo_lib (demo_quorum ''n'') ?b [example_member 1] = (Inr (), demo_genesis)" by code_simp
  have ev: "list_all (\<lambda>e. event_verify demo_lib e = Inr True) [demo_event 1, demo_event 2, demo_event 3]" by code_simp
  have ok: "sign_ok demo_lib" "list_all (identity_wf demo_lib) [example_member 1]"
    by (simp_all add: demo_lib_def example_ledger_lib_ok example_member_wf)
  have nb': "next_block demo_lib (demo_ledger []) [demo_event 1, demo_event 2, demo_event 3] 5 (qc_network_id (demo_quorum ''n'')) = Inr ?b"
    using nb by (simp add: demo_quorum_def)
  from finalized_block_is_appended [OF ok demo_open demo_fs_calm(1) _ _ nb' fin ev _ demo_hash(1) demo_pretty_bytes(1)]
  show ?thesis using nb fin by (simp add: demo_fs_calm MAX_BLOCK_BYTES_def)
qed

theorem repeated_event_still_final_witness:
  "append_check demo_lib (quorum_verify demo_lib (demo_quorum ''n'')) [] demo_genesis = Inr ()
   \<and> append_check demo_lib (quorum_verify demo_lib (demo_quorum ''n'')) []
       (demo_genesis\<lparr>bk_events := [demo_event 1, demo_event 2, demo_event 3, demo_event 3]\<rparr>) = Inr ()"
  using repeated_event_still_final [OF demo_check] demo_check by (simp add: demo_genesis_def)

theorem network_change_prevents_reopening_witness:
  "\<exists>s' e. ledger_append demo_lib (quorum_verify demo_lib (demo_quorum ''m'')) demo_second (demo_ledger [demo_genesis], demo_fs1)
       = (Inr (example_sha [0, 0, 0, 1]), demo_ledger [demo_genesis, demo_second], s')
     \<and> ledger_open demo_lib [''l''] s' = (Inl e, s')"
proof -
  obtain s' where a: "ledger_append demo_lib (quorum_verify demo_lib (demo_quorum ''m'')) demo_second (demo_ledger [demo_genesis], demo_fs1)
       = (Inr (example_sha [0, 0, 0, 1]), demo_ledger [demo_genesis, demo_second], s')"
    using ledger_append_succeeds [OF demo_stored _ _ _ demo_hash(2) demo_pretty_bytes(2)] demo_check2
    by (simp add: demo_fs1_nodes MAX_BLOCK_BYTES_def)
  have op: "ledger_open demo_lib [''l''] demo_fs1 = (Inr (demo_ledger [demo_genesis]), demo_fs1)"
    using ledger_open_of_stored [OF demo_stored] by simp
  have "\<exists>e. ledger_open demo_lib [''l''] s' = (Inl e, s')"
    by (rule network_change_prevents_reopening [OF demo_pretty op _ _ a])
       (use ledger_append_quiet [OF a demo_stored(2)] in \<open>simp_all add: demo_genesis_def demo_second_def\<close>)
  then show ?thesis using a by blast
qed

text \<open>Encodings of more than 64 bytes; under the example hash they all collide, so a forged event verifies.\<close>

definition padded_lib :: ledger_lib where
  "padded_lib = demo_lib\<lparr>sd_signed_event :=
     \<lparr>to_vec = (\<lambda>x. bind_r (to_vec (sd_signed_event demo_lib) x) (\<lambda>b. Inr (replicate 61 0 @ b))),
      from_slice = (\<lambda>b. from_slice (sd_signed_event demo_lib) (drop 61 b))\<rparr>\<rparr>"

definition padded_block :: block where
  "padded_block = demo_genesis\<lparr>bk_events := [demo_event 1, demo_event 2], bk_events_root := replicate 32 0\<rparr>"

lemma padded_events:
  assumes "k \<in> {1, 2, 3}"
  shows "serde_at (sd_signed_event padded_lib) (demo_event k) \<and> length (event_bytes padded_lib (demo_event k)) = 65"
proof -
  have "to_vec (sd_signed_event demo_lib) (demo_event 1) = Inr [0, 0, 0, 0]"
    "to_vec (sd_signed_event demo_lib) (demo_event 2) = Inr [0, 0, 0, 1]"
    "to_vec (sd_signed_event demo_lib) (demo_event 3) = Inr [0, 0, 0, 2]"
    "from_slice (sd_signed_event demo_lib) [0, 0, 0, 0] = Inr (demo_event 1)"
    "from_slice (sd_signed_event demo_lib) [0, 0, 0, 1] = Inr (demo_event 2)"
    "from_slice (sd_signed_event demo_lib) [0, 0, 0, 2] = Inr (demo_event 3)"
    by code_simp+
  then show ?thesis using assms by (auto simp: padded_lib_def serde_at_def event_bytes_def)
qed

theorem verified_event_is_in_block_witness:
  "let p = \<lparr>mp_index = 0, mp_siblings = [replicate 32 0]\<rparr> in
   block_proof padded_lib padded_block 0 = Some p
   \<and> event_hash padded_lib (demo_event 3) = Inr (replicate 32 0)
   \<and> merkle_verify padded_lib p (replicate 32 0) (bk_events_root padded_block)
   \<and> collide padded_lib (inclusion_inputs padded_lib (bk_events padded_block) (demo_event 3) p)"
proof -
  let ?p = "\<lparr>mp_index = 0, mp_siblings = [replicate 32 0]\<rparr> :: merkle_proof_t"
  have ev: "block_proof padded_lib padded_block 0 = Some ?p"
    "event_hash padded_lib (demo_event 3) = Inr (replicate 32 0)"
    "merkle_verify padded_lib ?p (replicate 32 0) (bk_events_root padded_block)"
    "demo_event 3 \<notin> set (bk_events padded_block)" "bk_events padded_block = [demo_event 1, demo_event 2]"
    by code_simp+
  have sound: "sha_ok padded_lib" "sound_events padded_lib padded_block"
    unfolding sound_events_def
    by (simp add: padded_lib_def demo_lib_def sha_ok_def example_ledger_lib_def example_sha_def min_def)
       (rule exI [of _ "[replicate 32 0, replicate 32 0]"], code_simp)
  show ?thesis
    using verified_event_is_in_block [OF sound _ _ ev(2,3)] ev padded_events by auto
qed

end
