(* ===== verification/State_Store.thy ===== *)
theory State_Store
  imports Storage
begin

text \<open>
  \<open>crates/peerless-state\<close>: named mutable documents, each one Automerge file below a root. The
  Automerge library is a parameter: documents of an arbitrary type \<open>'d\<close> with the calls the
  code makes. A panic of \<open>expect\<close> is the error \<open>StPanic\<close>. The process lock and the file lock
  exclude other writers, so an operation runs on the file system alone; taking the file lock
  still costs two system calls.
\<close>

section \<open>Automerge\<close>

datatype automerge_error = AutomergeError string
datatype automerge_value = AmStr string | AmOther

record ('d, 'o) automerge =
  am_new :: 'd
  am_put_object :: "'d \<Rightarrow> automerge_error + 'd"
  am_load :: "bytes \<Rightarrow> automerge_error + 'd"
  am_save :: "'d \<Rightarrow> bytes \<times> 'd"
  am_merge :: "'d \<Rightarrow> 'd \<Rightarrow> (automerge_error + unit) \<times> 'd"
  am_values :: "'d \<Rightarrow> automerge_error + 'o option"
  am_put :: "'d \<Rightarrow> 'o \<Rightarrow> string \<Rightarrow> string \<Rightarrow> automerge_error + 'd"
  am_get :: "'d \<Rightarrow> 'o \<Rightarrow> string \<Rightarrow> automerge_error + automerge_value option"

text \<open>
  What is relied on: a document has a set of changes, saving keeps it and loading the saved
  bytes gives it back, merging adds the other document's changes and never drops any.
\<close>

definition am_ok :: "('d, 'o) automerge \<Rightarrow> ('d \<Rightarrow> 'c set) \<Rightarrow> bool" where
  "am_ok A chg \<longleftrightarrow>
     (\<forall>d b d'. am_save A d = (b, d') \<longrightarrow> chg d' = chg d \<and> (\<exists>e. am_load A b = Inr e \<and> chg e = chg d))
     \<and> (\<forall>d e r d'. am_merge A d e = (r, d') \<longrightarrow> chg d \<subseteq> chg d' \<and> (r = Inr () \<longrightarrow> chg d' = chg d \<union> chg e))"

lemma am_save_ok:
  assumes "am_ok A chg" "am_save A d = (b, d')"
  obtains e where "am_load A b = Inr e" "chg e = chg d" "chg d' = chg d"
  using assms unfolding am_ok_def by metis

lemma am_merge_ok:
  assumes "am_ok A chg" "am_merge A d e = (r, d')"
  shows "chg d \<subseteq> chg d'" "r = Inr () \<Longrightarrow> chg d' = chg d \<union> chg e"
  using assms unfolding am_ok_def by metis+

section \<open>Stores and documents\<close>

definition MAX_DOCUMENT_BYTES :: nat where "MAX_DOCUMENT_BYTES = 64 * 1024 * 1024"

datatype consistency_policy = Eventual | Strong | Immutable

datatype state_error =
    StIo io_error
  | StAutomerge automerge_error
  | StNotAString
  | StTooLarge
  | StPanic

record state_store =
  ss_root :: path
  ss_lock_path :: path

record 'd state_document =
  doc_path :: path
  doc_document :: 'd
  doc_lock_path :: path

definition safe_char :: "char \<Rightarrow> bool" where
  "safe_char c = (let n = of_char c :: nat in
     48 \<le> n \<and> n < 58 \<or> 65 \<le> n \<and> n < 91 \<or> 97 \<le> n \<and> n < 123 \<or> c = CHR ''-'' \<or> c = CHR ''_'')"

definition safe_name :: "string \<Rightarrow> string" where
  "safe_name name = concat (map (\<lambda>c. if safe_char c then [c] else ''~'' @ fmt_02x (of_nat (of_char c))) name)"

definition ensure_bounded :: "bytes \<Rightarrow> state_error + unit" where
  "ensure_bounded bytes = (if length bytes > MAX_DOCUMENT_BYTES then Inl StTooLarge else Inr ())"

definition read_bounded :: "path \<Rightarrow> (fs, state_error, bytes) action" where
  "read_bounded path =
     from_m (\<lambda>e. if e = InvalidData then StTooLarge else StIo e) (read_limited path MAX_DOCUMENT_BYTES)"

text \<open>\<open>OpenOptions\<close> with \<open>create\<close> and without \<open>truncate\<close>, then \<open>File::lock\<close>.\<close>

definition open_or_create :: "path \<Rightarrow> unit io" where
  "open_or_create p = syscall (\<lambda>_ s. s) (\<lambda>s.
     case node_at s p of
       Some Dir \<Rightarrow> (Inl IsADirectory, s)
     | Some (File _ _) \<Rightarrow> (Inr (), s)
     | None \<Rightarrow> if node_at s (butlast p) = Some Dir then (Inr (), set_node p (File [] None) s) else (Inl NotFound, s))"

definition acquire_file_lock :: "path \<Rightarrow> (fs, state_error, unit) action" where
  "acquire_file_lock path =
     bind_m (from_m StIo (open_or_create path)) (\<lambda>_. from_m StIo (syscall (\<lambda>_ s. s) (ret_io ())))"

definition store_open :: "path \<Rightarrow> (fs, state_error, state_store) action" where
  "store_open base =
     bind_m (from_m StIo (create_dir_all base)) (\<lambda>_.
     pure_m (Inr \<lparr>ss_root = base, ss_lock_path = base @ [''.persistence.lock'']\<rparr>))"

definition document_path :: "state_store \<Rightarrow> string \<Rightarrow> path" where
  "document_path st name = ss_root st @ [safe_name name @ ''.automerge'']"

definition store_document ::
  "('d, 'o) automerge \<Rightarrow> state_store \<Rightarrow> string \<Rightarrow> (fs, state_error, 'd state_document) action" where
  "store_document A st name = (\<lambda>s.
     let path = document_path st name in
     case path_exists path s of (there, s) \<Rightarrow>
       bind_m
         (if there then
            bind_m (read_bounded path) (\<lambda>bytes. pure_m (map_err StAutomerge (am_load A bytes)))
          else pure_m (map_err StAutomerge (am_put_object A (am_new A))))
         (\<lambda>document. pure_m (Inr \<lparr>doc_path = path, doc_document = document, doc_lock_path = ss_lock_path st\<rparr>)) s)"

definition store_merge_snapshot ::
  "('d, 'o) automerge \<Rightarrow> state_store \<Rightarrow> string \<Rightarrow> bytes \<Rightarrow> (fs, state_error, unit) action" where
  "store_merge_snapshot A st name bytes =
     (let path = document_path st name in
      bind_m (pure_m (ensure_bounded bytes)) (\<lambda>_.
      bind_m (pure_m (map_err StAutomerge (am_load A bytes))) (\<lambda>incoming.
      bind_m (acquire_file_lock (ss_lock_path st)) (\<lambda>_ s.
      case path_exists path s of (there, s) \<Rightarrow>
        (if there then
           bind_m (read_bounded path) (\<lambda>stored.
           bind_m (pure_m (map_err StAutomerge (am_load A stored))) (\<lambda>current.
           case am_merge A current incoming of (r, current) \<Rightarrow>
             bind_m (pure_m (map_err StAutomerge r)) (\<lambda>_.
             let merged = fst (am_save A current) in
             bind_m (pure_m (ensure_bounded merged)) (\<lambda>_.
             from_m StIo (atomic_replace path merged None)))))
         else from_m StIo (atomic_replace path bytes None)) s))))"

definition doc_values :: "('d, 'o) automerge \<Rightarrow> 'd state_document \<Rightarrow> state_error + 'o" where
  "doc_values A doc =
     (case am_values A (doc_document doc) of
        Inl _ \<Rightarrow> Inl StPanic
      | Inr None \<Rightarrow> Inl StPanic
      | Inr (Some values) \<Rightarrow> Inr values)"

definition doc_put ::
  "('d, 'o) automerge \<Rightarrow> string \<Rightarrow> string \<Rightarrow> ('d state_document, state_error, unit) action" where
  "doc_put A key value doc =
     (case bind_r (doc_values A doc) (\<lambda>values. map_err StAutomerge (am_put A (doc_document doc) values key value)) of
        Inl e \<Rightarrow> (Inl e, doc)
      | Inr d \<Rightarrow> (Inr (), doc\<lparr>doc_document := d\<rparr>))"

definition doc_get :: "('d, 'o) automerge \<Rightarrow> 'd state_document \<Rightarrow> string \<Rightarrow> state_error + string option" where
  "doc_get A doc key =
     bind_r (doc_values A doc) (\<lambda>values.
     bind_r (map_err StAutomerge (am_get A (doc_document doc) values key)) (\<lambda>found.
     case found of
       None \<Rightarrow> Inr None
     | Some (AmStr v) \<Rightarrow> Inr (Some v)
     | Some AmOther \<Rightarrow> Inl StNotAString))"

definition doc_merge ::
  "('d, 'o) automerge \<Rightarrow> 'd state_document \<Rightarrow> ('d state_document, state_error, unit) action" where
  "doc_merge A other doc =
     (case am_merge A (doc_document doc) (doc_document other) of
        (r, d) \<Rightarrow> (map_err StAutomerge r, doc\<lparr>doc_document := d\<rparr>))"

definition doc_snapshot :: "('d, 'o) automerge \<Rightarrow> 'd state_document \<Rightarrow> bytes \<times> 'd state_document" where
  "doc_snapshot A doc = (case am_save A (doc_document doc) of (bytes, d) \<Rightarrow> (bytes, doc\<lparr>doc_document := d\<rparr>))"

definition doc_merge_snapshot ::
  "('d, 'o) automerge \<Rightarrow> bytes \<Rightarrow> ('d state_document, state_error, unit) action" where
  "doc_merge_snapshot A bytes doc =
     (case bind_r (ensure_bounded bytes) (\<lambda>_. map_err StAutomerge (am_load A bytes)) of
        Inl e \<Rightarrow> (Inl e, doc)
      | Inr other \<Rightarrow>
          (case am_merge A (doc_document doc) other of
             (r, d) \<Rightarrow> (map_err StAutomerge r, doc\<lparr>doc_document := d\<rparr>)))"

text \<open>The first half of \<open>save\<close>: merge what is on disk into the document.\<close>

definition doc_absorb :: "('d, 'o) automerge \<Rightarrow> ('d state_document \<times> fs, state_error, unit) action" where
  "doc_absorb A = (\<lambda>(doc, s).
     case path_exists (doc_path doc) s of
       (False, s) \<Rightarrow> (Inr (), doc, s)
     | (True, s) \<Rightarrow>
         (case bind_m (read_bounded (doc_path doc)) (\<lambda>bytes. pure_m (map_err StAutomerge (am_load A bytes))) s of
            (Inl e, s) \<Rightarrow> (Inl e, doc, s)
          | (Inr persisted, s) \<Rightarrow>
              (case am_merge A (doc_document doc) persisted of
                 (r, d) \<Rightarrow> (map_err StAutomerge r, doc\<lparr>doc_document := d\<rparr>, s))))"

definition doc_save :: "('d, 'o) automerge \<Rightarrow> ('d state_document \<times> fs, state_error, unit) action" where
  "doc_save A = (\<lambda>(doc, s).
     case acquire_file_lock (doc_lock_path doc) s of
       (Inl e, s) \<Rightarrow> (Inl e, doc, s)
     | (Inr _, s) \<Rightarrow>
         bind_m (doc_absorb A) (\<lambda>_ (doc, s).
           case am_save A (doc_document doc) of (bytes, d) \<Rightarrow>
             let doc = doc\<lparr>doc_document := d\<rparr> in
             case bind_m (pure_m (ensure_bounded bytes)) (\<lambda>_. from_m StIo (atomic_replace (doc_path doc) bytes None)) s of
               (r, s) \<Rightarrow> (r, doc, s)) (doc, s))"

section \<open>File names of documents\<close>

lemma safe_head:
  "safe_name (c # cs) = (if safe_char c then c # safe_name cs else CHR ''~'' # fmt_02x (of_nat (of_char c)) @ safe_name cs)"
  by (simp add: safe_name_def)

lemma tilde_unsafe: "\<not> safe_char (CHR ''~'')"
  by (simp add: safe_char_def)

lemma escape_inj: "fmt_02x (of_nat (of_char c)) = fmt_02x (of_nat (of_char d)) \<Longrightarrow> c = (d :: char)"
proof -
  assume "fmt_02x (of_nat (of_char c)) = fmt_02x (of_nat (of_char d))"
  then have "(of_nat (of_char c) :: u8) = of_nat (of_char d)" by (rule fmt_02x_inj)
  then have "unat (of_nat (of_char c) :: u8) = unat (of_nat (of_char d) :: u8)" by simp
  then have "(of_char c :: nat) = of_char d" by (simp add: unat_of_nat)
  then show "c = d" by simp
qed

lemma safe_name_inj: "safe_name a = safe_name b \<Longrightarrow> a = b"
proof (induction a arbitrary: b)
  case Nil
  then show ?case by (cases b) (simp_all add: safe_head safe_name_def [of "[]"] split: if_splits)
next
  case (Cons c a)
  then obtain d b' where b: "b = d # b'" by (cases b) (auto simp: safe_head safe_name_def [of "[]"] split: if_splits)
  show ?case
  proof (cases "safe_char c")
    case True
    then have "safe_char d" "c = d" using Cons.prems b tilde_unsafe by (auto simp: safe_head split: if_splits)
    then show ?thesis using Cons True b by (simp add: safe_head)
  next
    case False
    then have "\<not> safe_char d" using Cons.prems b tilde_unsafe by (auto simp: safe_head split: if_splits)
    then have "fmt_02x (of_nat (of_char c)) = fmt_02x (of_nat (of_char d)) \<and> safe_name a = safe_name b'"
      using Cons.prems b False by (simp add: safe_head append_eq_append_conv)
    then show ?thesis using Cons.IH escape_inj b by blast
  qed
qed

definition file_safe :: "char \<Rightarrow> bool" where
  "file_safe c \<longleftrightarrow> safe_char c \<or> c = CHR ''~''"

lemma fmt_02x_safe: "list_all safe_char (fmt_02x w)"
  using u8_nibbles [of w] by (auto simp: fmt_02x_def safe_char_def Let_def of_char_hex_digit)

lemma safe_name_chars: "list_all file_safe (safe_name name)"
proof (induction name)
  case (Cons c cs)
  have hex: "list_all file_safe (fmt_02x w)" for w using fmt_02x_safe [of w] by (simp add: list_all_iff file_safe_def)
  have "file_safe (CHR ''~'')" "safe_char c \<Longrightarrow> file_safe c" by (simp_all add: file_safe_def)
  then show ?case using Cons hex by (simp add: safe_head)
qed (simp add: safe_name_def)

section \<open>What is on disk\<close>

definition persisted :: "('d, 'o) automerge \<Rightarrow> ('d \<Rightarrow> 'c set) \<Rightarrow> path \<Rightarrow> fs \<Rightarrow> 'c set" where
  "persisted A chg path s =
     (case node_at s path of
        Some (File bytes _) \<Rightarrow> (case am_load A bytes of Inr d \<Rightarrow> chg d | Inl _ \<Rightarrow> {})
      | _ \<Rightarrow> {})"

definition doc_of :: "state_store \<Rightarrow> string \<Rightarrow> 'd state_document \<Rightarrow> bool" where
  "doc_of st name doc \<longleftrightarrow> doc_path doc = document_path st name \<and> doc_lock_path doc = ss_lock_path st
     \<and> ss_lock_path st = ss_root st @ [''.persistence.lock'']"

text \<open>No fault among the next \<open>n\<close> system calls.\<close>

definition steady :: "nat \<Rightarrow> fs \<Rightarrow> bool" where
  "steady n s = list_all (\<lambda>f. f = None) (take n (fs_faults s))"

lemma persisted_cong: "node_at s' p = node_at s p \<Longrightarrow> persisted A chg p s' = persisted A chg p s"
  by (simp add: persisted_def)

lemma lock_path_neq: "base @ [''.persistence.lock''] \<noteq> document_path st name"
proof
  assume "base @ [''.persistence.lock''] = document_path st name"
  then have "''.persistence.lock'' = safe_name name @ ''.automerge''" by (simp add: document_path_def)
  then have "last ''.persistence.lock'' = last (safe_name name @ ''.automerge'')" by simp
  then show False by simp
qed

lemma syscall_steady: "steady (Suc n) s \<Longrightarrow> syscall g k s = k (s\<lparr>fs_faults := tl (fs_faults s)\<rparr>)"
proof (cases "fs_faults s")
  case Nil
  then have eq: "s\<lparr>fs_faults := []\<rparr> = s" by (cases s) simp
  show ?thesis unfolding syscall_def Nil list.case list.sel eq by (rule refl)
next
  case (Cons f fs)
  assume "steady (Suc n) s"
  then show ?thesis using Cons by (simp add: syscall_def steady_def)
qed

lemma steady_tl: "steady (Suc n) s \<Longrightarrow> fs_faults t = tl (fs_faults s) \<Longrightarrow> steady n t"
  by (cases "fs_faults s") (auto simp: steady_def)

lemma acquire_file_lock_effect:
  assumes "acquire_file_lock q s = (r, s')" "p \<noteq> q"
  shows "node_at s' p = node_at s p"
  using assms(1) unfolding acquire_file_lock_def
proof (cases rule: bind_m_cases)
  case (Err e)
  then show ?thesis using assms(2) unfolding from_m_def open_or_create_def
    by (cases "q = []") (auto elim!: syscall_cases simp: node_at_set_node split: prod.splits option.splits node.splits if_splits)
next
  case (Ok x t)
  have "node_at t p = node_at s p" using Ok(1) assms(2) unfolding from_m_def open_or_create_def
    by (cases "q = []") (auto elim!: syscall_cases simp: node_at_set_node split: prod.splits option.splits node.splits if_splits)
  moreover have "node_at s' = node_at t" using Ok(2) unfolding from_m_def
    by (auto elim!: syscall_cases simp: ret_io_def split: prod.splits)
  ultimately show ?thesis by simp
qed

lemma acquire_file_lock_steady:
  assumes "acquire_file_lock q s = (Inr (), s')" "steady 3 s"
  shows "steady 1 s'"
proof -
  obtain t where t: "open_or_create q s = (Inr (), t)" "syscall (\<lambda>_ s. s) (ret_io ()) t = (Inr (), s')"
    using assms(1) by (auto simp: acquire_file_lock_def result_simps)
  have s3: "steady (Suc 2) s" using assms(2) by simp
  have "fs_faults t = tl (fs_faults s)" using t(1) unfolding open_or_create_def syscall_steady [OF s3]
    by (auto simp: set_node_def split: option.splits node.splits if_splits)
  then have s2: "steady (Suc 1) t" using steady_tl [OF s3] by (simp add: numeral_2_eq_2)
  have "fs_faults s' = tl (fs_faults t)" using t(2) unfolding syscall_steady [OF s2] by (auto simp: ret_io_def)
  then show ?thesis using steady_tl [OF s2] by simp
qed

lemma path_exists_steady:
  assumes "path_exists p s = (there, s')" "steady 1 s"
  shows "there \<longleftrightarrow> node_at s p \<noteq> None" "node_at s' = node_at s"
  using assms(1) unfolding path_exists_def syscall_steady [OF assms(2) [unfolded One_nat_def]]
  by (auto simp: ret_io_def)

lemma read_bounded_Inr:
  assumes "read_bounded p s = (Inr bytes, s')"
  shows "node_at s' = node_at s \<and> (\<exists>m. node_at s p = Some (File bytes m))"
proof -
  have "read_limited p MAX_DOCUMENT_BYTES s = (Inr bytes, s')" using assms by (simp add: read_bounded_def result_simps)
  then obtain content where c: "read_file p s = (Inr content, s')"
    "length (take (min (MAX_DOCUMENT_BYTES + 1) (2 ^ 64 - 1)) content) \<le> MAX_DOCUMENT_BYTES"
    "bytes = take (min (MAX_DOCUMENT_BYTES + 1) (2 ^ 64 - 1)) content"
    by (auto simp: read_limited_def bind_io_def err_io_def ret_io_def Let_def split: sum.splits prod.splits if_splits)
  then have "bytes = content" by (auto simp: MAX_DOCUMENT_BYTES_def)
  then show ?thesis using read_file_effect [OF c(1)] by auto
qed

lemma read_bounded_same: "read_bounded p s = (r, s') \<Longrightarrow> node_at s' = node_at s"
  unfolding read_bounded_def from_m_def read_limited_def bind_io_def
  by (auto simp: Let_def err_io_def ret_io_def dest!: read_file_effect split: prod.splits sum.splits if_splits)

lemma replace_keeps:
  assumes "from_m StIo (atomic_replace p bytes None) s = (r, s')" "am_load A bytes = Inr d" "persisted A chg p s \<subseteq> chg d"
  shows "persisted A chg p s \<subseteq> persisted A chg p s' \<and> (r = Inr () \<longrightarrow> persisted A chg p s' = chg d)"
proof -
  obtain r0 where r0: "atomic_replace p bytes None s = (r0, s')" "r = map_err StIo r0"
    using assms(1) by (cases "atomic_replace p bytes None s") (auto simp: from_m_def)
  have new: "node_at s' p = Some (File bytes None) \<Longrightarrow> persisted A chg p s' = chg d"
    using assms(2) by (simp add: persisted_def)
  show ?thesis using atomic_replace_outcome [OF r0(1)] new assms(3) persisted_cong [of s' p s A chg] r0(2)
    by (cases r0) auto
qed

lemma doc_absorb_keeps:
  assumes "am_ok A chg" "doc_absorb A (doc, s) = (r, doc', s')" "steady 1 s"
  shows "node_at s' = node_at s \<and> doc_path doc' = doc_path doc \<and> chg (doc_document doc) \<subseteq> chg (doc_document doc')
    \<and> (r = Inr () \<longrightarrow> persisted A chg (doc_path doc) s \<subseteq> chg (doc_document doc'))"
proof -
  let ?p = "doc_path doc"
  obtain there s1 where e: "path_exists ?p s = (there, s1)" by (cases "path_exists ?p s")
  note ex = path_exists_steady [OF e assms(3)]
  show ?thesis
  proof (cases there)
    case False
    then show ?thesis using assms(2) e ex by (auto simp: doc_absorb_def persisted_def)
  next
    case True
    obtain rb s2 where rb: "read_bounded ?p s1 = (rb, s2)" by (cases "read_bounded ?p s1")
    note same = read_bounded_same [OF rb]
    show ?thesis
    proof (cases "\<exists>bytes d. rb = Inr bytes \<and> am_load A bytes = Inr d")
      case False
      then show ?thesis using assms(2) e True rb same ex
        by (cases rb) (auto simp: doc_absorb_def bind_m_def map_err_Inr_iff split: sum.splits prod.splits)
    next
      case loaded: True
      then obtain bytes d where d: "rb = Inr bytes" "am_load A bytes = Inr d" by blast
      have "persisted A chg ?p s = chg d"
        using read_bounded_Inr [OF rb [unfolded d(1)]] ex d(2) by (auto simp: persisted_def)
      moreover obtain rm dm where m: "am_merge A (doc_document doc) d = (rm, dm)" by (cases "am_merge A (doc_document doc) d")
      moreover have "chg (doc_document doc) \<subseteq> chg dm \<and> (rm = Inr () \<longrightarrow> chg dm = chg (doc_document doc) \<union> chg d)"
        using am_merge_ok [OF assms(1) m] by simp
      ultimately show ?thesis using assms(2) e True rb d same ex
        by (auto simp: doc_absorb_def bind_m_def result_simps)
    qed
  qed
qed

lemma doc_save_keeps:
  assumes "am_ok A chg" "doc_of st name doc" "steady 3 s" "doc_save A (doc, s) = (r, doc', s')"
  shows "persisted A chg (doc_path doc) s \<subseteq> persisted A chg (doc_path doc) s'
    \<and> chg (doc_document doc) \<subseteq> chg (doc_document doc')
    \<and> (r = Inr () \<longrightarrow> persisted A chg (doc_path doc) s' = chg (doc_document doc'))"
proof -
  let ?p = "doc_path doc"
  have neq: "?p \<noteq> doc_lock_path doc" using assms(2) lock_path_neq [of "ss_root st" st name] by (auto simp: doc_of_def)
  obtain rl s1 where l: "acquire_file_lock (doc_lock_path doc) s = (rl, s1)"
    by (cases "acquire_file_lock (doc_lock_path doc) s")
  have p1: "persisted A chg ?p s1 = persisted A chg ?p s"
    by (rule persisted_cong, rule acquire_file_lock_effect [OF l neq])
  show ?thesis
  proof (cases rl)
    case (Inl e)
    then show ?thesis using assms(4) l p1 by (auto simp: doc_save_def)
  next
    case (Inr u)
    have st: "steady 1 s1" using acquire_file_lock_steady assms(3) l Inr by simp
    obtain ra doc1 s2 where a: "doc_absorb A (doc, s1) = (ra, doc1, s2)" by (cases "doc_absorb A (doc, s1)") auto
    note ab = doc_absorb_keeps [OF assms(1) a st]
    have p2: "persisted A chg ?p s2 = persisted A chg ?p s" using ab p1 by (simp add: persisted_def)
    show ?thesis
    proof (cases ra)
      case (Inl e)
      then show ?thesis using assms(4) l Inr a ab p2 by (auto simp: doc_save_def bind_m_def)
    next
      case ra: (Inr u')
      obtain bytes d where sv: "am_save A (doc_document doc1) = (bytes, d)" by (cases "am_save A (doc_document doc1)")
      obtain e where e: "am_load A bytes = Inr e" "chg e = chg (doc_document doc1)" "chg d = chg (doc_document doc1)"
        by (rule am_save_ok [OF assms(1) sv])
      have sub: "persisted A chg ?p s2 \<subseteq> chg e" using ab ra p1 p2 e(2) by simp
      obtain r1 s3 where f: "bind_m (pure_m (ensure_bounded bytes)) (\<lambda>_. from_m StIo (atomic_replace ?p bytes None)) s2 = (r1, s3)"
        by (cases "bind_m (pure_m (ensure_bounded bytes)) (\<lambda>_. from_m StIo (atomic_replace ?p bytes None)) s2")
      have res: "r = r1" "s' = s3" "doc' = doc1\<lparr>doc_document := d\<rparr>"
        using assms(4) l Inr sv f ab
        by (auto simp: doc_save_def bind_m_run(1) [of "doc_absorb A", OF a [unfolded ra]] Let_def)
      have "persisted A chg ?p s2 \<subseteq> persisted A chg ?p s3 \<and> (r1 = Inr () \<longrightarrow> persisted A chg ?p s3 = chg e)"
        using f replace_keeps [OF _ e(1) sub] by (cases "ensure_bounded bytes") auto
      then show ?thesis using res p2 e ab by simp
    qed
  qed
qed

lemma merge_stored_keeps:
  assumes "am_ok A chg"
    and "bind_m (read_bounded p) (\<lambda>stored.
       bind_m (pure_m (map_err StAutomerge (am_load A stored))) (\<lambda>current.
       case am_merge A current d of (r, current) \<Rightarrow>
         bind_m (pure_m (map_err StAutomerge r)) (\<lambda>_.
         let merged = fst (am_save A current) in
         bind_m (pure_m (ensure_bounded merged)) (\<lambda>_.
         from_m StIo (atomic_replace p merged None))))) s = (r, s')"
  shows "persisted A chg p s \<subseteq> persisted A chg p s' \<and> (r = Inr () \<longrightarrow> persisted A chg p s' = persisted A chg p s \<union> chg d)"
  using assms(2)
proof (cases rule: bind_m_cases)
  case (Err e)
  then show ?thesis using read_bounded_same [OF Err(1)] persisted_cong [of s' p s A chg] by simp
next
  case (Ok stored s1)
  note rb = read_bounded_Inr [OF Ok(1)]
  show ?thesis
  proof (cases "am_load A stored")
    case (Inl e)
    then show ?thesis using Ok(2) rb persisted_cong [of s1 p s A chg] by auto
  next
    case (Inr current)
    have ps: "persisted A chg p s = chg current" "persisted A chg p s1 = chg current"
      using rb Inr by (auto simp: persisted_def)
    obtain rm merged where m: "am_merge A current d = (rm, merged)" by (cases "am_merge A current d")
    obtain out e' where sv: "am_save A merged = (out, e')" by (cases "am_save A merged")
    obtain e where e: "am_load A out = Inr e" "chg e = chg merged" "chg e' = chg merged"
      by (rule am_save_ok [OF assms(1) sv])
    show ?thesis
    proof (cases "rm = Inr () \<and> ensure_bounded out = Inr ()")
      case False
      then have "(\<exists>e. r = Inl e) \<and> s' = s1" using Ok(2) Inr m sv
        by (cases rm; cases "ensure_bounded out") (simp_all add: eq_commute [of _ r])
      then show ?thesis using ps by auto
    next
      case True
      then have "from_m StIo (atomic_replace p out None) s1 = (r, s')" using Ok(2) Inr m sv by simp
      from replace_keeps [OF this e(1), of chg] show ?thesis
        using ps e(2) am_merge_ok [OF assms(1) m] True by auto
    qed
  qed
qed

lemma store_merge_keeps:
  assumes "am_ok A chg" "ss_lock_path st = ss_root st @ [''.persistence.lock'']" "steady 3 s"
    and "store_merge_snapshot A st name bytes s = (r, s')"
  shows "persisted A chg (document_path st name) s \<subseteq> persisted A chg (document_path st name) s'
    \<and> (r = Inr () \<longrightarrow> (\<exists>d. am_load A bytes = Inr d
          \<and> persisted A chg (document_path st name) s' = persisted A chg (document_path st name) s \<union> chg d))"
proof -
  let ?p = "document_path st name"
  have neq: "?p \<noteq> ss_lock_path st" using assms(2) lock_path_neq [of "ss_root st" st name] by simp
  show ?thesis
  proof (cases "\<exists>d. ensure_bounded bytes = Inr () \<and> am_load A bytes = Inr d")
    case False
    then have "(\<exists>e. r = Inl e) \<and> s' = s" using assms(4)
      by (cases "ensure_bounded bytes"; cases "am_load A bytes")
         (simp_all add: store_merge_snapshot_def Let_def eq_commute [of _ r])
    then show ?thesis by auto
  next
    case True
    then obtain d where d: "ensure_bounded bytes = Inr ()" "am_load A bytes = Inr d" by blast
    obtain rl s1 where l: "acquire_file_lock (ss_lock_path st) s = (rl, s1)"
      by (cases "acquire_file_lock (ss_lock_path st) s")
    have p1: "persisted A chg ?p s1 = persisted A chg ?p s"
      by (rule persisted_cong, rule acquire_file_lock_effect [OF l neq])
    show ?thesis
    proof (cases rl)
      case (Inl e)
      then show ?thesis using assms(4) l d p1 by (auto simp: store_merge_snapshot_def Let_def bind_m_def)
    next
      case (Inr u)
      have steady: "steady 1 s1" using acquire_file_lock_steady assms(3) l Inr by simp
      obtain there s2 where e: "path_exists ?p s1 = (there, s2)" by (cases "path_exists ?p s1")
      note ex = path_exists_steady [OF e steady]
      have p2: "persisted A chg ?p s2 = persisted A chg ?p s" using ex(2) p1 by (simp add: persisted_def)
      show ?thesis
      proof (cases there)
        case False
        then have none: "persisted A chg ?p s2 = {}" using ex by (simp add: persisted_def)
        have "from_m StIo (atomic_replace ?p bytes None) s2 = (r, s')"
          using assms(4) d l Inr e False by (simp add: store_merge_snapshot_def Let_def bind_m_def)
        from replace_keeps [OF this d(2), of chg] none p2 d(2) show ?thesis by simp
      next
        case True
        then have run: "bind_m (read_bounded ?p) (\<lambda>stored.
             bind_m (pure_m (map_err StAutomerge (am_load A stored))) (\<lambda>current.
             case am_merge A current d of (r, current) \<Rightarrow>
               bind_m (pure_m (map_err StAutomerge r)) (\<lambda>_.
               let merged = fst (am_save A current) in
               bind_m (pure_m (ensure_bounded merged)) (\<lambda>_.
               from_m StIo (atomic_replace ?p merged None))))) s2 = (r, s')"
          using assms(4) d l Inr e by (simp add: store_merge_snapshot_def Let_def bind_m_run)
        show ?thesis
          using merge_stored_keeps [OF assms(1) run] p2 d(2) by auto
      qed
    qed
  qed
qed

lemma merge_creates:
  assumes "store_merge_snapshot A st name bytes s = (Inr (), s')" "fs_faults s = []" "node_at s (document_path st name) = None"
    and "ss_lock_path st = ss_root st @ [''.persistence.lock'']"
  shows "node_at s' (document_path st name) = Some (File bytes None) \<and> length bytes \<le> MAX_DOCUMENT_BYTES \<and> fs_faults s' = []"
proof -
  let ?p = "document_path st name"
  have neq: "?p \<noteq> ss_lock_path st" using assms(4) lock_path_neq [of "ss_root st" st name] by simp
  obtain d s1 where d: "ensure_bounded bytes = Inr ()" "am_load A bytes = Inr d"
    and l: "acquire_file_lock (ss_lock_path st) s = (Inr (), s1)"
    using assms(1) by (auto simp: store_merge_snapshot_def Let_def bind_m_Inr_iff map_err_Inr_iff)
  have q: "quiet (acquire_file_lock q)" for q
    unfolding acquire_file_lock_def open_or_create_def
    by (intro quiet_intros quiet_syscall) (auto simp: set_node_def ret_io_def split: option.splits node.splits)
  have f1: "fs_faults s1 = []" using quiet_step [OF q l assms(2)] .
  have "node_at s1 ?p = None" using acquire_file_lock_effect [OF l neq] assms(3) by simp
  then have "from_m StIo (atomic_replace ?p bytes None) s1 = (Inr (), s')"
    using assms(1) d l f1 by (simp add: store_merge_snapshot_def Let_def bind_m_run path_exists_def syscall_def ret_io_def)
  then have a: "atomic_replace ?p bytes None s1 = (Inr (), s')" by (simp add: from_m_Inr_iff)
  show ?thesis using atomic_replace_outcome [OF a] quiet_step [OF quiet_atomic(2) a f1] d(1)
    by (auto simp: ensure_bounded_def split: if_splits)
qed

section \<open>Properties of the state store\<close>

text \<open>
  C18: Different documents have different files, whatever characters their names have: the file
  name of a document determines its name, uses only letters, digits, dash, underscore and
  tilde before its extension, and is never that of the lock file.
\<close>

theorem document_paths_distinct:
  "(document_path st a = document_path st b \<longleftrightarrow> a = b) \<and> list_all file_safe (safe_name a)
     \<and> document_path st a \<noteq> base @ [''.persistence.lock'']"
  using safe_name_inj [of a b] safe_name_chars lock_path_neq [of base st a] by (auto simp: document_path_def)

text \<open>
  C17: No update is lost. When the lock and the existence test work, then whatever I/O error
  follows, saving a document and merging a snapshot leave on disk at least the changes that
  were there; success means the changes of the saved document, or of the snapshot, are there
  as well.
\<close>

theorem document_changes_never_lost:
  assumes "am_ok A chg" "doc_of st name doc" "steady 3 s"
    and "doc_save A (doc, s) = (r, doc', s1)" "store_merge_snapshot A st name bytes s = (r', s2)"
  shows "persisted A chg (doc_path doc) s \<subseteq> persisted A chg (doc_path doc) s1
    \<and> persisted A chg (doc_path doc) s \<subseteq> persisted A chg (doc_path doc) s2
    \<and> (r = Inr () \<longrightarrow> chg (doc_document doc) \<subseteq> persisted A chg (doc_path doc) s1)
    \<and> (r' = Inr () \<longrightarrow> (\<exists>d. am_load A bytes = Inr d \<and> chg d \<subseteq> persisted A chg (doc_path doc) s2))"
  using doc_save_keeps [OF assms(1-4)] store_merge_keeps [OF assms(1) _ assms(3,5)] assms(2)
  by (auto simp: doc_of_def)

text \<open>A concrete document library: a document is the list of its changes.\<close>

definition list_automerge :: "(bytes, unit) automerge" where
  "list_automerge = \<lparr>am_new = [], am_put_object = Inr, am_load = Inr, am_save = (\<lambda>d. (d, d)),
     am_merge = (\<lambda>d e. (Inr (), d @ e)), am_values = (\<lambda>d. Inr (if 0 \<in> set d then None else Some ())),
     am_put = (\<lambda>d o' k v. Inr (7 # d)), am_get = (\<lambda>d o' k. Inr None)\<rparr>"

lemma list_automerge_ok: "am_ok list_automerge set"
  by (simp add: am_ok_def list_automerge_def)

definition demo_store :: state_store where
  "demo_store = \<lparr>ss_root = [''s''], ss_lock_path = [''s'', ''.persistence.lock'']\<rparr>"

definition demo_state_fs :: "(io_error \<times> nat) option list \<Rightarrow> fs" where
  "demo_state_fs faults = \<lparr>fs_nodes = [([''s''], Dir), ([''s'', ''a.automerge''], File [1, 2] None)], fs_faults = faults,
     fs_temp_sequence = 0, fs_pid = 7\<rparr>"

theorem document_changes_never_lost_witness:
  "\<exists>r doc' s1. doc_save list_automerge (\<lparr>doc_path = document_path demo_store ''a'', doc_document = [3],
       doc_lock_path = ss_lock_path demo_store\<rparr>, demo_state_fs [None, None, None, None, None, Some (OtherIo [], 0)]) = (r, doc', s1)
     \<and> persisted list_automerge set (document_path demo_store ''a'') (demo_state_fs [None, None, None, None, None, Some (OtherIo [], 0)])
        \<subseteq> persisted list_automerge set (document_path demo_store ''a'') s1"
proof -
  let ?s = "demo_state_fs [None, None, None, None, None, Some (OtherIo [], 0)]"
  let ?d = "\<lparr>doc_path = document_path demo_store ''a'', doc_document = [3] :: bytes, doc_lock_path = ss_lock_path demo_store\<rparr>"
  obtain r doc' s1 where sv: "doc_save list_automerge (?d, ?s) = (r, doc', s1)" by (cases "doc_save list_automerge (?d, ?s)") auto
  obtain r' s2 where mg: "store_merge_snapshot list_automerge demo_store ''a'' [9] ?s = (r', s2)"
    by (cases "store_merge_snapshot list_automerge demo_store ''a'' [9] ?s")
  have "doc_of demo_store ''a'' ?d" "steady 3 ?s" by (simp_all add: doc_of_def demo_store_def steady_def demo_state_fs_def)
  from document_changes_never_lost [OF list_automerge_ok this sv mg] sv show ?thesis by auto
qed

text \<open>
  A snapshot is stored as it came, without looking for the map of values every document
  needs: after merging one that lacks it under a new name, opening the document succeeds and
  its next read or write panics.
\<close>

theorem snapshot_without_values_panics:
  assumes "store_merge_snapshot A st name bytes s = (Inr (), s')" "fs_faults s = []" "node_at s (document_path st name) = None"
    and "ss_lock_path st = ss_root st @ [''.persistence.lock'']" "am_load A bytes = Inr d" "am_values A d = Inr None"
  shows "\<exists>doc. store_document A st name s' = (Inr doc, s') \<and> doc_get A doc key = Inl StPanic
    \<and> doc_put A key value doc = (Inl StPanic, doc)"
proof -
  note m = merge_creates [OF assms(1-4)]
  then have "read_bounded (document_path st name) s' = (Inr bytes, s')"
    by (simp add: read_bounded_def from_m_def read_limited_def bind_io_def read_file_def syscall_def ret_io_def
        MAX_DOCUMENT_BYTES_def)
  then have "store_document A st name s' = (Inr \<lparr>doc_path = document_path st name, doc_document = d, doc_lock_path = ss_lock_path st\<rparr>, s')"
    using m assms(5) by (simp add: store_document_def Let_def path_exists_def syscall_def ret_io_def bind_m_def)
  then show ?thesis using assms(6) by (simp add: doc_get_def doc_put_def doc_values_def)
qed

lemma demo_merge: "fst (store_merge_snapshot list_automerge demo_store ''b'' [0] (demo_state_fs [])) = Inr ()"
  by (simp add: store_merge_snapshot_def ensure_bounded_def MAX_DOCUMENT_BYTES_def) code_simp

theorem snapshot_without_values_panics_witness:
  "\<exists>s' doc. store_merge_snapshot list_automerge demo_store ''b'' [0] (demo_state_fs []) = (Inr (), s')
     \<and> store_document list_automerge demo_store ''b'' s' = (Inr doc, s') \<and> doc_get list_automerge doc ''k'' = Inl StPanic"
proof -
  obtain s' where m: "store_merge_snapshot list_automerge demo_store ''b'' [0] (demo_state_fs []) = (Inr (), s')"
    using demo_merge by (cases "store_merge_snapshot list_automerge demo_store ''b'' [0] (demo_state_fs [])") auto
  have none: "node_at (demo_state_fs []) (document_path demo_store ''b'') = None" by code_simp
  have ok: "fs_faults (demo_state_fs []) = []" "ss_lock_path demo_store = ss_root demo_store @ [''.persistence.lock'']"
    "am_load list_automerge [0] = Inr [0]" "am_values list_automerge [0] = Inr None"
    by (simp_all add: demo_state_fs_def demo_store_def list_automerge_def)
  from snapshot_without_values_panics [OF m ok(1) none ok(2-4), of "''k''"] m show ?thesis by blast
qed

end
