(* ===== verification/Anon_Auth.thy ===== *)
theory Anon_Auth
  imports Ledger
begin

text \<open>
  \<open>crates/peerless-anonymous-auth\<close>: blind credentials of short-lived scopes, their issuer with
  its limits, and the offline verifier with its store of redeemed nonces. RSA and the
  Privacy Pass tokens are third-party code: fields of \<open>token_lib\<close>, over types of secret keys
  \<open>'k\<close>, public keys \<open>'p\<close>, client states \<open>'c\<close>, responses \<open>'r\<close> and tokens \<open>'t\<close>. Every
  operation runs under its locks, so it is one step of the model. Fresh keys and the
  randomness of a request are arguments.
\<close>

section \<open>Scopes and policies\<close>

definition AUTH_PROTOCOL_VERSION :: u16 where "AUTH_PROTOCOL_VERSION = 1"
definition MAX_NETWORK_BYTES :: nat where "MAX_NETWORK_BYTES = 128"
definition MAX_PERMISSION_BYTES :: nat where "MAX_PERMISSION_BYTES = 128"
definition MAX_REQUEST_BYTES :: nat where "MAX_REQUEST_BYTES = 512"
definition MAX_RESPONSE_BYTES :: nat where "MAX_RESPONSE_BYTES = 512"
definition PUBLIC_REQUEST_BYTES :: nat where "PUBLIC_REQUEST_BYTES = 259"
definition PUBLIC_RESPONSE_BYTES :: nat where "PUBLIC_RESPONSE_BYTES = 256"
definition PUBLIC_TOKEN_BYTES :: nat where "PUBLIC_TOKEN_BYTES = 354"
definition ISSUER_NAME :: string where "ISSUER_NAME = ''peerless-anonymous-auth''"

record authorization_scope =
  sc_version :: u16
  sc_network_id :: string
  sc_permission :: string
  sc_epoch :: u64
  sc_expires_at :: u64
  sc_issuer_key_id :: bytes

datatype auth_error =
    AaInvalidPolicy | AaInvalidScope | AaUnauthorizedMembership | AaRevoked | AaIssuanceLimit
  | AaKeyLimit | AaExpired | AaInvalidEncoding | AaVerificationFailed | AaReplayOrCapacity

definition scope_validate :: "authorization_scope \<Rightarrow> auth_error + unit" where
  "scope_validate sc =
     (if sc_version sc \<noteq> AUTH_PROTOCOL_VERSION \<or> sc_network_id sc = []
         \<or> length (sc_network_id sc) > MAX_NETWORK_BYTES \<or> sc_permission sc = []
         \<or> length (sc_permission sc) > MAX_PERMISSION_BYTES
      then Inl AaInvalidScope else Inr ())"

record credential_policy =
  po_epoch_seconds :: u64
  po_max_issues_per_member_epoch :: u16
  po_max_active_scope_keys :: nat
  po_max_nullifiers :: nat

definition default_policy :: credential_policy where
  "default_policy = \<lparr>po_epoch_seconds = 300, po_max_issues_per_member_epoch = 32,
     po_max_active_scope_keys = 16, po_max_nullifiers = 100000\<rparr>"

definition policy_validate :: "credential_policy \<Rightarrow> auth_error + credential_policy" where
  "policy_validate p =
     (if po_epoch_seconds p = 0 \<or> po_max_issues_per_member_epoch p = 0 \<or> po_max_active_scope_keys p = 0
         \<or> po_max_active_scope_keys p > 32 \<or> po_max_nullifiers p = 0
      then Inl AaInvalidPolicy else Inr p)"

definition checked_mul :: "u64 \<Rightarrow> u64 \<Rightarrow> u64 option" where
  "checked_mul a b = (if unat a * unat b < 2 ^ 64 then Some (a * b) else None)"

text \<open>The end of an epoch, \<open>(epoch + 1) * epoch_seconds\<close> without overflow.\<close>

definition epoch_end :: "credential_policy \<Rightarrow> u64 \<Rightarrow> u64 option" where
  "epoch_end p epoch = Option.bind (checked_add1 epoch) (\<lambda>value. checked_mul value (po_epoch_seconds p))"

definition policy_epoch :: "credential_policy \<Rightarrow> u64 \<Rightarrow> auth_error + u64 \<times> u64" where
  "policy_epoch p now =
     bind_r (policy_validate p) (\<lambda>_.
     let epoch = now div po_epoch_seconds p in
     bind_r (ok_or AaInvalidScope (epoch_end p epoch)) (\<lambda>expires_at. Inr (epoch, expires_at)))"

definition validate_public_class :: "string \<Rightarrow> string \<Rightarrow> auth_error + unit" where
  "validate_public_class network_id permission =
     (if network_id = [] \<or> length network_id > MAX_NETWORK_BYTES \<or> permission = []
         \<or> length permission > MAX_PERMISSION_BYTES
      then Inl AaInvalidScope else Inr ())"

section \<open>Credentials and descriptors\<close>

record anonymous_challenge =
  ch_scope :: authorization_scope
  ch_issuer_public_key :: bytes
  ch_governance_issuer :: node_id
  ch_governance_public_key :: bytes
  ch_descriptor_signature :: bytes

record blind_request =
  br_scope :: authorization_scope
  br_request :: bytes

record blind_response =
  bs_response :: bytes

record 'c pending_credential =
  pc_scope :: authorization_scope
  pc_state :: 'c

record anonymous_presentation =
  ap_scope :: authorization_scope
  ap_token :: bytes

record scope_key_descriptor =
  sk_scope :: authorization_scope
  sk_public_key :: bytes
  sk_governance_issuer :: node_id
  sk_governance_public_key :: bytes
  sk_signature :: bytes

type_synonym descriptor_payload = "authorization_scope \<times> bytes \<times> node_id \<times> bytes"

datatype nonce_state = Reserved | Committed

record nonce_store =
  ns_values :: "(bytes, nonce_state \<times> u64) hmap"
  ns_max_entries :: nat
  ns_retention_seconds :: u64

datatype redeem_error = DoubleSpending | OtherRedeemError

record ('k, 'p, 'c, 'r, 't) token_lib = ledger_lib +
  sd_scope :: "authorization_scope serde"
  sd_descriptor :: "descriptor_payload serde"
  token_type_public :: u16
  rsa_public_der :: "'k \<Rightarrow> bytes option"
  rsa_private_decrypt :: "'k \<Rightarrow> bytes \<Rightarrow> bytes option"
  pk_from_der :: "bytes \<Rightarrow> 'p option"
  pk_from_spki :: "bytes \<Rightarrow> 'p option"
  pk_serialize :: "'p \<Rightarrow> bytes option"
  pk_truncated_id :: "'p \<Rightarrow> u8 option"
  challenge_digest_of :: "string \<Rightarrow> string \<Rightarrow> bytes option"
  token_request_new :: "bytes \<Rightarrow> 'p \<Rightarrow> string \<times> string \<Rightarrow> (bytes option \<times> 'c) option"
  tls_token_response :: "bytes \<Rightarrow> ('r \<times> bytes) option"
  issue_token :: "'r \<Rightarrow> 'c \<Rightarrow> 't option"
  tls_serialize_token :: "'t \<Rightarrow> bytes option"
  tls_token :: "bytes \<Rightarrow> ('t \<times> bytes) option"
  token_key_id :: "'t \<Rightarrow> bytes"
  token_challenge_digest :: "'t \<Rightarrow> bytes"
  token_nonce :: "'t \<Rightarrow> bytes"
  redeem_token :: "(u8, 'p list) hmap \<Rightarrow> u64 \<Rightarrow> nonce_store \<Rightarrow> 't \<Rightarrow> (redeem_error + unit) \<times> nonce_store"

text \<open>\<open>TokenChallenge::new(Public, ISSUER_NAME, None, [hex of the scope])\<close>.\<close>

definition scope_challenge ::
  "('k, 'p, 'c, 'r, 't, 'z) token_lib_scheme \<Rightarrow> authorization_scope \<Rightarrow> auth_error + string \<times> string" where
  "scope_challenge L sc =
     bind_r (scope_validate sc) (\<lambda>_.
     bind_r (map_err (\<lambda>_. AaInvalidScope) (to_vec (sd_scope L) sc)) (\<lambda>bytes.
     Inr (ISSUER_NAME, hex_encode L bytes)))"

definition challenge_digest ::
  "('k, 'p, 'c, 'r, 't, 'z) token_lib_scheme \<Rightarrow> authorization_scope \<Rightarrow> auth_error + bytes" where
  "challenge_digest L sc =
     bind_r (scope_challenge L sc) (\<lambda>(issuer, encoded).
     ok_or AaInvalidScope (challenge_digest_of L issuer encoded))"

definition key_id :: "'z hash_lib_scheme \<Rightarrow> bytes \<Rightarrow> auth_error + bytes" where
  "key_id L public_key_der =
     (if length public_key_der > 1024 then Inl AaInvalidEncoding else Inr (sha256 L public_key_der))"

definition decode_exact :: "(bytes \<Rightarrow> ('a \<times> bytes) option) \<Rightarrow> bytes \<Rightarrow> nat \<Rightarrow> auth_error + 'a" where
  "decode_exact deserialize bytes maximum =
     (if bytes = [] \<or> length bytes > maximum then Inl AaInvalidEncoding
      else
        case deserialize bytes of
          None \<Rightarrow> Inl AaInvalidEncoding
        | Some (value, remaining) \<Rightarrow> if remaining \<noteq> [] then Inl AaInvalidEncoding else Inr value)"

definition descriptor_payload_of ::
  "('k, 'p, 'c, 'r, 't, 'z) token_lib_scheme \<Rightarrow> scope_key_descriptor \<Rightarrow> auth_error + bytes" where
  "descriptor_payload_of L d = map_err (\<lambda>_. AaInvalidEncoding)
     (to_vec (sd_descriptor L) (sk_scope d, sk_public_key d, sk_governance_issuer d, sk_governance_public_key d))"

definition descriptor_issue ::
  "('k, 'p, 'c, 'r, 't, 'z) token_lib_scheme \<Rightarrow> authorization_scope \<Rightarrow> bytes \<Rightarrow> node_identity \<Rightarrow> auth_error + scope_key_descriptor" where
  "descriptor_issue L sc public_key issuer =
     (let d = \<lparr>sk_scope = sc, sk_public_key = public_key, sk_governance_issuer = ni_node_id issuer,
               sk_governance_public_key = ni_public_key issuer, sk_signature = []\<rparr> in
      bind_r (descriptor_payload_of L d) (\<lambda>payload.
      bind_r (map_err (\<lambda>_. AaVerificationFailed) (identity_sign L issuer payload)) (\<lambda>signature.
      Inr (d\<lparr>sk_signature := signature\<rparr>))))"

definition descriptor_verify ::
  "('k, 'p, 'c, 'r, 't, 'z) token_lib_scheme \<Rightarrow> scope_key_descriptor \<Rightarrow> node_id set \<Rightarrow> auth_error + bool" where
  "descriptor_verify L d trusted_issuers =
     (if sk_governance_issuer d \<in> trusted_issuers \<and> node_derive L (sk_governance_public_key d) = sk_governance_issuer d
      then
        bind_r (descriptor_payload_of L d) (\<lambda>payload.
        map_err (\<lambda>_. AaVerificationFailed) (verify L (sk_governance_public_key d) payload (sk_signature d)))
      else Inr False)"

section \<open>Key and nonce stores\<close>

definition issuer_keys_insert :: "u8 \<Rightarrow> 'k \<Rightarrow> (u8, 'k) hmap \<Rightarrow> bool \<times> (u8, 'k) hmap" where
  "issuer_keys_insert i key keys = (if hm_contains keys i then (False, keys) else (True, AList.update i key keys))"

definition origin_insert :: "u8 \<Rightarrow> 'p \<Rightarrow> (u8, 'p list) hmap \<Rightarrow> (u8, 'p list) hmap" where
  "origin_insert i key keys =
     AList.update i ((case map_of keys i of None \<Rightarrow> [] | Some values \<Rightarrow> values) @ [key]) keys"

definition origin_get :: "(u8, 'p list) hmap \<Rightarrow> u8 \<Rightarrow> 'p list" where
  "origin_get keys i = (case map_of keys i of None \<Rightarrow> [] | Some values \<Rightarrow> values)"

definition remove_exact ::
  "('k, 'p, 'c, 'r, 't, 'z) token_lib_scheme \<Rightarrow> u8 \<Rightarrow> bytes \<Rightarrow> (u8, 'p list) hmap \<Rightarrow> (u8, 'p list) hmap" where
  "remove_exact L i expected_der keys =
     (case map_of keys i of
        None \<Rightarrow> keys
      | Some values \<Rightarrow>
          let values = filter (\<lambda>key. case pk_serialize L key of Some der \<Rightarrow> der \<noteq> expected_der | None \<Rightarrow> True) values in
          if values = [] then AList.delete i keys else AList.update i values keys)"

definition saturating_add :: "u64 \<Rightarrow> u64 \<Rightarrow> u64" where
  "saturating_add a b = (if unat a + unat b < 2 ^ 64 then a + b else - 1)"

definition nonce_reserve :: "u64 \<Rightarrow> bytes \<Rightarrow> nonce_store \<Rightarrow> bool \<times> nonce_store" where
  "nonce_reserve now nonce ns =
     (let values = hm_retain (\<lambda>_ (_, expiry). expiry > now) (ns_values ns) in
      if hm_contains values nonce \<or> length values \<ge> ns_max_entries ns
      then (False, ns\<lparr>ns_values := values\<rparr>)
      else (True, ns\<lparr>ns_values := AList.update nonce (Reserved, saturating_add now (ns_retention_seconds ns)) values\<rparr>))"

definition nonce_commit :: "bytes \<Rightarrow> nonce_store \<Rightarrow> nonce_store" where
  "nonce_commit nonce ns =
     (case map_of (ns_values ns) nonce of
        None \<Rightarrow> ns
      | Some (_, expiry) \<Rightarrow> ns\<lparr>ns_values := AList.update nonce (Committed, expiry) (ns_values ns)\<rparr>)"

definition nonce_release :: "bytes \<Rightarrow> nonce_store \<Rightarrow> nonce_store" where
  "nonce_release nonce ns =
     (case map_of (ns_values ns) nonce of
        Some (Reserved, _) \<Rightarrow> ns\<lparr>ns_values := AList.delete nonce (ns_values ns)\<rparr>
      | _ \<Rightarrow> ns)"

section \<open>The issuer\<close>

record 'k issuer =
  is_policy :: credential_policy
  is_keys :: "(u8, 'k) hmap"
  is_descriptors :: "(authorization_scope, scope_key_descriptor) hmap"
  is_issuance :: "(node_id \<times> u64, u16) hmap"

definition issuer_new :: "credential_policy \<Rightarrow> auth_error + 'k issuer" where
  "issuer_new policy =
     bind_r (policy_validate policy) (\<lambda>policy.
     Inr \<lparr>is_policy = policy, is_keys = [], is_descriptors = [], is_issuance = []\<rparr>)"

text \<open>One round of the loop in \<open>prune\<close> for an expired scope.\<close>

definition issuer_prune_one ::
  "('k, 'p, 'c, 'r, 't, 'z) token_lib_scheme \<Rightarrow> authorization_scope \<times> bytes \<Rightarrow> 'k issuer \<Rightarrow> 'k issuer" where
  "issuer_prune_one L = (\<lambda>(scope, public_key_der) I.
     let I = (case Option.bind (pk_from_spki L public_key_der) (pk_truncated_id L) of
                None \<Rightarrow> I
              | Some i \<Rightarrow> I\<lparr>is_keys := AList.delete i (is_keys I)\<rparr>)
     in I\<lparr>is_descriptors := AList.delete scope (is_descriptors I)\<rparr>)"

definition issuer_prune ::
  "('k, 'p, 'c, 'r, 't, 'z) token_lib_scheme \<Rightarrow> u64 \<Rightarrow> 'k issuer \<Rightarrow> 'k issuer" where
  "issuer_prune L now I =
     (let expired = map (\<lambda>(scope, d). (scope, sk_public_key d))
                      (filter (\<lambda>(scope, _). sc_expires_at scope \<le> now) (is_descriptors I));
          I = fold (issuer_prune_one L) expired I
      in case policy_epoch (is_policy I) now of
           Inl _ \<Rightarrow> I
         | Inr (epoch, _) \<Rightarrow> I\<lparr>is_issuance := hm_retain (\<lambda>(_, value_epoch) _. value_epoch \<ge> epoch) (is_issuance I)\<rparr>)"

text \<open>The loop that draws key pairs until one has an unused short identifier.\<close>

fun generate_key ::
  "('k, 'p, 'c, 'r, 't, 'z) token_lib_scheme \<Rightarrow> 'k option list \<Rightarrow> (u8, 'k) hmap \<Rightarrow> (auth_error + bytes option) \<times> (u8, 'k) hmap" where
  "generate_key L [] keys = (Inr None, keys)"
| "generate_key L (None # rest) keys = (Inl AaVerificationFailed, keys)"
| "generate_key L (Some private_key # rest) keys =
     (case Option.bind (rsa_public_der L private_key) (\<lambda>der.
           Option.bind (pk_from_der L der) (\<lambda>public_key.
           Option.bind (pk_serialize L public_key) (\<lambda>public_key_der.
           Option.bind (pk_truncated_id L public_key) (\<lambda>truncated. Some (public_key_der, truncated))))) of
        None \<Rightarrow> (Inl AaVerificationFailed, keys)
      | Some (public_key_der, truncated) \<Rightarrow>
          (case issuer_keys_insert truncated private_key keys of
             (True, keys) \<Rightarrow> (Inr (Some public_key_der), keys)
           | (False, keys) \<Rightarrow> generate_key L rest keys))"

definition challenge_of :: "scope_key_descriptor \<Rightarrow> anonymous_challenge" where
  "challenge_of d = \<lparr>ch_scope = sk_scope d, ch_issuer_public_key = sk_public_key d,
     ch_governance_issuer = sk_governance_issuer d, ch_governance_public_key = sk_governance_public_key d,
     ch_descriptor_signature = sk_signature d\<rparr>"

definition issuer_challenge ::
  "('k, 'p, 'c, 'r, 't, 'z) token_lib_scheme \<Rightarrow> (nat \<Rightarrow> 'k option) \<Rightarrow> node_identity \<Rightarrow> string \<Rightarrow> string \<Rightarrow> u64 \<Rightarrow>
     ('k issuer, auth_error, anonymous_challenge) action" where
  "issuer_challenge L generate governance_issuer network_id permission now I =
     (case validate_public_class network_id permission of
        Inl e \<Rightarrow> (Inl e, I)
      | Inr _ \<Rightarrow>
        let I = issuer_prune L now I in
        case policy_epoch (is_policy I) now of
          Inl e \<Rightarrow> (Inl e, I)
        | Inr (epoch, expires_at) \<Rightarrow>
            (case find (\<lambda>d. sc_network_id (sk_scope d) = network_id \<and> sc_permission (sk_scope d) = permission
                          \<and> sc_epoch (sk_scope d) = epoch \<and> sc_expires_at (sk_scope d) = expires_at)
                    (map snd (is_descriptors I)) of
               Some existing \<Rightarrow> (Inr (challenge_of existing), I)
             | None \<Rightarrow>
                 if length (is_descriptors I) \<ge> po_max_active_scope_keys (is_policy I) then (Inl AaKeyLimit, I)
                 else
                   case generate_key L (map generate [0..<100]) (is_keys I) of (r, keys) \<Rightarrow>
                     let I = I\<lparr>is_keys := keys\<rparr> in
                     case bind_r (bind_r r (ok_or AaKeyLimit)) (\<lambda>public_key_der.
                          let scope = \<lparr>sc_version = AUTH_PROTOCOL_VERSION, sc_network_id = network_id,
                                sc_permission = permission, sc_epoch = epoch, sc_expires_at = expires_at,
                                sc_issuer_key_id = sha256 L public_key_der\<rparr> in
                          bind_r (scope_validate scope) (\<lambda>_. descriptor_issue L scope public_key_der governance_issuer)) of
                       Inl e \<Rightarrow> (Inl e, I)
                     | Inr d \<Rightarrow> (Inr (challenge_of d),
                         I\<lparr>is_descriptors := AList.update (sk_scope d) d (is_descriptors I)\<rparr>)))"

text \<open>The checks of \<open>issue\<close> before anything is counted; the result is the short key identifier.\<close>

definition issue_check ::
  "('k, 'p, 'c, 'r, 't, 'z) token_lib_scheme \<Rightarrow> 'k issuer \<Rightarrow> membership \<Rightarrow> node_id set \<Rightarrow> node_id set \<Rightarrow> blind_request \<Rightarrow> u64 \<Rightarrow>
     auth_error + u64 \<times> u8" where
  "issue_check L I m trusted_issuers revoked_members request now =
     (let scope = br_scope request; bytes = br_request request in
      bind_r (scope_validate scope) (\<lambda>_.
      if mb_member m \<in> revoked_members then Inl AaRevoked
      else
        bind_r (map_err (\<lambda>_. AaUnauthorizedMembership) (membership_verify L m trusted_issuers now)) (\<lambda>ok.
        if \<not> ok \<or> mb_network_id m \<noteq> sc_network_id scope \<or> sc_permission scope \<notin> set (mb_permissions m)
        then Inl AaUnauthorizedMembership
        else
          bind_r (policy_epoch (is_policy I) now) (\<lambda>(expected_epoch, expected_expiry).
          if sc_epoch scope \<noteq> expected_epoch \<or> sc_expires_at scope \<noteq> expected_expiry then Inl AaInvalidScope
          else if length bytes > MAX_REQUEST_BYTES then Inl AaInvalidEncoding
          else
            bind_r (ok_or AaInvalidScope (map_of (is_descriptors I) scope)) (\<lambda>d.
            bind_r (key_id L (sk_public_key d)) (\<lambda>i.
            if i \<noteq> sc_issuer_key_id scope then Inl AaInvalidScope
            else if length bytes \<noteq> PUBLIC_REQUEST_BYTES \<or> be_u16 (slice 0 2 bytes) \<noteq> token_type_public L
            then Inl AaInvalidEncoding
            else
              bind_r (ok_or AaInvalidEncoding (pk_from_spki L (sk_public_key d))) (\<lambda>public_key.
              bind_r (ok_or AaInvalidEncoding (pk_truncated_id L public_key)) (\<lambda>expected_truncated.
              if bytes ! 2 \<noteq> expected_truncated then Inl AaInvalidScope
              else Inr (expected_epoch, expected_truncated)))))))))"

definition count_issue :: "'k issuer \<Rightarrow> node_id \<Rightarrow> u64 \<Rightarrow> (auth_error + unit) \<times> 'k issuer" where
  "count_issue I member expected_epoch =
     (let issuance = hm_retain (\<lambda>(_, epoch) _. epoch \<ge> expected_epoch) (is_issuance I);
          count = (case map_of issuance (member, expected_epoch) of None \<Rightarrow> 0 | Some c \<Rightarrow> c)
      in if count \<ge> po_max_issues_per_member_epoch (is_policy I)
         then (Inl AaIssuanceLimit, I\<lparr>is_issuance := AList.update (member, expected_epoch) count issuance\<rparr>)
         else (Inr (), I\<lparr>is_issuance := AList.update (member, expected_epoch) (count + 1) issuance\<rparr>))"

definition issuer_issue ::
  "('k, 'p, 'c, 'r, 't, 'z) token_lib_scheme \<Rightarrow> membership \<Rightarrow> node_id set \<Rightarrow> node_id set \<Rightarrow> blind_request \<Rightarrow> u64 \<Rightarrow>
     ('k issuer, auth_error, blind_response) action" where
  "issuer_issue L m trusted_issuers revoked_members request now I =
     (case issue_check L I m trusted_issuers revoked_members request now of
        Inl e \<Rightarrow> (Inl e, I)
      | Inr (expected_epoch, expected_truncated) \<Rightarrow>
          (case count_issue I (mb_member m) expected_epoch of
             (Inl e, I) \<Rightarrow> (Inl e, I)
           | (Inr _, I) \<Rightarrow>
               (bind_r (ok_or AaInvalidScope (map_of (is_keys I) expected_truncated)) (\<lambda>private_key.
                bind_r (ok_or AaVerificationFailed (rsa_private_decrypt L private_key (drop 3 (br_request request)))) (\<lambda>response.
                if length response \<noteq> PUBLIC_RESPONSE_BYTES then Inl AaVerificationFailed
                else Inr \<lparr>bs_response = response\<rparr>)), I)))"

section \<open>The client\<close>

definition client_begin ::
  "('k, 'p, 'c, 'r, 't, 'z) token_lib_scheme \<Rightarrow> bytes \<Rightarrow> anonymous_challenge \<Rightarrow> auth_error + blind_request \<times> 'c pending_credential" where
  "client_begin L random ch =
     bind_r (scope_validate (ch_scope ch)) (\<lambda>_.
     bind_r (key_id L (ch_issuer_public_key ch)) (\<lambda>i.
     if i \<noteq> sc_issuer_key_id (ch_scope ch) then Inl AaInvalidScope
     else
       bind_r (ok_or AaInvalidEncoding (pk_from_spki L (ch_issuer_public_key ch))) (\<lambda>public_key.
       bind_r (scope_challenge L (ch_scope ch)) (\<lambda>token_challenge.
       bind_r (ok_or AaVerificationFailed (token_request_new L random public_key token_challenge)) (\<lambda>(request, state).
       bind_r (ok_or AaInvalidEncoding request) (\<lambda>request.
       Inr (\<lparr>br_scope = ch_scope ch, br_request = request\<rparr>, \<lparr>pc_scope = ch_scope ch, pc_state = state\<rparr>)))))))"

definition client_finish ::
  "('k, 'p, 'c, 'r, 't, 'z) token_lib_scheme \<Rightarrow> 'c pending_credential \<Rightarrow> blind_response \<Rightarrow> auth_error + anonymous_presentation" where
  "client_finish L pending response =
     (if length (bs_response response) > MAX_RESPONSE_BYTES then Inl AaInvalidEncoding
      else
        bind_r (decode_exact (tls_token_response L) (bs_response response) MAX_RESPONSE_BYTES) (\<lambda>token_response.
        bind_r (ok_or AaVerificationFailed (issue_token L token_response (pc_state pending))) (\<lambda>token.
        bind_r (ok_or AaInvalidEncoding (tls_serialize_token L token)) (\<lambda>bytes.
        Inr \<lparr>ap_scope = pc_scope pending, ap_token = bytes\<rparr>))))"

section \<open>The verifier\<close>

record 'p verifier =
  vf_policy :: credential_policy
  vf_keys :: "(u8, 'p list) hmap"
  vf_descriptors :: "(authorization_scope, scope_key_descriptor) hmap"
  vf_nonces :: nonce_store

definition verifier_new :: "credential_policy \<Rightarrow> auth_error + 'p verifier" where
  "verifier_new policy =
     bind_r (policy_validate policy) (\<lambda>policy.
     Inr \<lparr>vf_policy = policy, vf_keys = [], vf_descriptors = [],
          vf_nonces = \<lparr>ns_values = [], ns_max_entries = po_max_nullifiers policy, ns_retention_seconds = po_epoch_seconds policy\<rparr>\<rparr>)"

definition verifier_prune_one ::
  "('k, 'p, 'c, 'r, 't, 'z) token_lib_scheme \<Rightarrow> authorization_scope \<times> bytes \<Rightarrow> 'p verifier \<Rightarrow> 'p verifier" where
  "verifier_prune_one L = (\<lambda>(scope, public_key_der) V.
     let V = V\<lparr>vf_descriptors := AList.delete scope (vf_descriptors V)\<rparr> in
     case Option.bind (pk_from_spki L public_key_der) (pk_truncated_id L) of
       None \<Rightarrow> V
     | Some i \<Rightarrow> V\<lparr>vf_keys := remove_exact L i public_key_der (vf_keys V)\<rparr>)"

definition verifier_prune ::
  "('k, 'p, 'c, 'r, 't, 'z) token_lib_scheme \<Rightarrow> u64 \<Rightarrow> 'p verifier \<Rightarrow> 'p verifier" where
  "verifier_prune L now V =
     fold (verifier_prune_one L)
       (map (\<lambda>(scope, d). (scope, sk_public_key d))
          (filter (\<lambda>(scope, _). sc_expires_at scope \<le> now) (vf_descriptors V))) V"

definition descriptor_check ::
  "('k, 'p, 'c, 'r, 't, 'z) token_lib_scheme \<Rightarrow> credential_policy \<Rightarrow> scope_key_descriptor \<Rightarrow> node_id set \<Rightarrow> u64 \<Rightarrow> auth_error + 'p \<times> u8" where
  "descriptor_check L policy d trusted_issuers now =
     bind_r (scope_validate (sk_scope d)) (\<lambda>_.
     bind_r (ok_or AaInvalidScope (epoch_end policy (sc_epoch (sk_scope d)))) (\<lambda>expected_expiry.
     if sc_expires_at (sk_scope d) \<noteq> expected_expiry then Inl AaInvalidScope
     else if sc_expires_at (sk_scope d) \<le> now then Inl AaExpired
     else
       bind_r (descriptor_verify L d trusted_issuers) (\<lambda>ok.
       if \<not> ok then Inl AaUnauthorizedMembership
       else
         bind_r (key_id L (sk_public_key d)) (\<lambda>i.
         if i \<noteq> sc_issuer_key_id (sk_scope d) then Inl AaInvalidScope
         else
           bind_r (ok_or AaInvalidEncoding (pk_from_spki L (sk_public_key d))) (\<lambda>public_key.
           bind_r (ok_or AaInvalidEncoding (pk_truncated_id L public_key)) (\<lambda>truncated.
           Inr (public_key, truncated)))))))"

definition add_descriptor ::
  "('k, 'p, 'c, 'r, 't, 'z) token_lib_scheme \<Rightarrow> scope_key_descriptor \<Rightarrow> node_id set \<Rightarrow> u64 \<Rightarrow> ('p verifier, auth_error, unit) action" where
  "add_descriptor L d trusted_issuers now V =
     (case descriptor_check L (vf_policy V) d trusted_issuers now of
        Inl e \<Rightarrow> (Inl e, V)
      | Inr (public_key, truncated) \<Rightarrow>
          let V = verifier_prune L now V in
          case map_of (vf_descriptors V) (sk_scope d) of
            Some existing \<Rightarrow> (if existing = d then Inr () else Inl AaInvalidScope, V)
          | None \<Rightarrow>
              if length (vf_descriptors V) \<ge> po_max_active_scope_keys (vf_policy V) then (Inl AaKeyLimit, V)
              else (Inr (), V\<lparr>vf_descriptors := AList.update (sk_scope d) d (vf_descriptors V),
                              vf_keys := origin_insert truncated public_key (vf_keys V)\<rparr>))"

text \<open>The checks of \<open>redeem\<close> after pruning, up to the call of the token library.\<close>

definition redeem_check ::
  "('k, 'p, 'c, 'r, 't, 'z) token_lib_scheme \<Rightarrow> 'p verifier \<Rightarrow> anonymous_presentation \<Rightarrow> auth_error + 't" where
  "redeem_check L V presentation =
     (let scope = ap_scope presentation in
      if length (ap_token presentation) \<noteq> PUBLIC_TOKEN_BYTES then Inl AaInvalidEncoding
      else
        bind_r (ok_or AaInvalidScope (map_of (vf_descriptors V) scope)) (\<lambda>d.
        bind_r (key_id L (sk_public_key d)) (\<lambda>i.
        if i \<noteq> sc_issuer_key_id scope then Inl AaInvalidScope
        else
          bind_r (decode_exact (tls_token L) (ap_token presentation) PUBLIC_TOKEN_BYTES) (\<lambda>token.
          if token_key_id L token \<noteq> sc_issuer_key_id scope then Inl AaInvalidScope
          else
            bind_r (challenge_digest L scope) (\<lambda>expected_digest.
            if token_challenge_digest L token \<noteq> expected_digest then Inl AaInvalidScope else Inr token)))))"

text \<open>The checks of \<open>redeem\<close> before pruning.\<close>

definition redeem_precheck ::
  "credential_policy \<Rightarrow> authorization_scope \<Rightarrow> string \<Rightarrow> string \<Rightarrow> u64 \<Rightarrow> auth_error + unit" where
  "redeem_precheck policy scope expected_network expected_permission now =
     bind_r (scope_validate scope) (\<lambda>_.
     if sc_network_id scope \<noteq> expected_network \<or> sc_permission scope \<noteq> expected_permission
     then Inl AaInvalidScope
     else
       bind_r (policy_epoch policy now) (\<lambda>(epoch, expiry).
       if sc_epoch scope \<noteq> epoch \<or> sc_expires_at scope \<noteq> expiry then Inl AaExpired else Inr ()))"

text \<open>\<open>clock\<close> is what \<open>unix_seconds\<close> returns inside the nonce store.\<close>

definition redeem ::
  "('k, 'p, 'c, 'r, 't, 'z) token_lib_scheme \<Rightarrow> u64 \<Rightarrow> anonymous_presentation \<Rightarrow> string \<Rightarrow> string \<Rightarrow> u64 \<Rightarrow>
     ('p verifier, auth_error, unit) action" where
  "redeem L clock presentation expected_network expected_permission now V =
     (case redeem_precheck (vf_policy V) (ap_scope presentation) expected_network expected_permission now of
        Inl e \<Rightarrow> (Inl e, V)
      | Inr _ \<Rightarrow>
          let V = verifier_prune L now V in
          case redeem_check L V presentation of
            Inl e \<Rightarrow> (Inl e, V)
          | Inr token \<Rightarrow>
              (case redeem_token L (vf_keys V) clock (vf_nonces V) token of
                 (r, ns) \<Rightarrow>
                   (map_err (\<lambda>e. if e = DoubleSpending then AaReplayOrCapacity else AaVerificationFailed) r,
                    V\<lparr>vf_nonces := ns\<rparr>)))"

end
