(* ===== verification/Anon_Auth_Props.thy ===== *)
theory Anon_Auth_Props
  imports Anon_Auth
begin

text \<open>
  Properties of anonymous credentials: what an epoch is, that a credential is redeemed at most
  once, that no member exceeds its issuance allowance, and that an honest exchange ends with a
  redeemed credential.
\<close>

section \<open>Epochs\<close>

lemma u64_div: "unat ((a :: u64) div b) = unat a div unat b"
  by (rule unat_div)

lemma checked_mul_Some: "checked_mul a b = Some c \<longleftrightarrow> unat a * unat b < 2 ^ 64 \<and> unat c = unat a * unat b"
proof -
  have "unat a * unat b < 2 ^ 64 \<Longrightarrow> unat (a * b) = unat a * unat b"
    by (simp add: unat_word_ariths)
  then show ?thesis by (auto simp: checked_mul_def word_unat_eq_iff)
qed

lemma checked_add1_Some: "checked_add1 a = Some b \<longleftrightarrow> unat a + 1 < 2 ^ 64 \<and> unat b = unat a + 1"
proof (cases "a = - 1")
  case True
  then show ?thesis by (simp add: checked_add1_def unat_minus_1_u64)
next
  case False
  then have "unat (a + 1) = unat a + 1" using u64_succ(1) [OF False] by simp
  moreover have "unat (a + 1) < 2 ^ 64" using unat_bound [of "a + 1"] by simp
  ultimately show ?thesis using False by (auto simp: checked_add1_def word_unat_eq_iff)
qed

lemma epoch_end_Some:
  "epoch_end p e = Some x \<longleftrightarrow> unat e + 1 < 2 ^ 64 \<and> (unat e + 1) * unat (po_epoch_seconds p) < 2 ^ 64
     \<and> unat x = (unat e + 1) * unat (po_epoch_seconds p)"
proof (cases "checked_add1 e")
  case None
  then have "unat e = 2 ^ 64 - 1" by (auto simp: checked_add1_def unat_minus_1_u64 split: if_splits)
  then show ?thesis using None by (simp add: epoch_end_def)
next
  case (Some y)
  then have "unat e + 1 < 2 ^ 64" "unat y = unat e + 1" by (simp_all add: checked_add1_Some)
  then show ?thesis using Some by (auto simp: epoch_end_def checked_mul_Some)
qed

lemma policy_epoch_Inr:
  assumes "policy_epoch p now = Inr (e, x)"
  shows "0 < po_epoch_seconds p" "e = now div po_epoch_seconds p"
    "unat x = (unat e + 1) * unat (po_epoch_seconds p)" "now < x" "policy_validate p = Inr p"
proof -
  have v: "policy_validate p = Inr p" "epoch_end p e = Some x" "e = now div po_epoch_seconds p"
    using assms by (auto simp: policy_epoch_def policy_validate_def Let_def result_simps split: if_splits)
  then show "policy_validate p = Inr p" "e = now div po_epoch_seconds p" by blast+
  show pos: "0 < po_epoch_seconds p"
    using v(1) by (auto simp: policy_validate_def word_neq_0_conv split: if_splits)
  show x: "unat x = (unat e + 1) * unat (po_epoch_seconds p)" using v(2) by (simp add: epoch_end_Some)
  have "0 < unat (po_epoch_seconds p)" using pos by (simp add: word_less_nat_alt)
  then have "unat now < (unat now div unat (po_epoch_seconds p) + 1) * unat (po_epoch_seconds p)"
    by (metis dividend_less_div_times add.commute mult.commute mult_Suc_right Suc_eq_plus1)
  then show "now < x" using x v(3) by (simp add: word_less_nat_alt u64_div)
qed

lemma epoch_mono: "a \<le> b \<Longrightarrow> a div (es :: u64) \<le> b div es"
  by (simp add: word_le_nat_alt u64_div div_le_mono)

section \<open>The nonce store\<close>

definition nonces_wf :: "'p verifier \<Rightarrow> bool" where
  "nonces_wf V \<longleftrightarrow> hm_wf (ns_values (vf_nonces V)) \<and> ns_retention_seconds (vf_nonces V) = po_epoch_seconds (vf_policy V)"

text \<open>A nonce is spent when it is committed; it is kept until the clock of the store reaches \<open>e\<close>.\<close>

definition spent :: "bytes \<Rightarrow> u64 \<Rightarrow> 'p verifier \<Rightarrow> bool" where
  "spent n e V \<longleftrightarrow> map_of (ns_values (vf_nonces V)) n = Some (Committed, e)"

text \<open>
  What is relied on of \<open>OriginServer::redeem_token\<close>: it accepts a token only after reserving
  its nonce and checking its signature against the stored keys, and commits the nonce; a
  token it rejects has its own reservation released, if it got that far. A valid token with
  a fresh nonce is accepted. \<open>valid\<close> is the signature check.
\<close>

definition origin_server_ok ::
  "('k, 'p, 'c, 'r, 't, 'z) token_lib_scheme \<Rightarrow> ((u8, 'p list) hmap \<Rightarrow> 't \<Rightarrow> bool) \<Rightarrow> bool" where
  "origin_server_ok L valid \<longleftrightarrow> (\<forall>keys clock ns token r ns'. redeem_token L keys clock ns token = (r, ns') \<longrightarrow>
     (case nonce_reserve clock (token_nonce L token) ns of (fresh, ns1) \<Rightarrow>
        if r = Inr () then fresh \<and> valid keys token \<and> ns' = nonce_commit (token_nonce L token) ns1
        else \<not> (fresh \<and> valid keys token)
          \<and> (ns' = ns \<or> ns' = (if fresh then nonce_release (token_nonce L token) ns1 else ns1))))"

lemma nonce_reserve_True:
  assumes "nonce_reserve now n ns = (True, ns1)"
  shows "ns_values ns1 = AList.update n (Reserved, saturating_add now (ns_retention_seconds ns))
           (hm_retain (\<lambda>_ (_, expiry). expiry > now) (ns_values ns))"
    "map_of (hm_retain (\<lambda>_ (_, expiry). expiry > now) (ns_values ns)) n = None"
    "ns_retention_seconds ns1 = ns_retention_seconds ns"
  using assms by (auto simp del: not_None_eq simp: nonce_reserve_def hm_contains_def Let_def split: if_splits)

lemma nonce_reserve_False:
  assumes "nonce_reserve now n ns = (False, ns1)"
  shows "ns_values ns1 = hm_retain (\<lambda>_ (_, expiry). expiry > now) (ns_values ns)"
    "ns_retention_seconds ns1 = ns_retention_seconds ns"
  using assms by (auto simp: nonce_reserve_def Let_def split: if_splits)

lemma origin_server_cases:
  assumes "origin_server_ok L valid" "redeem_token L keys now ns token = (r, ns')"
    and "nonce_reserve now (token_nonce L token) ns = (fresh, ns1)"
  shows "if r = Inr () then fresh \<and> valid keys token \<and> ns' = nonce_commit (token_nonce L token) ns1
    else \<not> (fresh \<and> valid keys token)
      \<and> (ns' = ns \<or> ns' = (if fresh then nonce_release (token_nonce L token) ns1 else ns1))"
  using assms(1) [unfolded origin_server_ok_def, rule_format, OF assms(2)] assms(3) by simp

lemma redeem_token_wf:
  assumes "origin_server_ok L valid" "redeem_token L keys now ns token = (r, ns')" "hm_wf (ns_values ns)"
  shows "hm_wf (ns_values ns') \<and> ns_retention_seconds ns' = ns_retention_seconds ns"
proof -
  obtain fresh ns1 where res: "nonce_reserve now (token_nonce L token) ns = (fresh, ns1)"
    by (cases "nonce_reserve now (token_nonce L token) ns")
  have ns1: "hm_wf (ns_values ns1)" "ns_retention_seconds ns1 = ns_retention_seconds ns"
    using res assms(3) by (auto simp: nonce_reserve_def Let_def split: if_splits)
  have "ns' \<in> {ns, ns1, nonce_commit (token_nonce L token) ns1, nonce_release (token_nonce L token) ns1}"
    using origin_server_cases [OF assms(1,2) res] by (auto split: if_splits)
  then show ?thesis using ns1 assms(3)
    by (auto simp: nonce_commit_def nonce_release_def split: option.splits nonce_state.splits)
qed

text \<open>A committed, unexpired nonce stays committed whatever token is redeemed, and blocks its own.\<close>

lemma redeem_token_keeps:
  assumes "origin_server_ok L valid" "redeem_token L keys now ns token = (r, ns')" "hm_wf (ns_values ns)"
    and "map_of (ns_values ns) n = Some (Committed, e)" "now < e"
  shows "map_of (ns_values ns') n = Some (Committed, e) \<and> (token_nonce L token = n \<longrightarrow> r \<noteq> Inr ())"
proof -
  let ?m = "token_nonce L token"
  obtain fresh ns1 where res: "nonce_reserve now ?m ns = (fresh, ns1)" by (cases "nonce_reserve now ?m ns")
  have kept: "map_of (hm_retain (\<lambda>_ (_, expiry). expiry > now) (ns_values ns)) n = Some (Committed, e)"
    using assms(3-5) by (simp add: map_of_retain)
  have fresh: "?m \<noteq> n" if fresh using res nonce_reserve_True(2) [of now ?m ns ns1] that kept by auto
  have n1: "map_of (ns_values ns1) n = Some (Committed, e)"
    using res kept fresh nonce_reserve_True(1) [of now ?m ns ns1] nonce_reserve_False(1) [of now ?m ns ns1]
    by (cases fresh) auto
  have cases: "r = Inr () \<and> fresh \<and> ns' = nonce_commit ?m ns1 \<or> r \<noteq> Inr () \<and> ns' \<in> {ns, ns1}
      \<or> r \<noteq> Inr () \<and> fresh \<and> ns' = nonce_release ?m ns1"
    using origin_server_cases [OF assms(1,2) res] by (auto split: if_splits)
  have other: "map_of (ns_values (nonce_commit ?m ns1)) n = Some (Committed, e)"
    "map_of (ns_values (nonce_release ?m ns1)) n = Some (Committed, e)" if "?m \<noteq> n"
    using n1 that by (auto simp: nonce_commit_def nonce_release_def split: option.splits nonce_state.splits)
  show ?thesis using cases assms(4) n1 fresh other by auto
qed

lemma redeem_token_commits:
  assumes "origin_server_ok L valid" "redeem_token L keys now ns token = (Inr (), ns')"
  shows "map_of (ns_values ns') (token_nonce L token) = Some (Committed, saturating_add now (ns_retention_seconds ns))"
proof -
  obtain fresh ns1 where res: "nonce_reserve now (token_nonce L token) ns = (fresh, ns1)"
    by (cases "nonce_reserve now (token_nonce L token) ns")
  have "fresh" "ns' = nonce_commit (token_nonce L token) ns1"
    using origin_server_cases [OF assms res] by simp_all
  then show ?thesis using nonce_reserve_True(1) [of now "token_nonce L token" ns ns1] res
    by (auto simp: nonce_commit_def)
qed

section \<open>Runs of a verifier\<close>

datatype verifier_op =
    VAdd scope_key_descriptor "node_id set"
  | VPrune
  | VRedeem anonymous_presentation string string

text \<open>
  One operation with the reading of the system clock, which the nonce store uses
  (\<open>unix_seconds\<close>), and the time the caller passes in. \<open>in_step\<close> relates two such pairs: between
  them the system clock has not advanced further than the callers' time, as is the case
  when the callers pass the system time or a time at a fixed distance from it.
\<close>

fun verifier_step ::
  "('k, 'p, 'c, 'r, 't, 'z) token_lib_scheme \<Rightarrow> (u64 \<times> u64) \<times> verifier_op \<Rightarrow> 'p verifier \<Rightarrow> 'p verifier" where
  "verifier_step L ((clock, now), VAdd d trusted) V = snd (add_descriptor L d trusted now V)"
| "verifier_step L ((clock, now), VPrune) V = verifier_prune L now V"
| "verifier_step L ((clock, now), VRedeem p net perm) V = snd (redeem L clock p net perm now V)"

fun in_step :: "u64 \<times> u64 \<Rightarrow> u64 \<times> u64 \<Rightarrow> bool" where
  "in_step (clock, now) (clock', now') \<longleftrightarrow>
     unat clock' + unat now \<le> unat now' + unat clock \<and> (clock' = - 1 \<longrightarrow> now' = - 1)"

lemma still_kept:
  assumes "unat x \<le> unat t + unat seconds" "in_step (c, t) (c', t')" "t' < x"
  shows "c' < saturating_add c seconds"
proof (cases "unat c + unat seconds < 2 ^ 64")
  case True
  then have "unat (c + seconds) = unat c + unat seconds" by (simp add: unat_word_ariths)
  then show ?thesis using True assms by (simp add: saturating_add_def word_less_nat_alt)
next
  case False
  have "c' \<noteq> - 1" using assms(2,3) word_order.extremum [of x] by auto
  then have "c' < - 1" using word_order.not_eq_extremum by blast
  then show ?thesis using False by (simp add: saturating_add_def)
qed

definition presentation_nonce ::
  "('k, 'p, 'c, 'r, 't, 'z) token_lib_scheme \<Rightarrow> anonymous_presentation \<Rightarrow> bytes option" where
  "presentation_nonce L p =
     (case decode_exact (tls_token L) (ap_token p) PUBLIC_TOKEN_BYTES of Inl _ \<Rightarrow> None | Inr token \<Rightarrow> Some (token_nonce L token))"

lemma verifier_prune_fields [simp]:
  "vf_nonces (verifier_prune L now V) = vf_nonces V" "vf_policy (verifier_prune L now V) = vf_policy V"
proof -
  have one: "vf_nonces (verifier_prune_one L x V) = vf_nonces V \<and> vf_policy (verifier_prune_one L x V) = vf_policy V" for x V
    by (cases x) (simp add: verifier_prune_one_def Let_def split: option.splits)
  have "vf_nonces (fold (verifier_prune_one L) xs V) = vf_nonces V
      \<and> vf_policy (fold (verifier_prune_one L) xs V) = vf_policy V" for xs
    by (induction xs arbitrary: V) (simp_all add: one)
  then show "vf_nonces (verifier_prune L now V) = vf_nonces V" "vf_policy (verifier_prune L now V) = vf_policy V"
    by (simp_all add: verifier_prune_def)
qed

lemma add_descriptor_fields:
  "vf_nonces (snd (add_descriptor L d trusted now V)) = vf_nonces V"
  "vf_policy (snd (add_descriptor L d trusted now V)) = vf_policy V"
  by (simp_all add: add_descriptor_def Let_def split: sum.splits option.splits)

text \<open>What a call of \<open>redeem\<close> does: nothing but pruning, or a call of the token library.\<close>

lemma redeem_cases:
  assumes "redeem L clock p net perm now V = (r, V')"
  obtains (refused) e where "r = Inl e" "vf_nonces V' = vf_nonces V" "vf_policy V' = vf_policy V"
  | (called) token r' ns' keys where "policy_epoch (vf_policy V) now = Inr (sc_epoch (ap_scope p), sc_expires_at (ap_scope p))"
      "presentation_nonce L p = Some (token_nonce L token)" "redeem_token L keys clock (vf_nonces V) token = (r', ns')"
      "r = Inr () \<longleftrightarrow> r' = Inr ()" "vf_nonces V' = ns'" "vf_policy V' = vf_policy V"
proof (cases "redeem_precheck (vf_policy V) (ap_scope p) net perm now")
  case (Inl e)
  then have "r = Inl e" "V' = V" using assms by (simp_all add: redeem_def)
  then show ?thesis by (intro refused [of e]) simp_all
next
  case (Inr u)
  let ?V = "verifier_prune L now V"
  have ep: "policy_epoch (vf_policy V) now = Inr (sc_epoch (ap_scope p), sc_expires_at (ap_scope p))"
    using Inr by (auto simp: redeem_precheck_def bind_r_Inr_iff split: if_splits prod.splits)
  show ?thesis
  proof (cases "redeem_check L ?V p")
    case (Inl e)
    then have "r = Inl e" "V' = ?V" using assms Inr by (simp_all add: redeem_def Let_def)
    then show ?thesis by (intro refused [of e]) simp_all
  next
    case chk: (Inr token)
    obtain r' ns' where rt: "redeem_token L (vf_keys ?V) clock (vf_nonces V) token = (r', ns')"
      by (cases "redeem_token L (vf_keys ?V) clock (vf_nonces V) token")
    have "presentation_nonce L p = Some (token_nonce L token)"
      using chk by (auto simp: redeem_check_def presentation_nonce_def Let_def bind_r_Inr_iff split: if_splits)
    moreover have "r = map_err (\<lambda>e. if e = DoubleSpending then AaReplayOrCapacity else AaVerificationFailed) r'"
      "V' = ?V\<lparr>vf_nonces := ns'\<rparr>" using assms Inr chk rt by (simp_all add: redeem_def Let_def)
    ultimately show ?thesis using called [OF ep _ rt] by (simp add: map_err_Inr_iff)
  qed
qed

lemma verifier_step_wf:
  assumes "origin_server_ok L valid" "nonces_wf V"
  shows "nonces_wf (verifier_step L x V) \<and> vf_policy (verifier_step L x V) = vf_policy V"
proof -
  obtain c t oper where x: "x = ((c, t), oper)" by (metis surj_pair)
  show ?thesis
  proof (cases oper)
    case (VRedeem p net perm)
    obtain r V' where rd: "redeem L c p net perm t V = (r, V')" by (rule prod.exhaust)
    then show ?thesis
    proof (cases rule: redeem_cases)
      case (called token r' ns' keys)
      then show ?thesis using redeem_token_wf [OF assms(1) called(3)] assms(2) rd x VRedeem by (simp add: nonces_wf_def)
    qed (use assms(2) rd x VRedeem in \<open>simp add: nonces_wf_def\<close>)
  qed (use assms(2) x in \<open>simp_all add: nonces_wf_def add_descriptor_fields\<close>)
qed

lemma verifier_step_spent:
  assumes "origin_server_ok L valid" "nonces_wf V" "spent n e V" "c < e"
  shows "spent n e (verifier_step L ((c, t), oper) V)"
proof (cases oper)
  case (VRedeem p net perm)
  obtain r V' where rd: "redeem L c p net perm t V = (r, V')" by (rule prod.exhaust)
  from rd show ?thesis
  proof (cases rule: redeem_cases)
    case (called token r' ns' keys)
    have "map_of (ns_values ns') n = Some (Committed, e)"
      using redeem_token_keeps [OF assms(1) called(3)] assms(2-4) by (auto simp: nonces_wf_def spent_def)
    then show ?thesis using called rd VRedeem by (simp add: spent_def)
  qed (use assms(3) rd VRedeem in \<open>simp add: spent_def\<close>)
qed (use assms(3) in \<open>simp_all add: spent_def add_descriptor_fields\<close>)

lemma redeem_spends:
  assumes "origin_server_ok L valid" "nonces_wf V" "redeem L c p net perm t V = (Inr (), V')"
  obtains n where "presentation_nonce L p = Some n" "spent n (saturating_add c (po_epoch_seconds (vf_policy V))) V'"
    "unat (sc_expires_at (ap_scope p)) \<le> unat t + unat (po_epoch_seconds (vf_policy V))" "t < sc_expires_at (ap_scope p)"
  using assms(3)
proof (cases rule: redeem_cases)
  case (called token r' ns' keys)
  have rt: "redeem_token L keys c (vf_nonces V) token = (Inr (), ns')" using called(3,4) by simp
  let ?es = "po_epoch_seconds (vf_policy V)"
  note ep = policy_epoch_Inr [OF called(1)]
  have "unat (sc_epoch (ap_scope p)) * unat ?es \<le> unat t"
    using ep(2) by (metis u64_div div_times_less_eq_dividend)
  then have "unat (sc_expires_at (ap_scope p)) \<le> unat t + unat ?es" using ep(3) by simp
  then show ?thesis
    using redeem_token_commits [OF assms(1) rt] assms(2) called(2,5) ep(4) that by (auto simp: spent_def nonces_wf_def)
qed simp

text \<open>A later attempt fails: the nonce is still there, or the scope has ended.\<close>

lemma redeem_refused_again:
  assumes "origin_server_ok L valid" "nonces_wf V" "presentation_nonce L p = Some n"
    and "t < sc_expires_at (ap_scope p) \<Longrightarrow> spent n e V \<and> c < e"
  shows "fst (redeem L c p net perm t V) \<noteq> Inr ()"
proof
  assume ok: "fst (redeem L c p net perm t V) = Inr ()"
  obtain r V' where rd: "redeem L c p net perm t V = (r, V')" by (rule prod.exhaust)
  then have "redeem L c p net perm t V = (Inr (), V')" using ok by simp
  then have "t < sc_expires_at (ap_scope p)" using redeem_spends [OF assms(1,2)] by metis
  then have e: "map_of (ns_values (vf_nonces V)) n = Some (Committed, e)" "c < e"
    using assms(4) by (auto simp: spent_def)
  from rd show False
  proof (cases rule: redeem_cases)
    case (called token r' ns' keys)
    then show False using redeem_token_keeps [OF assms(1) called(3) _ e] assms(2,3) ok rd
      by (auto simp: nonces_wf_def)
  qed (use ok rd in simp)
qed

section \<open>Runs of an issuer\<close>

datatype 'k issuer_op =
    IChallenge "nat \<Rightarrow> 'k option" node_identity string string
  | IPrune
  | IIssue membership "node_id set" "node_id set" blind_request

fun issuer_step ::
  "('k, 'p, 'c, 'r, 't, 'z) token_lib_scheme \<Rightarrow> u64 \<times> 'k issuer_op \<Rightarrow> 'k issuer \<Rightarrow> node_id option \<times> 'k issuer" where
  "issuer_step L (t, IChallenge generate gov net perm) I = (None, snd (issuer_challenge L generate gov net perm t I))"
| "issuer_step L (t, IPrune) I = (None, issuer_prune L t I)"
| "issuer_step L (t, IIssue m trusted revoked request) I =
     (case issuer_issue L m trusted revoked request t I of
        (Inr _, I) \<Rightarrow> (Some (mb_member m), I)
      | (Inl _, I) \<Rightarrow> (None, I))"

text \<open>How many credentials a run signs for a member within an epoch.\<close>

fun issued ::
  "('k, 'p, 'c, 'r, 't, 'z) token_lib_scheme \<Rightarrow> node_id \<Rightarrow> u64 \<Rightarrow> 'k issuer \<Rightarrow> (u64 \<times> 'k issuer_op) list \<Rightarrow> nat" where
  "issued L member epoch I [] = 0"
| "issued L member epoch I (x # xs) =
     (case issuer_step L x I of (who, I') \<Rightarrow>
        (if who = Some member \<and> fst x div po_epoch_seconds (is_policy I) = epoch then 1 else 0)
        + issued L member epoch I' xs)"

definition issue_count :: "'k issuer \<Rightarrow> node_id \<Rightarrow> u64 \<Rightarrow> nat" where
  "issue_count I member epoch = (case map_of (is_issuance I) (member, epoch) of None \<Rightarrow> 0 | Some c \<Rightarrow> unat c)"

definition issuer_wf :: "'k issuer \<Rightarrow> bool" where
  "issuer_wf I \<longleftrightarrow> hm_wf (is_issuance I)
     \<and> (\<forall>k c. map_of (is_issuance I) k = Some c \<longrightarrow> c \<le> po_max_issues_per_member_epoch (is_policy I))"

lemma issue_count_le: "issuer_wf I \<Longrightarrow> issue_count I m e \<le> unat (po_max_issues_per_member_epoch (is_policy I))"
  by (auto simp: issuer_wf_def issue_count_def word_le_nat_alt split: option.splits)

text \<open>Dropping the counters of past epochs keeps the well-formedness and the counters from then on.\<close>

lemma retain_issuance:
  assumes "issuer_wf I" "is_policy I' = is_policy I"
    and "is_issuance I' = hm_retain (\<lambda>(_, epoch) _. now_epoch \<le> epoch) (is_issuance I)"
  shows "issuer_wf I' \<and> (now_epoch \<le> e \<longrightarrow> issue_count I' m e = issue_count I m e)"
proof -
  have wf: "hm_wf (is_issuance I)" using assms(1) by (simp add: issuer_wf_def)
  note lookup = map_of_retain [OF wf, of "\<lambda>(_, epoch) _. now_epoch \<le> epoch"]
  show ?thesis using assms wf
    by (auto simp: issuer_wf_def issue_count_def lookup split: option.splits if_splits)
qed

lemma issuer_prune_fields:
  "is_policy (issuer_prune L now I) = is_policy I"
  "is_issuance (issuer_prune L now I) = (case policy_epoch (is_policy I) now of
     Inl _ \<Rightarrow> is_issuance I | Inr (epoch, _) \<Rightarrow> hm_retain (\<lambda>(_, e) _. epoch \<le> e) (is_issuance I))"
proof -
  have one: "is_policy (issuer_prune_one L x I) = is_policy I \<and> is_issuance (issuer_prune_one L x I) = is_issuance I" for x I
    by (cases x) (simp add: issuer_prune_one_def Let_def split: option.splits)
  have "is_policy (fold (issuer_prune_one L) xs I) = is_policy I
      \<and> is_issuance (fold (issuer_prune_one L) xs I) = is_issuance I" for xs
    by (induction xs arbitrary: I) (simp_all add: one)
  then show "is_policy (issuer_prune L now I) = is_policy I"
    "is_issuance (issuer_prune L now I) = (case policy_epoch (is_policy I) now of
       Inl _ \<Rightarrow> is_issuance I | Inr (epoch, _) \<Rightarrow> hm_retain (\<lambda>(_, e) _. epoch \<le> e) (is_issuance I))"
    by (simp_all add: issuer_prune_def Let_def split: sum.splits prod.splits)
qed

lemma issuer_prune_count:
  assumes "issuer_wf I"
  shows "issuer_wf (issuer_prune L t I)
    \<and> (t div po_epoch_seconds (is_policy I) \<le> e \<longrightarrow> issue_count (issuer_prune L t I) m e = issue_count I m e)"
proof (cases "policy_epoch (is_policy I) t")
  case (Inl x)
  then show ?thesis using assms by (simp add: issuer_wf_def issue_count_def issuer_prune_fields)
next
  case (Inr ex)
  obtain epoch x where ex: "ex = (epoch, x)" by (cases ex)
  note ep = policy_epoch_Inr(2) [OF Inr [unfolded ex]]
  have "issuer_wf (issuer_prune L t I) \<and> (epoch \<le> e \<longrightarrow> issue_count (issuer_prune L t I) m e = issue_count I m e)"
    by (rule retain_issuance [OF assms issuer_prune_fields(1)]) (simp add: issuer_prune_fields(2) Inr ex)
  then show ?thesis using ep by simp
qed

lemma issuer_challenge_fields:
  "is_policy (snd (issuer_challenge L generate gov net perm t I)) = is_policy I"
  "is_issuance (snd (issuer_challenge L generate gov net perm t I)) \<in> {is_issuance I, is_issuance (issuer_prune L t I)}"
  by (simp_all add: issuer_challenge_def Let_def issuer_prune_fields(1)
      split: sum.splits prod.splits option.splits)

lemma count_issue_count:
  assumes "issuer_wf I" "count_issue I member epoch = (r, I')"
  shows "issuer_wf I' \<and> is_policy I' = is_policy I
    \<and> (epoch \<le> e \<longrightarrow> issue_count I' m e = issue_count I m e + (if r = Inr () \<and> m = member \<and> e = epoch then 1 else 0))"
proof -
  let ?max = "po_max_issues_per_member_epoch (is_policy I)"
  let ?J = "I\<lparr>is_issuance := hm_retain (\<lambda>(_, e) _. epoch \<le> e) (is_issuance I)\<rparr>"
  have J: "issuer_wf ?J" "\<And>e m. epoch \<le> e \<Longrightarrow> issue_count ?J m e = issue_count I m e"
    using retain_issuance [OF assms(1), of ?J epoch] by simp_all
  define count where "count = (case map_of (is_issuance ?J) (member, epoch) of None \<Rightarrow> 0 | Some c \<Rightarrow> c)"
  have c: "issue_count ?J member epoch = unat count" by (simp add: count_def issue_count_def split: option.splits)
  show ?thesis
  proof (cases "?max \<le> count")
    case True
    then have I': "r = Inl AaIssuanceLimit" "I' = ?J\<lparr>is_issuance := AList.update (member, epoch) count (is_issuance ?J)\<rparr>"
      using assms(2) by (simp_all add: count_issue_def Let_def count_def)
    have "count \<le> ?max" using J(1) by (auto simp: issuer_wf_def count_def split: option.splits)
    then show ?thesis using I' J c by (auto simp: issuer_wf_def issue_count_def)
  next
    case False
    then have I': "r = Inr ()" "I' = ?J\<lparr>is_issuance := AList.update (member, epoch) (count + 1) (is_issuance ?J)\<rparr>"
      using assms(2) by (simp_all add: count_issue_def Let_def count_def)
    have lt: "unat count < unat ?max" using False by (simp add: word_le_nat_alt)
    then have "unat count + 1 < 2 ^ 16" using unat_bound [of ?max] by simp
    then have u: "unat (count + 1) = unat count + 1" by (simp add: unat_word_ariths)
    then have "count + 1 \<le> ?max" using lt by (simp add: word_le_nat_alt)
    then show ?thesis using I' J c u by (auto simp: issuer_wf_def issue_count_def)
  qed
qed

lemma issue_check_epoch:
  assumes "issue_check L I m trusted revoked request t = Inr (epoch, i)"
  shows "epoch = t div po_epoch_seconds (is_policy I)"
proof -
  obtain x where "policy_epoch (is_policy I) t = Inr (epoch, x)"
    using assms by (auto simp: issue_check_def Let_def bind_r_Inr_iff split: if_splits)
  then show ?thesis by (rule policy_epoch_Inr(2))
qed

lemma issuer_step_count:
  assumes "issuer_wf I" "issuer_step L (t, oper) I = (who, I')"
  shows "issuer_wf I' \<and> is_policy I' = is_policy I
    \<and> (t div po_epoch_seconds (is_policy I) \<le> e \<longrightarrow>
         issue_count I m e + (if who = Some m \<and> t div po_epoch_seconds (is_policy I) = e then 1 else 0) \<le> issue_count I' m e)"
proof (cases oper)
  case (IChallenge generate gov net perm)
  have I': "who = None" "I' = snd (issuer_challenge L generate gov net perm t I)" using assms(2) IChallenge by simp_all
  note f = issuer_challenge_fields [of L generate gov net perm t I] and pr = issuer_prune_count [OF assms(1), of L t e m]
  have "is_issuance I' = is_issuance I \<or> is_issuance I' = is_issuance (issuer_prune L t I)" using f(2) I' by simp
  then show ?thesis using pr f(1) I' assms(1) by (auto simp: issuer_wf_def issue_count_def issuer_prune_fields(1))
next
  case IPrune
  then show ?thesis using assms(2) issuer_prune_count [OF assms(1), of L t e m] by (auto simp: issuer_prune_fields(1))
next
  case (IIssue ms trusted revoked request)
  show ?thesis
  proof (cases "issue_check L I ms trusted revoked request t")
    case (Inl x)
    then show ?thesis using assms IIssue by (auto simp: issuer_issue_def)
  next
    case (Inr er)
    obtain epoch i where ei: "er = (epoch, i)" by (cases er)
    obtain r J where cnt: "count_issue I (mb_member ms) epoch = (r, J)" by (cases "count_issue I (mb_member ms) epoch")
    have I': "I' = J" "who \<noteq> None \<Longrightarrow> r = Inr () \<and> who = Some (mb_member ms)"
      using assms(2) IIssue Inr ei cnt by (auto simp: issuer_issue_def split: sum.splits)
    note c = count_issue_count [OF assms(1) cnt, of e m] and ep = issue_check_epoch [OF Inr [unfolded ei]]
    show ?thesis
    proof (cases "who = None")
      case True
      then show ?thesis using c I'(1) ep by simp
    next
      case False
      then show ?thesis using c I'(1) I'(2) [OF False] ep by simp
    qed
  qed
qed

lemma issued_bound:
  assumes "issuer_wf I" "sorted (map fst xs)"
  shows "issued L m e I xs + issue_count I m e \<le> unat (po_max_issues_per_member_epoch (is_policy I))"
  using assms
proof (induction xs arbitrary: I)
  case Nil
  then show ?case using issue_count_le by simp
next
  case (Cons x xs)
  obtain t oper where x: "x = (t, oper)" by (cases x)
  obtain who I' where st: "issuer_step L (t, oper) I = (who, I')" by (cases "issuer_step L (t, oper) I")
  note step = issuer_step_count [OF Cons.prems(1) st, of e m]
  show ?case
  proof (cases "t div po_epoch_seconds (is_policy I) \<le> e")
    case True
    have "issued L m e I' xs + issue_count I' m e \<le> unat (po_max_issues_per_member_epoch (is_policy I'))"
      using step Cons.prems(2) by (intro Cons.IH) simp_all
    then show ?thesis using step True x st by simp
  next
    case False
    have zero: "issued L m e J ys = 0"
      if "\<forall>y \<in> set ys. t \<le> fst y" "is_policy J = is_policy I" "issuer_wf J" for ys J
      using that
    proof (induction ys arbitrary: J)
      case (Cons y ys)
      obtain u oper' where y: "y = (u, oper')" by (cases y)
      obtain who' J' where sj: "issuer_step L (u, oper') J = (who', J')" by (cases "issuer_step L (u, oper') J")
      have "t div po_epoch_seconds (is_policy I) \<le> u div po_epoch_seconds (is_policy I)"
        using Cons.prems(1) y by (intro epoch_mono) simp
      then have "u div po_epoch_seconds (is_policy J) \<noteq> e" using False Cons.prems(2) by auto
      moreover have "issued L m e J' ys = 0"
        using Cons issuer_step_count [OF Cons.prems(3) sj] by (intro Cons.IH) simp_all
      ultimately show ?case using y sj by simp
    qed simp
    have "issued L m e I (x # xs) = 0" by (rule zero) (use Cons.prems x in auto)
    then show ?thesis using issue_count_le [OF Cons.prems(1)] by simp
  qed
qed

section \<open>Properties\<close>

text \<open>
  What an epoch is: a valid policy assigns to a time the number \<open>now / epoch_seconds\<close> and
  the end of that interval, which lies strictly after the time by at most the epoch's length;
  it fails exactly for an invalid policy and for times so late that the end does not fit 64
  bits.
\<close>

theorem policy_epoch_bounds:
  "case policy_epoch p now of
     Inr (e, x) \<Rightarrow> unat e * unat (po_epoch_seconds p) \<le> unat now \<and> unat now < unat x
       \<and> unat x = unat e * unat (po_epoch_seconds p) + unat (po_epoch_seconds p)
   | Inl err \<Rightarrow> (if policy_validate p = Inr p then err = AaInvalidScope
       \<and> 2 ^ 64 \<le> (unat now div unat (po_epoch_seconds p) + 1) * unat (po_epoch_seconds p)
       else err = AaInvalidPolicy)"
proof (cases "policy_epoch p now")
  case (Inr ex)
  obtain e x where ex: "ex = (e, x)" by (cases ex)
  note ep = policy_epoch_Inr [OF Inr [unfolded ex]]
  have "unat e * unat (po_epoch_seconds p) \<le> unat now" using ep(2) by (simp add: u64_div div_times_less_eq_dividend)
  then show ?thesis using Inr ex ep(3,4) by (simp add: word_less_nat_alt)
next
  case (Inl err)
  show ?thesis
  proof (cases "policy_validate p = Inr p")
    case True
    let ?e = "now div po_epoch_seconds p" and ?es = "unat (po_epoch_seconds p)"
    have none: "epoch_end p ?e = None" "err = AaInvalidScope"
      using Inl True by (auto simp: policy_epoch_def Let_def result_simps)
    have es: "0 < ?es" using True by (auto simp: policy_validate_def word_neq_0_conv word_less_nat_alt split: if_splits)
    have "\<not> (unat ?e + 1) * ?es < 2 ^ 64"
    proof
      assume fits: "(unat ?e + 1) * ?es < 2 ^ 64"
      have "(unat ?e + 1) * 1 \<le> (unat ?e + 1) * ?es" using es by (intro mult_le_mono2) simp
      then have "unat ?e + 1 < 2 ^ 64" using fits unfolding mult_1_right by (rule order_le_less_trans)
      moreover have "unat (of_nat ((unat ?e + 1) * ?es) :: u64) = (unat ?e + 1) * ?es"
        unfolding unat_of_nat using fits by (intro mod_less) simp
      ultimately have "epoch_end p ?e = Some (of_nat ((unat ?e + 1) * ?es))"
        unfolding epoch_end_Some using fits by blast
      with none show False by simp
    qed
    then show ?thesis using Inl True none by (simp add: u64_div)
  next
    case False
    then show ?thesis using Inl by (auto simp: policy_epoch_def policy_validate_def split: if_splits)
  qed
qed

text \<open>
  C19: An anonymous credential is redeemed at most once: after a successful redemption, and any
  operations of the verifier in the order of the callers' time, no presentation of the same
  scope and nonce is accepted, whoever asks for which network and permission. The nonce store
  reads the system clock itself; it may differ from the callers' time, as long as it has not
  advanced further since the redemption.
\<close>

theorem credential_redeemed_once:
  assumes "origin_server_ok L valid" "nonces_wf V" "redeem L c p net perm t V = (Inr (), V1)"
    and "sorted (t # map (snd \<circ> fst) ops @ [t'])" "list_all (in_step (c, t)) (map fst ops @ [(c', t')])"
    and "ap_scope p' = ap_scope p" "presentation_nonce L p' = presentation_nonce L p"
  shows "fst (redeem L c' p' net' perm' t' (fold (verifier_step L) ops V1)) \<noteq> Inr ()"
proof -
  obtain n where n: "presentation_nonce L p = Some n" "spent n (saturating_add c (po_epoch_seconds (vf_policy V))) V1"
    "unat (sc_expires_at (ap_scope p)) \<le> unat t + unat (po_epoch_seconds (vf_policy V))"
    using redeem_spends [OF assms(1-3)] by metis
  let ?e = "saturating_add c (po_epoch_seconds (vf_policy V))"
  have wf1: "nonces_wf V1" using verifier_step_wf [OF assms(1,2), of "((c, t), VRedeem p net perm)"] assms(3) by simp
  have "nonces_wf (fold (verifier_step L) ops V1)
      \<and> (t' < sc_expires_at (ap_scope p) \<longrightarrow> spent n ?e (fold (verifier_step L) ops V1))"
    using assms(4,5) wf1 n(2)
  proof (induction ops arbitrary: V1)
    case (Cons x ops)
    obtain d u oper where x: "x = ((d, u), oper)" by (metis surj_pair)
    have wf: "nonces_wf (verifier_step L x V1)" using verifier_step_wf [OF assms(1)] Cons.prems(3) by blast
    show ?case
    proof (cases "u < sc_expires_at (ap_scope p)")
      case True
      then have "d < ?e" using still_kept [OF n(3), of c d u] Cons.prems(2) x by simp
      then have "spent n ?e (verifier_step L x V1)"
        using verifier_step_spent [OF assms(1) Cons.prems(3,4)] x by simp
      then show ?thesis using Cons.IH [OF _ _ wf] Cons.prems(1,2) by simp
    next
      case False
      have "nonces_wf (fold (verifier_step L) ys W)" if "nonces_wf W" for ys W
        using that by (induction ys arbitrary: W) (simp_all add: verifier_step_wf [OF assms(1)])
      moreover have "u \<le> t'" using Cons.prems(1) x by simp
      ultimately show ?thesis using False wf by auto
    qed
  qed simp
  moreover have "t' < sc_expires_at (ap_scope p) \<Longrightarrow> c' < ?e" using still_kept [OF n(3), of c c' t'] assms(5) by simp
  ultimately show ?thesis using redeem_refused_again [OF assms(1), of _ p' n t' ?e c'] n(1) assms(6,7) by simp
qed

text \<open>
  C20: No member gets more credentials in an epoch than the policy allows, over any sequence of
  issuer operations in the order of time.
\<close>

theorem issuance_limit_holds:
  assumes "issuer_wf I" "sorted (map fst xs)"
  shows "issued L member epoch I xs \<le> unat (po_max_issues_per_member_epoch (is_policy I))"
  using issued_bound [OF assms, of L member epoch] by simp

section \<open>An honest exchange\<close>

text \<open>
  What is relied on of blind RSA tokens (RFC 9578): a serialised key is read back, a request
  names the type and the short identifier of its key, and the blind signature on it finishes
  to a token of that key and challenge that the key verifies.
\<close>

definition blind_ok ::
  "('k, 'p, 'c, 'r, 't, 'z) token_lib_scheme \<Rightarrow> ((u8, 'p list) hmap \<Rightarrow> 't \<Rightarrow> bool) \<Rightarrow> bool" where
  "blind_ok L valid \<longleftrightarrow> (\<forall>sk der pk spki tid.
     rsa_public_der L sk = Some der \<longrightarrow> pk_from_der L der = Some pk \<longrightarrow> pk_serialize L pk = Some spki \<longrightarrow> pk_truncated_id L pk = Some tid \<longrightarrow>
     length spki \<le> 1024 \<and> pk_from_spki L spki = Some pk
     \<and> (\<forall>random issuer encoded req st. token_request_new L random pk (issuer, encoded) = Some (Some req, st) \<longrightarrow>
          length req = PUBLIC_REQUEST_BYTES \<and> be_u16 (slice 0 2 req) = token_type_public L \<and> req ! 2 = tid
          \<and> (\<exists>resp r tok tb. rsa_private_decrypt L sk (drop 3 req) = Some resp \<and> length resp = PUBLIC_RESPONSE_BYTES
               \<and> tls_token_response L resp = Some (r, []) \<and> issue_token L r st = Some tok \<and> tls_serialize_token L tok = Some tb
               \<and> length tb = PUBLIC_TOKEN_BYTES \<and> tls_token L tb = Some (tok, [])
               \<and> token_key_id L tok = sha256 L spki \<and> challenge_digest_of L issuer encoded = Some (token_challenge_digest L tok)
               \<and> (\<forall>keys. pk \<in> set (origin_get keys tid) \<longrightarrow> valid keys tok))))"

definition descriptor_of :: "anonymous_challenge \<Rightarrow> scope_key_descriptor" where
  "descriptor_of ch = \<lparr>sk_scope = ch_scope ch, sk_public_key = ch_issuer_public_key ch,
     sk_governance_issuer = ch_governance_issuer ch, sk_governance_public_key = ch_governance_public_key ch,
     sk_signature = ch_descriptor_signature ch\<rparr>"

lemma descriptor_of_challenge [simp]: "descriptor_of (challenge_of d) = d"
  by (simp add: descriptor_of_def challenge_of_def)

lemma fresh_challenge:
  assumes "issuer_new policy = Inr I" "issuer_challenge L generate gov net perm now I = (Inr ch, I1)"
  obtains sk der pk spki tid scope d where
    "rsa_public_der L sk = Some der" "pk_from_der L der = Some pk" "pk_serialize L pk = Some spki" "pk_truncated_id L pk = Some tid"
    "policy_epoch policy now = Inr (sc_epoch scope, sc_expires_at scope)" "scope_validate scope = Inr ()"
    "sc_network_id scope = net" "sc_permission scope = perm" "sc_issuer_key_id scope = sha256 L spki"
    "descriptor_issue L scope spki gov = Inr d" "ch = challenge_of d" "sk_scope d = scope"
    "I1 = \<lparr>is_policy = policy, is_keys = [(tid, sk)], is_descriptors = [(scope, d)], is_issuance = []\<rparr>"
proof -
  have I: "I = \<lparr>is_policy = policy, is_keys = [], is_descriptors = [], is_issuance = []\<rparr>" and pol: "policy_validate policy = Inr policy"
    using assms(1) by (auto simp: issuer_new_def policy_validate_def result_simps split: if_splits)
  have pr: "issuer_prune L now I = I"
    unfolding I by (simp add: issuer_prune_def hm_retain_def Let_def split: sum.split prod.split)
  have gen: "map generate [0..<100] = generate 0 # map generate [1..<100]" by (simp add: upt_conv_Cons)
  obtain epoch x where ep: "policy_epoch policy now = Inr (epoch, x)"
    using assms(2) pr I by (auto simp: issuer_challenge_def Let_def split: sum.splits)
  have max: "\<not> po_max_active_scope_keys policy \<le> 0" using pol by (auto simp: policy_validate_def split: if_splits)
  obtain r keys where gk: "generate_key L (generate 0 # map generate [1..<100]) [] = (r, keys)"
    by (cases "generate_key L (generate 0 # map generate [1..<100]) []")
  define scope_for where "scope_for spki = \<lparr>sc_version = AUTH_PROTOCOL_VERSION, sc_network_id = net, sc_permission = perm,
     sc_epoch = epoch, sc_expires_at = x, sc_issuer_key_id = sha256 L spki\<rparr>" for spki
  obtain spki d where d: "r = Inr (Some spki)" "scope_validate (scope_for spki) = Inr ()"
    "descriptor_issue L (scope_for spki) spki gov = Inr d" "ch = challenge_of d"
    "I1 = I\<lparr>is_keys := keys, is_descriptors := [(sk_scope d, d)]\<rparr>"
    using assms(2) pr I ep max gen gk
    by (auto simp: issuer_challenge_def Let_def bind_r_Inr_iff ok_or_Inr_iff scope_for_def [symmetric] split: sum.splits)
  obtain sk der pk tid where k: "rsa_public_der L sk = Some der" "pk_from_der L der = Some pk" "pk_serialize L pk = Some spki"
    "pk_truncated_id L pk = Some tid" "keys = [(tid, sk)]"
    using gk d(1) by (cases "generate 0") (auto simp: issuer_keys_insert_def hm_contains_def bind_eq_Some_conv split: option.splits)
  have "sk_scope d = scope_for spki" using d(3) by (auto simp: descriptor_issue_def Let_def bind_r_Inr_iff)
  then show ?thesis using that [of sk der pk spki tid "scope_for spki" d] k d I ep by (simp add: scope_for_def)
qed

lemma descriptor_issue_verifies:
  assumes "sign_ok L" "identity_wf L gov" "descriptor_issue L scope spki gov = Inr d" "ni_node_id gov \<in> governance"
  shows "descriptor_verify L d governance = Inr True" "sk_public_key d = spki"
proof -
  let ?d = "\<lparr>sk_scope = scope, sk_public_key = spki, sk_governance_issuer = ni_node_id gov,
    sk_governance_public_key = ni_public_key gov, sk_signature = []\<rparr>"
  obtain payload sig where p: "descriptor_payload_of L ?d = Inr payload" "identity_sign L gov payload = Inr sig"
    "d = ?d\<lparr>sk_signature := sig\<rparr>"
    using assms(3) by (auto simp: descriptor_issue_def Let_def bind_r_Inr_iff map_err_Inr_iff)
  obtain s where "identity_sign L gov payload = Inr s" "verify L (ni_public_key gov) payload s = Inr True"
    by (rule sign_verifies [OF assms(1,2)])
  then show "descriptor_verify L d governance = Inr True" "sk_public_key d = spki"
    using p assms(4) identity_wf_fields(2) [OF assms(2)]
    by (simp_all add: descriptor_verify_def descriptor_payload_of_def)
qed

lemma policy_valid: "policy_validate p = Inr q \<Longrightarrow> 0 < po_max_issues_per_member_epoch p \<and> 0 < po_max_active_scope_keys p \<and> 0 < po_max_nullifiers p"
  by (auto simp: policy_validate_def word_neq_0_conv split: if_splits)

lemma honest_issue:
  assumes "membership_verify L m trusted now = Inr True" "mb_network_id m = sc_network_id scope"
    and "sc_permission scope \<in> set (mb_permissions m)" "mb_member m \<notin> revoked"
    and "policy_epoch policy now = Inr (sc_epoch scope, sc_expires_at scope)" "scope_validate scope = Inr ()"
    and "length spki \<le> 1024" "sk_public_key d = spki" "sc_issuer_key_id scope = sha256 L spki"
    and "pk_from_spki L spki = Some pk" "pk_truncated_id L pk = Some tid"
    and "length req = PUBLIC_REQUEST_BYTES" "be_u16 (slice 0 2 req) = token_type_public L" "req ! 2 = tid"
    and "rsa_private_decrypt L sk (drop 3 req) = Some resp" "length resp = PUBLIC_RESPONSE_BYTES"
  shows "\<exists>I2. issuer_issue L m trusted revoked \<lparr>br_scope = scope, br_request = req\<rparr> now
    \<lparr>is_policy = policy, is_keys = [(tid, sk)], is_descriptors = [(scope, d)], is_issuance = []\<rparr> = (Inr \<lparr>bs_response = resp\<rparr>, I2)"
proof -
  let ?I = "\<lparr>is_policy = policy, is_keys = [(tid, sk)], is_descriptors = [(scope, d)], is_issuance = []\<rparr>"
  have "length req \<le> MAX_REQUEST_BYTES" using assms(12) by (simp add: PUBLIC_REQUEST_BYTES_def MAX_REQUEST_BYTES_def)
  then have chk: "issue_check L ?I m trusted revoked \<lparr>br_scope = scope, br_request = req\<rparr> now = Inr (sc_epoch scope, tid)"
    using assms by (simp add: issue_check_def Let_def key_id_def)
  have "0 < po_max_issues_per_member_epoch policy" using policy_valid [OF policy_epoch_Inr(5) [OF assms(5)]] by blast
  then have "count_issue ?I (mb_member m) (sc_epoch scope) = (Inr (), ?I\<lparr>is_issuance := [((mb_member m, sc_epoch scope), 1)]\<rparr>)"
    by (simp add: count_issue_def hm_retain_def Let_def)
  then show ?thesis using chk assms(15,16) by (simp add: issuer_issue_def)
qed

lemma honest_add:
  assumes "verifier_new policy = Inr V" "descriptor_verify L d governance = Inr True" "sk_scope d = scope" "sk_public_key d = spki"
    and "policy_epoch policy now = Inr (sc_epoch scope, sc_expires_at scope)" "scope_validate scope = Inr ()"
    and "length spki \<le> 1024" "sc_issuer_key_id scope = sha256 L spki" "pk_from_spki L spki = Some pk" "pk_truncated_id L pk = Some tid"
  shows "add_descriptor L d governance now V = (Inr (), V\<lparr>vf_descriptors := [(scope, d)], vf_keys := [(tid, [pk])]\<rparr>)"
proof -
  have pol: "policy_validate policy = Inr policy" using policy_epoch_Inr(5) [OF assms(5)] .
  have V: "V = \<lparr>vf_policy = policy, vf_keys = [], vf_descriptors = [], vf_nonces = \<lparr>ns_values = [],
     ns_max_entries = po_max_nullifiers policy, ns_retention_seconds = po_epoch_seconds policy\<rparr>\<rparr>"
    using assms(1) pol by (simp add: verifier_new_def)
  have "epoch_end policy (sc_epoch scope) = Some (sc_expires_at scope)"
    using assms(5) by (auto simp: policy_epoch_def Let_def result_simps)
  then have "descriptor_check L policy d governance now = Inr (pk, tid)"
    using assms policy_epoch_Inr(4) [OF assms(5)] by (simp add: descriptor_check_def key_id_def not_le)
  then show ?thesis using policy_valid [OF pol] assms(3)
    by (simp add: add_descriptor_def V Let_def verifier_prune_def origin_insert_def)
qed

lemma honest_redeem:
  assumes "origin_server_ok L valid" "verifier_new policy = Inr V" "sk_public_key d = spki"
    and "policy_epoch policy now = Inr (sc_epoch scope, sc_expires_at scope)" "scope_validate scope = Inr ()"
    and "length spki \<le> 1024" "sc_issuer_key_id scope = sha256 L spki" "scope_challenge L scope = Inr (issuer, encoded)"
    and "length tb = PUBLIC_TOKEN_BYTES" "tls_token L tb = Some (tok, [])" "token_key_id L tok = sha256 L spki"
    and "challenge_digest_of L issuer encoded = Some (token_challenge_digest L tok)" "valid [(tid, [pk])] tok"
  shows "\<exists>V2. redeem L now \<lparr>ap_scope = scope, ap_token = tb\<rparr> (sc_network_id scope) (sc_permission scope) now
    (V\<lparr>vf_descriptors := [(scope, d)], vf_keys := [(tid, [pk])]\<rparr>) = (Inr (), V2)"
proof -
  have pol: "policy_validate policy = Inr policy" using policy_epoch_Inr(5) [OF assms(4)] .
  have V: "V = \<lparr>vf_policy = policy, vf_keys = [], vf_descriptors = [], vf_nonces = \<lparr>ns_values = [],
     ns_max_entries = po_max_nullifiers policy, ns_retention_seconds = po_epoch_seconds policy\<rparr>\<rparr>"
    using assms(2) pol by (simp add: verifier_new_def)
  let ?V = "V\<lparr>vf_descriptors := [(scope, d)], vf_keys := [(tid, [pk])]\<rparr>"
  have pre: "redeem_precheck policy scope (sc_network_id scope) (sc_permission scope) now = Inr ()"
    using assms(4,5) by (simp add: redeem_precheck_def)
  have pr: "verifier_prune L now ?V = ?V" using policy_epoch_Inr(4) [OF assms(4)] by (simp add: verifier_prune_def not_le)
  have "tb \<noteq> []" using assms(9) by (auto simp: PUBLIC_TOKEN_BYTES_def)
  then have chk: "redeem_check L ?V \<lparr>ap_scope = scope, ap_token = tb\<rparr> = Inr tok"
    using assms by (simp add: redeem_check_def Let_def key_id_def decode_exact_def challenge_digest_def)
  obtain r ns' where rt: "redeem_token L [(tid, [pk])] now (vf_nonces V) tok = (r, ns')"
    by (cases "redeem_token L [(tid, [pk])] now (vf_nonces V) tok")
  obtain ns1 where "nonce_reserve now (token_nonce L tok) (vf_nonces V) = (True, ns1)"
    using policy_valid [OF pol] by (simp add: V nonce_reserve_def hm_retain_def hm_contains_def)
  from origin_server_cases [OF assms(1) rt this] have "r = Inr ()" using assms(13) by (auto split: if_splits)
  then show ?thesis using pre pr chk rt by (simp add: redeem_def V)
qed

text \<open>
  C21: An honest exchange ends with a redeemed credential: a member in good standing who answers
  the challenge of a new issuer gets a blind signature, finishes it to a presentation, and a
  verifier that was given the scope's descriptor accepts the presentation.
\<close>

theorem credential_round_trip:
  assumes "blind_ok L valid" "origin_server_ok L valid" "sign_ok L" "identity_wf L gov" "ni_node_id gov \<in> governance"
    and "issuer_new policy = Inr I" "verifier_new policy = Inr V"
    and "issuer_challenge L generate gov net perm now I = (Inr ch, I1)" "client_begin L random ch = Inr (request, pending)"
    and "membership_verify L m trusted now = Inr True" "mb_network_id m = net" "perm \<in> set (mb_permissions m)" "mb_member m \<notin> revoked"
  shows "\<exists>response I2 p V1 V2. issuer_issue L m trusted revoked request now I1 = (Inr response, I2)
    \<and> client_finish L pending response = Inr p
    \<and> add_descriptor L (descriptor_of ch) governance now V = (Inr (), V1)
    \<and> redeem L now p net perm now V1 = (Inr (), V2)"
proof -
  obtain sk der pk spki tid scope d where k: "rsa_public_der L sk = Some der" "pk_from_der L der = Some pk"
    "pk_serialize L pk = Some spki" "pk_truncated_id L pk = Some tid"
    and sc: "policy_epoch policy now = Inr (sc_epoch scope, sc_expires_at scope)" "scope_validate scope = Inr ()"
      "sc_network_id scope = net" "sc_permission scope = perm" "sc_issuer_key_id scope = sha256 L spki"
    and d: "descriptor_issue L scope spki gov = Inr d" "ch = challenge_of d" "sk_scope d = scope"
      "I1 = \<lparr>is_policy = policy, is_keys = [(tid, sk)], is_descriptors = [(scope, d)], is_issuance = []\<rparr>"
    by (rule fresh_challenge [OF assms(6,8)])
  note dv = descriptor_issue_verifies [OF assms(3,4) d(1) assms(5)]
  note bl = assms(1) [unfolded blind_ok_def, rule_format, OF k]
  obtain issuer encoded req st where b: "request = \<lparr>br_scope = scope, br_request = req\<rparr>" "pending = \<lparr>pc_scope = scope, pc_state = st\<rparr>"
    "scope_challenge L scope = Inr (issuer, encoded)" "token_request_new L random pk (issuer, encoded) = Some (Some req, st)"
    using assms(9) d(2,3) dv(2) bl
    by (auto simp: client_begin_def challenge_of_def bind_r_Inr_iff ok_or_Inr_iff split: if_splits)
  note rq = conjunct2 [OF conjunct2 [OF bl], rule_format, OF b(4)]
  obtain resp r tok tb where t: "rsa_private_decrypt L sk (drop 3 req) = Some resp" "length resp = PUBLIC_RESPONSE_BYTES"
    "tls_token_response L resp = Some (r, [])" "issue_token L r st = Some tok" "tls_serialize_token L tok = Some tb"
    "length tb = PUBLIC_TOKEN_BYTES" "tls_token L tb = Some (tok, [])" "token_key_id L tok = sha256 L spki"
    "challenge_digest_of L issuer encoded = Some (token_challenge_digest L tok)"
    "\<forall>keys. pk \<in> set (origin_get keys tid) \<longrightarrow> valid keys tok" using rq by blast
  have v: "valid [(tid, [pk])] tok" using t(10) by (simp add: origin_get_def)
  obtain I2 where "issuer_issue L m trusted revoked request now I1 = (Inr \<lparr>bs_response = resp\<rparr>, I2)"
    using honest_issue [OF assms(10) _ _ assms(13) sc(1,2) _ dv(2) sc(5) _ k(4) _ _ _ t(1,2)] assms(11,12) sc(3,4) bl rq b(1) d(4) by auto
  moreover have "client_finish L pending \<lparr>bs_response = resp\<rparr> = Inr \<lparr>ap_scope = scope, ap_token = tb\<rparr>"
  proof -
    have "resp \<noteq> []" using t(2) by (auto simp: PUBLIC_RESPONSE_BYTES_def)
    then show ?thesis using t(2-5) b(2)
      by (simp add: client_finish_def decode_exact_def PUBLIC_RESPONSE_BYTES_def MAX_RESPONSE_BYTES_def)
  qed
  moreover have "add_descriptor L (descriptor_of ch) governance now V
      = (Inr (), V\<lparr>vf_descriptors := [(scope, d)], vf_keys := [(tid, [pk])]\<rparr>)"
    using honest_add [OF assms(7) dv(1) d(3) dv(2) sc(1,2) _ sc(5) _ k(4)] bl d(2) by simp
  moreover obtain V2 where "redeem L now \<lparr>ap_scope = scope, ap_token = tb\<rparr> net perm now
      (V\<lparr>vf_descriptors := [(scope, d)], vf_keys := [(tid, [pk])]\<rparr>) = (Inr (), V2)"
    using honest_redeem [OF assms(2,7) dv(2) sc(1,2) _ sc(5) b(3) t(6-9) v] bl sc(3,4) by auto
  ultimately show ?thesis by blast
qed

section \<open>A concrete token library\<close>

text \<open>Keys are single bytes, a token is the key's identifier, the challenge digest and a nonce.\<close>

definition demo_redeem :: "nonce_store \<Rightarrow> u64 \<Rightarrow> bytes \<Rightarrow> (redeem_error + unit) \<times> nonce_store" where
  "demo_redeem ns clock nonce =
     (case nonce_reserve clock nonce ns of
        (True, ns) \<Rightarrow> (Inr (), nonce_commit nonce ns)
      | (False, ns) \<Rightarrow> (Inl DoubleSpending, ns))"

definition demo_policy :: credential_policy where
  "demo_policy = \<lparr>po_epoch_seconds = 300, po_max_issues_per_member_epoch = 2, po_max_active_scope_keys = 3, po_max_nullifiers = 4\<rparr>"

definition demo_scope :: authorization_scope where
  "demo_scope = \<lparr>sc_version = 1, sc_network_id = ''n'', sc_permission = ''x'', sc_epoch = 0, sc_expires_at = 300,
     sc_issuer_key_id = example_sha [5]\<rparr>"

definition demo_membership_body :: membership_body where
  "demo_membership_body = (''n'', NodeId [8], NodeId (example_sha [1]), [''x''], None)"

definition demo_membership :: membership where
  "demo_membership = \<lparr>mb_network_id = ''n'', mb_member = NodeId [8], mb_issuer = NodeId (example_sha [1]),
     mb_permissions = [''x''], mb_expires_at = None, mb_issuer_public_key = [1], mb_signature = [1, 0, 0, 0, 0]\<rparr>"

definition demo_tokens :: "(u8, u8, bytes, bytes, bytes) token_lib" where
  "demo_tokens =
     \<lparr>sha256 = example_sha, hex_encode = (\<lambda>b. concat (map fmt_02x b)), hex_decode = unhex,
      try_decode_protobuf = (\<lambda>b. Inr (PublicKey b)), encode_protobuf = public_material,
      public_of = (\<lambda>k. PublicKey (key_material k)), public_verify = (\<lambda>p m s. s = public_material p @ m),
      keypair_sign = (\<lambda>k m. Inr (key_material k @ m)),
      from_protobuf_encoding = (\<lambda>b. Inr (Keypair b)), to_protobuf_encoding = (\<lambda>k. Inr (key_material k)),
      sd_event = table_serde [], sd_signed_event = table_serde [], sd_proposal = table_serde [],
      sd_block = table_serde [], to_vec_pretty = to_vec (table_serde []), sd_membership = table_serde [demo_membership_body],
      sd_scope = table_serde [demo_scope],
      sd_descriptor = table_serde [(demo_scope, [5], NodeId (example_sha [1]), [1])],
      token_type_public = 2, rsa_public_der = (\<lambda>k. Some [k]), rsa_private_decrypt = (\<lambda>k b. Some (replicate 256 k)),
      pk_from_der = (\<lambda>b. if length b = 1 then Some (hd b) else None),
      pk_from_spki = (\<lambda>b. if length b = 1 then Some (hd b) else None),
      pk_serialize = (\<lambda>k. Some [k]), pk_truncated_id = Some,
      challenge_digest_of = (\<lambda>i e. Some (example_sha (map (\<lambda>c. of_nat (of_char c)) e))),
      token_request_new = (\<lambda>random pk (i, e). Some (Some ([0, 2, pk] @ replicate 256 0), pk # example_sha (map (\<lambda>c. of_nat (of_char c)) e))),
      tls_token_response = (\<lambda>b. Some (b, [])),
      issue_token = (\<lambda>r c. Some (example_sha [hd c] @ tl c @ replicate 290 7)),
      tls_serialize_token = Some, tls_token = (\<lambda>b. Some (b, [])),
      token_key_id = take 32, token_challenge_digest = (\<lambda>t. take 32 (drop 32 t)), token_nonce = (\<lambda>t. take 32 (drop 64 t)),
      redeem_token = (\<lambda>keys clock ns t. demo_redeem ns clock (take 32 (drop 64 t)))\<rparr>"

lemma demo_tokens_ok: "sign_ok demo_tokens" "origin_server_ok demo_tokens (\<lambda>keys t. True)"
proof -
  show "sign_ok demo_tokens" by (simp add: sign_ok_def demo_tokens_def)
  show "origin_server_ok demo_tokens (\<lambda>keys t. True)"
    by (auto simp: origin_server_ok_def demo_tokens_def demo_redeem_def split: prod.splits bool.splits)
qed

lemma length_example_sha [simp]: "length (example_sha b) = 32"
  by (simp add: example_sha_def)

lemma demo_blind_ok: "blind_ok demo_tokens (\<lambda>keys t. True)"
  by (auto simp: blind_ok_def demo_tokens_def PUBLIC_REQUEST_BYTES_def PUBLIC_RESPONSE_BYTES_def PUBLIC_TOKEN_BYTES_def
      be_u16_def nat_of_be_def slice_def)

lemma demo_gov_wf: "identity_wf demo_tokens (example_member 1)"
  by (simp add: identity_wf_def example_member_def identity_of_def demo_tokens_def node_derive_def Let_def
      example_ledger_lib_def)

definition demo_descriptor :: scope_key_descriptor where
  "demo_descriptor = \<lparr>sk_scope = demo_scope, sk_public_key = [5], sk_governance_issuer = NodeId (example_sha [1]),
     sk_governance_public_key = [1], sk_signature = [1, 0, 0, 0, 0]\<rparr>"

lemma demo_epoch: "policy_epoch demo_policy 7 = Inr (0, 300)"
proof -
  have "(7 :: u64) div 300 = 0" by (simp add: word_unat_eq_iff u64_div)
  moreover have "epoch_end demo_policy 0 = Some 300" by (simp add: epoch_end_Some demo_policy_def)
  ultimately show ?thesis by (simp add: policy_epoch_def policy_validate_def demo_policy_def Let_def)
qed

lemma demo_scope_valid: "scope_validate demo_scope = Inr ()"
  by code_simp

lemma demo_issue_descriptor: "descriptor_issue demo_tokens demo_scope [5] (example_member 1) = Inr demo_descriptor"
  by code_simp

lemma demo_begin:
  "case client_begin demo_tokens [] (challenge_of demo_descriptor) of Inl _ \<Rightarrow> False | Inr _ \<Rightarrow> True"
  by code_simp

lemma demo_challenge:
  "issuer_challenge demo_tokens (\<lambda>_. Some 5) (example_member 1) ''n'' ''x'' 7
     \<lparr>is_policy = demo_policy, is_keys = [], is_descriptors = [], is_issuance = []\<rparr>
   = (Inr (challenge_of demo_descriptor),
      \<lparr>is_policy = demo_policy, is_keys = [(5, 5)], is_descriptors = [(demo_scope, demo_descriptor)], is_issuance = []\<rparr>)"
proof -
  have "generate_key demo_tokens (Some 5 # rest) [] = (Inr (Some [5]), [(5, 5)])" for rest
    by (simp add: demo_tokens_def issuer_keys_insert_def hm_contains_def)
  then have key: "generate_key demo_tokens (map (\<lambda>_. Some 5) [0..<100]) [] = (Inr (Some [5]), [(5, 5)])"
    by (simp add: upt_conv_Cons)
  have sc: "\<lparr>sc_version = AUTH_PROTOCOL_VERSION, sc_network_id = ''n'', sc_permission = ''x'', sc_epoch = 0, sc_expires_at = 300,
      sc_issuer_key_id = sha256 demo_tokens [5]\<rparr> = demo_scope"
    by (simp add: demo_scope_def demo_tokens_def AUTH_PROTOCOL_VERSION_def)
  have "issuer_prune demo_tokens 7 \<lparr>is_policy = demo_policy, is_keys = [], is_descriptors = [], is_issuance = []\<rparr>
      = \<lparr>is_policy = demo_policy, is_keys = [], is_descriptors = [], is_issuance = []\<rparr>"
    by (simp add: issuer_prune_def hm_retain_def Let_def demo_epoch)
  moreover have "po_max_active_scope_keys demo_policy = 3" "sk_scope demo_descriptor = demo_scope"
    by (simp_all add: demo_policy_def demo_descriptor_def)
  ultimately show ?thesis
    by (simp add: issuer_challenge_def Let_def demo_epoch key sc demo_scope_valid demo_issue_descriptor
        validate_public_class_def MAX_NETWORK_BYTES_def MAX_PERMISSION_BYTES_def)
qed

theorem credential_round_trip_witness:
  "\<exists>I V ch I1 request pending response I2 p V1 V2.
     issuer_new demo_policy = Inr I \<and> verifier_new demo_policy = Inr V
     \<and> issuer_challenge demo_tokens (\<lambda>_. Some 5) (example_member 1) ''n'' ''x'' 7 I = (Inr ch, I1)
     \<and> client_begin demo_tokens [] ch = Inr (request, pending)
     \<and> issuer_issue demo_tokens demo_membership {NodeId (example_sha [1])} {} request 7 I1 = (Inr response, I2)
     \<and> client_finish demo_tokens pending response = Inr p
     \<and> add_descriptor demo_tokens (descriptor_of ch) {ni_node_id (example_member 1)} 7 V = (Inr (), V1)
     \<and> redeem demo_tokens 7 p ''n'' ''x'' 7 V1 = (Inr (), V2)"
proof -
  obtain I ch I1 request pending where x: "issuer_new demo_policy = Inr I"
    "issuer_challenge demo_tokens (\<lambda>_. Some 5) (example_member 1) ''n'' ''x'' 7 I = (Inr ch, I1)"
    "client_begin demo_tokens [] ch = Inr (request, pending)"
    using demo_challenge demo_begin by (auto simp: issuer_new_def policy_validate_def demo_policy_def split: sum.splits)
  obtain V :: "u8 verifier" where V: "verifier_new demo_policy = Inr V"
    by (simp add: verifier_new_def policy_validate_def demo_policy_def)
  have m: "membership_verify demo_tokens demo_membership {NodeId (example_sha [1])} 7 = Inr True" by code_simp
  show ?thesis
    using credential_round_trip [OF demo_blind_ok demo_tokens_ok(2,1) demo_gov_wf _ x(1) V x(2,3) m, of "{ni_node_id (example_member 1)}" "{}"]
      x V by (auto simp: demo_membership_def)
qed

definition demo_presentation :: anonymous_presentation where
  "demo_presentation = \<lparr>ap_scope = demo_scope,
     ap_token = example_sha [5] @ example_sha (map (\<lambda>c. of_nat (of_char c)) (fmt_02x 0 @ fmt_02x 0 @ fmt_02x 0 @ fmt_02x 0)) @ replicate 290 7\<rparr>"

definition demo_verifier :: "u8 verifier" where
  "demo_verifier = \<lparr>vf_policy = demo_policy, vf_keys = [(5, [5])], vf_descriptors = [(demo_scope, demo_descriptor)],
     vf_nonces = \<lparr>ns_values = [], ns_max_entries = 4, ns_retention_seconds = 300\<rparr>\<rparr>"

lemma demo_redeems: "\<exists>V1. redeem demo_tokens 7 demo_presentation ''n'' ''x'' 7 demo_verifier = (Inr (), V1)"
proof -
  obtain V :: "u8 verifier" where V: "verifier_new demo_policy = Inr V" "demo_verifier = V\<lparr>vf_descriptors := [(demo_scope, demo_descriptor)], vf_keys := [(5, [5])]\<rparr>"
    by (simp add: verifier_new_def policy_validate_def demo_policy_def demo_verifier_def)
  have ch: "scope_challenge demo_tokens demo_scope = Inr (ISSUER_NAME, fmt_02x 0 @ fmt_02x 0 @ fmt_02x 0 @ fmt_02x 0)" by code_simp
  have "\<exists>V2. redeem demo_tokens 7 \<lparr>ap_scope = demo_scope, ap_token = ap_token demo_presentation\<rparr>
      (sc_network_id demo_scope) (sc_permission demo_scope) 7
      (V\<lparr>vf_descriptors := [(demo_scope, demo_descriptor)], vf_keys := [(5, [5])]\<rparr>) = (Inr (), V2)"
    by (rule honest_redeem [OF demo_tokens_ok(2) V(1) _ _ demo_scope_valid _ _ ch, where tok = "ap_token demo_presentation"])
       (simp_all add: demo_descriptor_def demo_epoch demo_scope_def demo_tokens_def demo_presentation_def PUBLIC_TOKEN_BYTES_def)
  moreover have "\<lparr>ap_scope = demo_scope, ap_token = ap_token demo_presentation\<rparr> = demo_presentation"
    "sc_network_id demo_scope = ''n''" "sc_permission demo_scope = ''x''"
    by (simp_all add: demo_presentation_def demo_scope_def)
  ultimately show ?thesis by (simp add: V(2))
qed

theorem credential_redeemed_once_witness:
  "\<exists>V1. redeem demo_tokens 7 demo_presentation ''n'' ''x'' 7 demo_verifier = (Inr (), V1)
     \<and> fst (redeem demo_tokens 18 demo_presentation ''n'' ''x'' 20
         (fold (verifier_step demo_tokens) [((9, 9), VPrune), ((12, 13), VRedeem demo_presentation ''n'' ''x'')] V1)) \<noteq> Inr ()"
proof -
  obtain V1 where r: "redeem demo_tokens 7 demo_presentation ''n'' ''x'' 7 demo_verifier = (Inr (), V1)" using demo_redeems by blast
  have "nonces_wf demo_verifier" by (simp add: nonces_wf_def demo_verifier_def demo_policy_def)
  from credential_redeemed_once [OF demo_tokens_ok(2) this r, of "[((9, 9), VPrune), ((12, 13), VRedeem demo_presentation ''n'' ''x'')]" 20 18
      demo_presentation] r show ?thesis by auto
qed

theorem issuance_limit_holds_witness:
  "issued demo_tokens (NodeId [8]) 0 \<lparr>is_policy = demo_policy, is_keys = [(5, 5)], is_descriptors = [(demo_scope, demo_descriptor)], is_issuance = []\<rparr>
     (replicate 3 (7, IIssue demo_membership {NodeId (example_sha [1])} {} \<lparr>br_scope = demo_scope, br_request = [0, 2, 5] @ replicate 256 0\<rparr>)) \<le> 2"
  using issuance_limit_holds [of "\<lparr>is_policy = demo_policy, is_keys = [(5, 5)], is_descriptors = [(demo_scope, demo_descriptor)], is_issuance = []\<rparr>"
      "replicate 3 (7, IIssue demo_membership {NodeId (example_sha [1])} {} \<lparr>br_scope = demo_scope, br_request = [0, 2, 5] @ replicate 256 0\<rparr>)"
      demo_tokens "NodeId [8]" 0]
  by (simp add: issuer_wf_def demo_policy_def numeral_3_eq_3)

end
