(* ===== verification/Compute.thy ===== *)
theory Compute
  imports Core
begin

text \<open>
  \<open>crates/peerless-compute/src/lib.rs\<close>: agreement on the outputs of a task, the memory budget,
  the eligibility of a node and the placement of a task. The order in which a \<open>HashMap\<close> yields its
  entries is an argument, as is the logarithm, whose rounding the language leaves open.
\<close>

section \<open>Limits\<close>

definition DEFAULT_TASK_MEMORY_LIMIT :: u64 where "DEFAULT_TASK_MEMORY_LIMIT = 64 * 1024 * 1024"
definition MAX_TASK_MEMORY_LIMIT :: u64 where "MAX_TASK_MEMORY_LIMIT = 512 * 1024 * 1024"

definition task_memory_limit :: "task \<Rightarrow> u64 option" where
  "task_memory_limit t =
     (let limit = max (minimum_memory (task_requirements t)) DEFAULT_TASK_MEMORY_LIMIT in
      if limit \<le> MAX_TASK_MEMORY_LIMIT then Some limit else None)"

section \<open>Choosing from an iterator\<close>

text \<open>
  \<open>max_by\<close> keeps the later of two equal elements and \<open>min_by\<close> the earlier one; \<open>gt\<close> says that
  the comparison answers \<open>Greater\<close>.
\<close>

definition max_by :: "('a \<Rightarrow> 'a \<Rightarrow> bool) \<Rightarrow> 'a list \<Rightarrow> 'a option" where
  "max_by gt xs = (case xs of [] \<Rightarrow> None | x # ys \<Rightarrow> Some (foldl (\<lambda>a b. if gt a b then a else b) x ys))"

definition min_by :: "('a \<Rightarrow> 'a \<Rightarrow> bool) \<Rightarrow> 'a list \<Rightarrow> 'a option" where
  "min_by gt xs = (case xs of [] \<Rightarrow> None | x # ys \<Rightarrow> Some (foldl (\<lambda>a b. if gt a b then b else a) x ys))"

section \<open>Agreement on outputs\<close>

datatype verification_error = InsufficientExecutions | NoAgreement

definition count_output :: "('a, nat) hmap \<Rightarrow> 'a \<Rightarrow> ('a, nat) hmap" where
  "count_output counts output =
     AList.update output ((case map_of counts output of None \<Rightarrow> 0 | Some n \<Rightarrow> n) + 1) counts"

definition verify_outputs ::
  "((content_id, nat) hmap \<Rightarrow> (content_id \<times> nat) list) \<Rightarrow> verification_policy \<Rightarrow> content_id list \<Rightarrow>
     verification_error + content_id" where
  "verify_outputs into_iter policy outputs =
     (case policy of
        TrustExecutor \<Rightarrow>
          ok_or InsufficientExecutions (case outputs of [] \<Rightarrow> None | x # _ \<Rightarrow> Some x)
      | Replicate required \<Rightarrow>
          let required = unat required in
          if required = 0 \<or> length outputs < required then Inl InsufficientExecutions
          else
            let first = outputs ! 0 in
            ok_or NoAgreement
              (if list_all (\<lambda>output. output = first) (take required outputs) then Some first else None)
      | Quorum executions required_matches \<Rightarrow>
          let executions = unat executions; required_matches = unat required_matches in
          if executions = 0 \<or> required_matches = 0 \<or> required_matches > executions
            \<or> length outputs < executions
          then Inl InsufficientExecutions
          else
            let counts = foldl count_output [] (take executions outputs) in
            ok_or NoAgreement
              (map_option fst
                (max_by (\<lambda>(_, m) (_, n). m > n) (filter (\<lambda>(_, n). n \<ge> required_matches) (into_iter counts)))))"

section \<open>Placement\<close>

record placement_weights =
  pw_cpu :: f64
  pw_memory :: f64
  pw_latency :: f64
  pw_power :: f64
  pw_locality :: f64
  pw_load :: f64
  pw_network :: f64
  pw_history :: f64
  pw_trust :: f64
  pw_replication :: f64
  pw_congestion :: f64

definition default_weights :: placement_weights where
  "default_weights = \<lparr>
     pw_cpu = f64_lit (25 / 100), pw_memory = f64_lit (15 / 100), pw_latency = f64_lit (15 / 100),
     pw_power = f64_lit (10 / 100), pw_locality = f64_lit (20 / 100), pw_load = f64_lit (10 / 100),
     pw_network = f64_lit (5 / 100), pw_history = f64_lit (10 / 100), pw_trust = f64_lit (15 / 100),
     pw_replication = f64_lit (10 / 100), pw_congestion = f64_lit (10 / 100)\<rparr>"

record placement_observation =
  inverse_latency :: f64
  po_locality :: f64
  transfer_cost :: f64
  historical_success :: f64
  po_trust :: f64
  replication_availability :: f64
  po_congestion :: f64

record placement_candidate =
  pc_capability :: node_capability
  pc_observation :: placement_observation

record placement_score =
  ps_node :: node_id
  ps_score :: f64

datatype placement_error = NoEligibleNode

definition unit_f64 :: "f64 \<Rightarrow> f64" where
  "unit_f64 v = f64_clamp v (F64Fin False 0) (F64Fin False 1)"

definition normalize_bytes :: "(f64 \<Rightarrow> f64) \<Rightarrow> u64 \<Rightarrow> f64" where
  "normalize_bytes lg v =
     unit_f64 (f64_div (lg (f64_add (f64_of_nat (unat v)) (f64_lit 1))) (f64_lit 48))"

definition eligible :: "task \<Rightarrow> node_capability \<Rightarrow> u64 \<Rightarrow> bool" where
  "eligible t node now \<longleftrightarrow>
     is_fresh_at node now
     \<and> f64_is_finite (available_cpu node)
     \<and> f64_lt (F64Fin False 0) (available_cpu node)
     \<and> f64_le (available_cpu node) (F64Fin False 1)
     \<and> f64_is_finite (cap_load node)
     \<and> (f64_le (F64Fin False 0) (cap_load node) \<and> f64_le (cap_load node) (F64Fin False 1))
     \<and> (case task_memory_limit t of None \<Rightarrow> False | Some limit \<Rightarrow> available_memory node \<ge> limit)
     \<and> available_storage node \<ge> minimum_storage (task_requirements t)
     \<and> supports node (req_runtime (task_requirements t))
     \<and> task_slots node > 0
     \<and> (case task_deadline t of None \<Rightarrow> True | Some deadline \<Rightarrow> deadline > now)"

definition score :: "(f64 \<Rightarrow> f64) \<Rightarrow> placement_weights \<Rightarrow> placement_candidate \<Rightarrow> f64" where
  "score lg w candidate =
     (let cap = pc_capability candidate;
          observation = pc_observation candidate;
          power = (case cap_power cap of
              PowerAc \<Rightarrow> f64_lit 1 | PowerBattery \<Rightarrow> f64_lit (4 / 10) | PowerUnknown \<Rightarrow> f64_lit (6 / 10));
          memory = normalize_bytes lg (available_memory cap);
          raw = f64_mul (pw_cpu w) (unit_f64 (available_cpu cap));
          raw = f64_add raw (f64_mul (pw_memory w) memory);
          raw = f64_add raw (f64_mul (pw_latency w) (unit_f64 (inverse_latency observation)));
          raw = f64_add raw (f64_mul (pw_power w) power);
          raw = f64_add raw (f64_mul (pw_locality w) (unit_f64 (po_locality observation)));
          raw = f64_sub raw (f64_mul (pw_load w) (unit_f64 (cap_load cap)));
          raw = f64_sub raw (f64_mul (pw_network w) (unit_f64 (transfer_cost observation)));
          raw = f64_add raw (f64_mul (pw_history w) (unit_f64 (historical_success observation)));
          raw = f64_add raw (f64_mul (pw_trust w) (unit_f64 (po_trust observation)));
          raw = f64_add raw (f64_mul (pw_replication w) (unit_f64 (replication_availability observation)));
          raw = f64_sub raw (f64_mul (pw_congestion w) (unit_f64 (po_congestion observation)))
      in unit_f64 raw)"

text \<open>The score of a candidate, and the comparison of \<open>place\<close>: a higher score, then a smaller node.\<close>

definition placement_of :: "(f64 \<Rightarrow> f64) \<Rightarrow> placement_weights \<Rightarrow> placement_candidate \<Rightarrow> placement_score" where
  "placement_of lg w candidate =
     \<lparr>ps_node = cap_node (pc_capability candidate), ps_score = score lg w candidate\<rparr>"

definition score_greater :: "placement_score \<Rightarrow> placement_score \<Rightarrow> bool" where
  "score_greater left right \<longleftrightarrow>
     ps_score left > ps_score right \<or> ps_score left = ps_score right \<and> ps_node right > ps_node left"

definition place ::
  "(f64 \<Rightarrow> f64) \<Rightarrow> placement_weights \<Rightarrow> task \<Rightarrow> placement_candidate list \<Rightarrow> u64 \<Rightarrow>
     placement_error + placement_score" where
  "place lg w t candidates now =
     ok_or NoEligibleNode
       (max_by score_greater
         (map (placement_of lg w) (filter (\<lambda>candidate. eligible t (pc_capability candidate) now) candidates)))"

definition pressure :: "(node_id, u64) hmap \<Rightarrow> node_capability \<Rightarrow> f64" where
  "pressure assignments cap =
     (let capacity = f64_max
            (f64_mul (f64_mul (f64_of_nat (unat (cpu_cores cap))) (unit_f64 (available_cpu cap)))
              (f64_sub (f64_lit 1) (unit_f64 (cap_load cap))))
            (f64_lit (5 / 100));
          assigned = f64_of_nat (unat (case map_of assignments (cap_node cap) of None \<Rightarrow> 0 | Some n \<Rightarrow> n))
      in f64_div assigned capacity)"

definition pressure_greater :: "placement_score \<times> f64 \<Rightarrow> placement_score \<times> f64 \<Rightarrow> bool" where
  "pressure_greater left right \<longleftrightarrow>
     snd left > snd right
     \<or> snd left = snd right \<and> (ps_score (fst right) > ps_score (fst left)
       \<or> ps_score (fst right) = ps_score (fst left) \<and> ps_node (fst left) > ps_node (fst right))"

definition remote_candidates :: "task \<Rightarrow> placement_candidate list \<Rightarrow> node_id \<Rightarrow> u64 \<Rightarrow> placement_candidate list" where
  "remote_candidates t candidates self now =
     filter (\<lambda>candidate. eligible t (pc_capability candidate) now)
       (filter (\<lambda>candidate. cap_node (pc_capability candidate) \<noteq> self) candidates)"

definition place_balanced_with_local_fallback ::
  "(f64 \<Rightarrow> f64) \<Rightarrow> placement_weights \<Rightarrow> task \<Rightarrow> placement_candidate list \<Rightarrow> node_id \<Rightarrow>
     (node_id, u64) hmap \<Rightarrow> u64 \<Rightarrow> placement_error + placement_score" where
  "place_balanced_with_local_fallback lg w t candidates self assignments now =
     (let remote = remote_candidates t candidates self now in
      if remote = [] then place lg w t candidates now
      else
        ok_or NoEligibleNode
          (map_option fst
            (min_by pressure_greater
              (map (\<lambda>candidate. (placement_of lg w candidate, pressure assignments (pc_capability candidate)))
                remote))))"

definition place_with_local_fallback ::
  "(f64 \<Rightarrow> f64) \<Rightarrow> placement_weights \<Rightarrow> task \<Rightarrow> placement_candidate list \<Rightarrow> node_id \<Rightarrow> u64 \<Rightarrow>
     placement_error + placement_score" where
  "place_with_local_fallback lg w t candidates self now =
     place_balanced_with_local_fallback lg w t candidates self [] now"

section \<open>Reputation\<close>

record peer_reputation =
  rep_success :: u64
  rep_failure :: u64
  rep_invalid_result :: u64
  rep_timeout :: u64
  average_latency_ms :: f64

definition f64_of_u64 :: "u64 \<Rightarrow> f64" where
  "f64_of_u64 v = f64_of_nat (unat v)"

definition trust_score :: "peer_reputation \<Rightarrow> f64" where
  "trust_score r =
     (let positive = f64_add (f64_of_u64 (rep_success r)) (f64_lit 1);
          negative = f64_add (f64_add (f64_add (f64_of_u64 (rep_failure r)) (f64_of_u64 (rep_timeout r)))
            (f64_mul (f64_lit 2) (f64_of_u64 (rep_invalid_result r)))) (f64_lit 1)
      in f64_div positive (f64_add positive negative))"

text \<open>\<open>None\<close> is the overflow check on the number of successes.\<close>

definition record_success :: "peer_reputation \<Rightarrow> f64 \<Rightarrow> peer_reputation option" where
  "record_success r latency_ms =
     (case checked_add1 (rep_success r) of
        None \<Rightarrow> None
      | Some next \<Rightarrow>
          let average = (if rep_success r = 0 then latency_ms
            else f64_div (f64_add (f64_mul (average_latency_ms r) (f64_of_u64 (rep_success r))) latency_ms)
              (f64_of_u64 next))
          in Some (r\<lparr>average_latency_ms := average, rep_success := next\<rparr>))"

section \<open>Comparators\<close>

text \<open>What \<open>max_by\<close> and \<open>min_by\<close> need of a comparison: \<open>Greater\<close> is a strict weak order.\<close>

locale comparison =
  fixes gt :: "'a \<Rightarrow> 'a \<Rightarrow> bool"
  assumes gt_asym: "gt a b \<Longrightarrow> \<not> gt b a"
    and gt_negtrans: "\<not> gt a b \<Longrightarrow> \<not> gt b c \<Longrightarrow> \<not> gt a c"
begin

lemma fold_greatest:
  "(let r = foldl (\<lambda>a b. if gt a b then a else b) x ys in r \<in> set (x # ys) \<and> (\<forall>z \<in> set (x # ys). \<not> gt z r))"
proof (induction ys arbitrary: x)
  case Nil
  then show ?case by (auto dest: gt_asym)
next
  case (Cons y ys)
  define z where "z = (if gt x y then x else y)"
  define r where "r = foldl (\<lambda>a b. if gt a b then a else b) z ys"
  have z: "\<not> gt x z" "\<not> gt y z" "z \<in> {x, y}" using gt_asym by (auto simp: z_def)
  have r: "r \<in> set (z # ys)" "\<forall>w \<in> set (z # ys). \<not> gt w r"
    using Cons.IH [of z] unfolding Let_def r_def by (rule conjunct1, rule conjunct2)
  then have "\<not> gt x r" "\<not> gt y r" using z(1,2) gt_negtrans [of x z r] gt_negtrans [of y z r] by auto
  moreover have "foldl (\<lambda>a b. if gt a b then a else b) x (y # ys) = r" by (simp add: r_def z_def)
  ultimately show ?case using r z(3) by (auto simp only: Let_def list.set insert_iff empty_iff)
qed

lemma fold_least:
  "(let r = foldl (\<lambda>a b. if gt a b then b else a) x ys in r \<in> set (x # ys) \<and> (\<forall>z \<in> set (x # ys). \<not> gt r z))"
proof (induction ys arbitrary: x)
  case Nil
  then show ?case by (auto dest: gt_asym)
next
  case (Cons y ys)
  define z where "z = (if gt x y then y else x)"
  define r where "r = foldl (\<lambda>a b. if gt a b then b else a) z ys"
  have z: "\<not> gt z x" "\<not> gt z y" "z \<in> {x, y}" using gt_asym by (auto simp: z_def)
  have r: "r \<in> set (z # ys)" "\<forall>w \<in> set (z # ys). \<not> gt r w"
    using Cons.IH [of z] unfolding Let_def r_def by (rule conjunct1, rule conjunct2)
  then have "\<not> gt r x" "\<not> gt r y" using z(1,2) gt_negtrans [of r z x] gt_negtrans [of r z y] by auto
  moreover have "foldl (\<lambda>a b. if gt a b then b else a) x (y # ys) = r" by (simp add: r_def z_def)
  ultimately show ?case using r z(3) by (auto simp only: Let_def list.set insert_iff empty_iff)
qed

lemma max_by_Some: "max_by gt xs = Some r \<Longrightarrow> r \<in> set xs \<and> (\<forall>z \<in> set xs. \<not> gt z r)"
  using fold_greatest by (cases xs) (auto simp: max_by_def Let_def)

lemma min_by_Some: "min_by gt xs = Some r \<Longrightarrow> r \<in> set xs \<and> (\<forall>z \<in> set xs. \<not> gt r z)"
  using fold_least by (cases xs) (auto simp: min_by_def Let_def)

end

lemma max_by_None [simp]: "max_by gt xs = None \<longleftrightarrow> xs = []"
  by (cases xs) (simp_all add: max_by_def)

lemma max_by_Nil [simp]: "max_by gt [] = None"
  by simp

lemma min_by_None [simp]: "min_by gt xs = None \<longleftrightarrow> xs = []"
  by (cases xs) (simp_all add: min_by_def)

text \<open>A comparison that tells any two elements apart makes the choice a function of the set.\<close>

locale total_comparison = comparison gt for gt :: "'a \<Rightarrow> 'a \<Rightarrow> bool" +
  assumes gt_total: "\<not> gt a b \<Longrightarrow> \<not> gt b a \<Longrightarrow> a = b"
begin

lemma max_by_set:
  assumes "set xs = set ys"
  shows "max_by gt xs = max_by gt ys"
proof (cases "xs = []")
  case False
  then have "xs \<noteq> []" "ys \<noteq> []" using assms by auto
  then obtain r r' where r: "max_by gt xs = Some r" "max_by gt ys = Some r'" by fastforce
  with max_by_Some [OF r(1)] max_by_Some [OF r(2)] assms gt_total [of r r'] show ?thesis by simp
qed (use assms in simp)

lemma min_by_set:
  assumes "set xs = set ys"
  shows "min_by gt xs = min_by gt ys"
proof (cases "xs = []")
  case False
  then have "xs \<noteq> []" "ys \<noteq> []" using assms by auto
  then obtain r r' where r: "min_by gt xs = Some r" "min_by gt ys = Some r'" by fastforce
  with min_by_Some [OF r(1)] min_by_Some [OF r(2)] assms gt_total [of r r'] show ?thesis by simp
qed (use assms in simp)

end

interpretation by_count: comparison "\<lambda>(_ :: 'a, m :: nat) (_, n). m > n"
  by unfold_locales auto

interpretation by_score: total_comparison score_greater
  by unfold_locales (auto simp: score_greater_def)

interpretation by_pressure: total_comparison pressure_greater
  by unfold_locales (auto simp: pressure_greater_def prod_eq_iff)

section \<open>Counting outputs\<close>

definition counted :: "('a, nat) hmap \<Rightarrow> 'a \<Rightarrow> nat" where
  "counted m k = (case map_of m k of None \<Rightarrow> 0 | Some n \<Rightarrow> n)"

lemma fold_count_output:
  "counted (foldl count_output m xs) k = counted m k + count_list xs k"
  "map_of (foldl count_output m xs) k = None \<longleftrightarrow> map_of m k = None \<and> k \<notin> set xs"
  by (induction xs arbitrary: m) (auto simp: count_output_def counted_def)

lemma hm_wf_fold_count: "hm_wf m \<Longrightarrow> hm_wf (foldl count_output m xs)"
  by (induction xs arbitrary: m) (simp_all add: count_output_def)

lemma fold_count_entries:
  "(k, n) \<in> set (foldl count_output [] xs) \<longleftrightarrow> k \<in> set xs \<and> n = count_list xs k"
proof -
  have "(k, n) \<in> set (foldl count_output [] xs) \<longleftrightarrow> map_of (foldl count_output [] xs) k = Some n"
    by (simp add: hm_wf_map_of_iff hm_wf_fold_count)
  then show ?thesis using fold_count_output [of "[]" xs k] by (auto simp: counted_def split: option.splits)
qed

text \<open>Two values cannot both fill more than half of a list.\<close>

lemma count_list_two:
  assumes "a \<noteq> b"
  shows "count_list xs a + count_list xs b \<le> length xs"
  using assms by (induction xs) auto

lemma count_list_member: "0 < count_list xs x \<Longrightarrow> x \<in> set xs"
  by (metis count_notin less_irrefl)

lemma quorum_choice:
  assumes "\<And>m. set (into_iter m) = set m" and m: "0 < required"
    and r: "r = max_by (\<lambda>(_, m) (_, n). m > n)
      (filter (\<lambda>(_, n). n \<ge> required) (into_iter (foldl count_output [] xs)))"
  shows "r = None \<longleftrightarrow> (\<forall>w. count_list xs w < required)"
    and "r = Some (v, n) \<Longrightarrow> n = count_list xs v \<and> required \<le> n \<and> (\<forall>w. count_list xs w \<le> n)"
proof -
  define E where "E = filter (\<lambda>(_, n). n \<ge> required) (into_iter (foldl count_output [] xs))"
  have r': "r = max_by (\<lambda>(_, m) (_, n). m > n) E" using r by (simp add: E_def)
  have E: "(k, c) \<in> set E \<longleftrightarrow> c = count_list xs k \<and> required \<le> c" for k c
    using count_list_member [of xs k] m by (auto simp: E_def assms(1) fold_count_entries)
  have "E = [] \<longleftrightarrow> (\<forall>k c. (k, c) \<notin> set E)" by (cases E) auto
  then show "r = None \<longleftrightarrow> (\<forall>w. count_list xs w < required)"
    unfolding r' max_by_None E by (simp add: not_le)
  assume "r = Some (v, n)"
  with by_count.max_by_Some [of E "(v, n)"] r'
  have *: "(v, n) \<in> set E" "\<forall>k c. (k, c) \<in> set E \<longrightarrow> c \<le> n" by (auto simp: not_less)
  then have "n = count_list xs v \<and> required \<le> n" by (simp add: E)
  moreover have "count_list xs w \<le> n" for w
    using *(2) [unfolded E, rule_format, of _ w] calculation by (cases "required \<le> count_list xs w") auto
  ultimately show "n = count_list xs v \<and> required \<le> n \<and> (\<forall>w. count_list xs w \<le> n)" by simp
qed

lemma replicate_agreement:
  "verify_outputs into_iter (Replicate n) outputs = Inr v
     \<longleftrightarrow> 0 < unat n \<and> unat n \<le> length outputs \<and> take (unat n) outputs = replicate (unat n) v"
proof (cases "0 < unat n \<and> unat n \<le> length outputs")
  case True
  then obtain x xs k where xs: "outputs = x # xs" and k: "unat n = Suc k" by (cases outputs) (auto dest: gr0_implies_Suc)
  show ?thesis using True unfolding xs k
    by (auto simp: verify_outputs_def Let_def ok_or_def k list_all_iff replicate_length_same [symmetric] min_def
        intro!: replicate_eqI dest: in_set_replicate [THEN iffD1])
next
  case False
  then show ?thesis by (auto simp: verify_outputs_def Let_def)
qed

lemma verify_quorum:
  "verify_outputs into_iter (Quorum n m) outputs =
     (if 0 < unat m \<and> unat m \<le> unat n \<and> unat n \<le> length outputs
      then ok_or NoAgreement (map_option fst (max_by (\<lambda>(_, m) (_, n). m > n)
        (filter (\<lambda>(_, c). c \<ge> unat m) (into_iter (foldl count_output [] (take (unat n) outputs))))))
      else Inl InsufficientExecutions)"
  by (auto simp: verify_outputs_def Let_def)

lemma agreement_facts:
  assumes "\<forall>m. set (into_iter m) = set m"
  shows "verify_outputs into_iter (Replicate n) outputs = Inr v
      \<longleftrightarrow> 0 < unat n \<and> unat n \<le> length outputs \<and> take (unat n) outputs = replicate (unat n) v"
    and "unat n < 2 * unat m \<Longrightarrow> verify_outputs into_iter (Quorum n m) outputs = Inr v
      \<longleftrightarrow> m \<le> n \<and> unat n \<le> length outputs \<and> unat m \<le> count_list (take (unat n) outputs) v"
    and "verify_outputs into_iter (Quorum n m) outputs = Inr v \<Longrightarrow>
      0 < unat m \<and> unat m \<le> count_list (take (unat n) outputs) v
      \<and> (\<forall>w. count_list (take (unat n) outputs) w \<le> count_list (take (unat n) outputs) v)"
    and "verify_outputs into_iter (Quorum n m) outputs = Inl NoAgreement
      \<longleftrightarrow> 0 < unat m \<and> m \<le> n \<and> unat n \<le> length outputs \<and> (\<forall>w. count_list (take (unat n) outputs) w < unat m)"
proof -
  have it: "set (into_iter m) = set m" for m using assms by blast
  show "verify_outputs into_iter (Replicate n) outputs = Inr v
      \<longleftrightarrow> 0 < unat n \<and> unat n \<le> length outputs \<and> take (unat n) outputs = replicate (unat n) v"
    by (rule replicate_agreement)
  note q = quorum_choice [OF it _ refl, of "unat m" "take (unat n) outputs"]
  note shape = verify_quorum [of into_iter n m outputs]
  show gen: "0 < unat m \<and> unat m \<le> count_list (take (unat n) outputs) v
      \<and> (\<forall>w. count_list (take (unat n) outputs) w \<le> count_list (take (unat n) outputs) v)"
    if "verify_outputs into_iter (Quorum n m) outputs = Inr v" for v
    using that q(2) unfolding shape by (auto simp: result_simps split: if_splits)
  show na: "verify_outputs into_iter (Quorum n m) outputs = Inl NoAgreement
      \<longleftrightarrow> 0 < unat m \<and> m \<le> n \<and> unat n \<le> length outputs \<and> (\<forall>w. count_list (take (unat n) outputs) w < unat m)"
    using q(1) unfolding shape by (auto simp: ok_or_def word_le_nat_alt split: if_splits option.splits)
  assume maj: "unat n < 2 * unat m"
  show "verify_outputs into_iter (Quorum n m) outputs = Inr v
      \<longleftrightarrow> m \<le> n \<and> unat n \<le> length outputs \<and> unat m \<le> count_list (take (unat n) outputs) v"
  proof
    assume "m \<le> n \<and> unat n \<le> length outputs \<and> unat m \<le> count_list (take (unat n) outputs) v"
    then have le: "unat m \<le> unat n" "unat n \<le> length outputs" "unat m \<le> count_list (take (unat n) outputs) v"
      by (simp_all add: word_le_nat_alt)
    have pos: "0 < unat m" using maj by simp
    have "verify_outputs into_iter (Quorum n m) outputs \<noteq> Inl NoAgreement"
      unfolding na using le(3) by (auto simp: not_less)
    then obtain w where w: "verify_outputs into_iter (Quorum n m) outputs = Inr w"
      using le pos unfolding shape by (cases "map_option fst (max_by (\<lambda>(_, m) (_, n). m > n)
        (filter (\<lambda>(_, c). c \<ge> unat m) (into_iter (foldl count_output [] (take (unat n) outputs)))))")
        (simp_all add: ok_or_def)
    have "w = v"
      using gen [OF w] le count_list_two [of w v "take (unat n) outputs"] maj by (cases "w = v") auto
    with w show "verify_outputs into_iter (Quorum n m) outputs = Inr v" by simp
  next
    assume inr: "verify_outputs into_iter (Quorum n m) outputs = Inr v"
    then have "unat m \<le> unat n \<and> unat n \<le> length outputs" unfolding shape by (simp split: if_splits)
    with gen [OF inr] show "m \<le> n \<and> unat n \<le> length outputs \<and> unat m \<le> count_list (take (unat n) outputs) v"
      by (simp add: word_le_nat_alt)
  qed
qed

section \<open>Properties\<close>

text \<open>
  C22: The accepted output is the one the executions agree on. Replication accepts \<open>v\<close> exactly when
  there are enough executions and the required ones all returned \<open>v\<close>. A quorum of more than half of the
  executions accepts \<open>v\<close> exactly when \<open>v\<close> occurs often enough among the first ones, whatever order the
  hash map yields its entries in. A quorum of any size never accepts an output with fewer matches than
  required or fewer than another output, and reports no agreement exactly when no output reaches it.
\<close>

theorem verified_output_agreement:
  assumes "\<forall>m. set (into_iter m) = set m"
  shows "(verify_outputs into_iter (Replicate n) outputs = Inr v
      \<longleftrightarrow> 0 < unat n \<and> unat n \<le> length outputs \<and> take (unat n) outputs = replicate (unat n) v)
    \<and> (unat n < 2 * unat m \<longrightarrow> (verify_outputs into_iter (Quorum n m) outputs = Inr v
      \<longleftrightarrow> m \<le> n \<and> unat n \<le> length outputs \<and> unat m \<le> count_list (take (unat n) outputs) v))
    \<and> (verify_outputs into_iter (Quorum n m) outputs = Inr v \<longrightarrow>
      0 < unat m \<and> unat m \<le> count_list (take (unat n) outputs) v
      \<and> (\<forall>w. count_list (take (unat n) outputs) w \<le> count_list (take (unat n) outputs) v))
    \<and> (verify_outputs into_iter (Quorum n m) outputs = Inl NoAgreement
      \<longleftrightarrow> 0 < unat m \<and> m \<le> n \<and> unat n \<le> length outputs \<and> (\<forall>w. count_list (take (unat n) outputs) w < unat m))"
  by (intro conjI impI agreement_facts(1) [OF assms] agreement_facts(2) [OF assms] agreement_facts(4) [OF assms])
    (use agreement_facts(3) [OF assms] in simp_all)

theorem verified_output_agreement_witness:
  "verify_outputs (\<lambda>m. m) (Quorum 3 2) [ContentId [1], ContentId [2], ContentId [1]] = Inr (ContentId [1])"
proof -
  have "\<forall>m :: (content_id, nat) hmap. set m = set m" by simp
  from verified_output_agreement [OF this, of 3 "[ContentId [1], ContentId [2], ContentId [1]]" "ContentId [1]" 2]
  show ?thesis by simp
qed

text \<open>Placement as a choice among the eligible candidates.\<close>

lemma not_score_greater:
  "\<not> score_greater a b \<longleftrightarrow> ps_score a < ps_score b \<or> ps_score a = ps_score b \<and> ps_node b \<le> ps_node a"
  by (auto simp: score_greater_def)

lemma not_pressure_greater:
  "\<not> pressure_greater a b \<longleftrightarrow> snd a < snd b
     \<or> snd a = snd b \<and> (ps_score (fst b) < ps_score (fst a)
       \<or> ps_score (fst a) = ps_score (fst b) \<and> ps_node (fst a) \<le> ps_node (fst b))"
  by (auto simp: pressure_greater_def)

lemma placement_of_simps [simp]:
  "ps_node (placement_of lg w c) = cap_node (pc_capability c)" "ps_score (placement_of lg w c) = score lg w c"
  by (simp_all add: placement_of_def)

lemma place_Inl: "place lg w t cs now = Inl e \<longleftrightarrow> (\<forall>c \<in> set cs. \<not> eligible t (pc_capability c) now)"
proof -
  have "place lg w t cs now = Inl e \<longleftrightarrow> max_by score_greater
      (map (placement_of lg w) (filter (\<lambda>c. eligible t (pc_capability c) now) cs)) = None"
    by (cases e) (auto simp: place_def ok_or_def simp del: max_by_None split: option.splits)
  then show ?thesis by (simp add: filter_empty_conv)
qed

lemma place_Inr:
  assumes "place lg w t cs now = Inr p"
  obtains c where "c \<in> set cs" "eligible t (pc_capability c) now" "p = placement_of lg w c"
    "\<And>d. d \<in> set cs \<Longrightarrow> eligible t (pc_capability d) now \<Longrightarrow> \<not> score_greater (placement_of lg w d) p"
  using assms by_score.max_by_Some [of "map (placement_of lg w) (filter (\<lambda>c. eligible t (pc_capability c) now) cs)" p]
  by (auto simp: place_def ok_or_def split: option.splits)

lemma place_set: "set cs = set ds \<Longrightarrow> place lg w t cs now = place lg w t ds now"
  unfolding place_def by (rule arg_cong [of _ _ "ok_or NoEligibleNode"], rule by_score.max_by_set) simp

lemma balanced_remote:
  assumes "remote_candidates t cs self now \<noteq> []"
  obtains c where "place_balanced_with_local_fallback lg w t cs self asg now = Inr (placement_of lg w c)"
    "c \<in> set (remote_candidates t cs self now)"
    "\<And>d. d \<in> set (remote_candidates t cs self now) \<Longrightarrow>
       \<not> pressure_greater (placement_of lg w c, pressure asg (pc_capability c)) (placement_of lg w d, pressure asg (pc_capability d))"
proof -
  let ?keyed = "\<lambda>c. (placement_of lg w c, pressure asg (pc_capability c))"
  let ?remote = "remote_candidates t cs self now"
  obtain r where r: "min_by pressure_greater (map ?keyed ?remote) = Some r"
    using assms by (cases "min_by pressure_greater (map ?keyed ?remote)") auto
  from by_pressure.min_by_Some [OF r] obtain c where c: "c \<in> set ?remote" "r = ?keyed c"
    "\<And>d. d \<in> set ?remote \<Longrightarrow> \<not> pressure_greater (?keyed c) (?keyed d)" by auto
  have "place_balanced_with_local_fallback lg w t cs self asg now = Inr (placement_of lg w c)"
    using r c(2) assms by (simp add: place_balanced_with_local_fallback_def Let_def ok_or_def)
  with c(1,3) show ?thesis using that by blast
qed

lemma set_remote: "set (remote_candidates t cs self now)
    = {c \<in> set cs. eligible t (pc_capability c) now \<and> cap_node (pc_capability c) \<noteq> self}"
  by (auto simp: remote_candidates_def)

lemma remote_empty: "remote_candidates t cs self now = []
    \<longleftrightarrow> \<not> (\<exists>d \<in> set cs. eligible t (pc_capability d) now \<and> cap_node (pc_capability d) \<noteq> self)"
  by (auto simp: remote_candidates_def filter_empty_conv)

lemma balanced_set:
  assumes "set cs = set ds"
  shows "place_balanced_with_local_fallback lg w t cs self asg now = place_balanced_with_local_fallback lg w t ds self asg now"
proof -
  let ?k = "\<lambda>c. (placement_of lg w c, pressure asg (pc_capability c))"
  have "remote_candidates t cs self now = [] \<longleftrightarrow> remote_candidates t ds self now = []" using assms by (simp add: remote_empty)
  moreover have "min_by pressure_greater (map ?k (remote_candidates t cs self now))
      = min_by pressure_greater (map ?k (remote_candidates t ds self now))"
    by (rule by_pressure.min_by_set) (use assms in \<open>simp add: set_remote\<close>)
  ultimately show ?thesis
    unfolding place_balanced_with_local_fallback_def Let_def using place_set [OF assms] by simp
qed

text \<open>
  C23: Placement is the best choice and nothing else. It fails exactly when no candidate is eligible.
  Otherwise it names an eligible candidate with its score. When some other node is eligible, the choice
  is such a node and no other one has a lower ratio of assigned tasks to capacity, or the same ratio and
  a higher score, or both the same and a smaller identifier; only when none is eligible does the choice
  fall back to the best score overall. The order and repetition of the candidates play no part.
\<close>

theorem placement_is_best:
  "(case place_balanced_with_local_fallback lg w t cs self assignments now of
      Inl _ \<Rightarrow> \<forall>c \<in> set cs. \<not> eligible t (pc_capability c) now
    | Inr p \<Rightarrow> \<exists>c \<in> set cs. eligible t (pc_capability c) now \<and> p = placement_of lg w c
        \<and> (if \<exists>d \<in> set cs. eligible t (pc_capability d) now \<and> cap_node (pc_capability d) \<noteq> self
           then cap_node (pc_capability c) \<noteq> self
             \<and> (\<forall>d \<in> set cs. eligible t (pc_capability d) now \<and> cap_node (pc_capability d) \<noteq> self \<longrightarrow>
                 pressure assignments (pc_capability c) < pressure assignments (pc_capability d)
                 \<or> pressure assignments (pc_capability c) = pressure assignments (pc_capability d)
                   \<and> (score lg w d < score lg w c
                     \<or> score lg w c = score lg w d \<and> cap_node (pc_capability c) \<le> cap_node (pc_capability d)))
           else \<forall>d \<in> set cs. eligible t (pc_capability d) now \<longrightarrow>
             score lg w d < score lg w c
             \<or> score lg w d = score lg w c \<and> cap_node (pc_capability c) \<le> cap_node (pc_capability d)))
   \<and> (set cs' = set cs \<longrightarrow>
        place_balanced_with_local_fallback lg w t cs' self assignments now
          = place_balanced_with_local_fallback lg w t cs self assignments now)"
proof (rule conjI, goal_cases)
  case 1
  show ?case
  proof (cases "remote_candidates t cs self now = []")
    case True
    note none = True [unfolded remote_empty]
    have eq: "place_balanced_with_local_fallback lg w t cs self assignments now = place lg w t cs now"
      using True by (simp add: place_balanced_with_local_fallback_def)
    show ?thesis
    proof (cases "place lg w t cs now")
      case (Inl e)
      then show ?thesis using place_Inl [of lg w t cs now e] by (simp add: eq)
    next
      case (Inr p)
      obtain c where c: "c \<in> set cs" "eligible t (pc_capability c) now" "p = placement_of lg w c"
        "\<And>d. d \<in> set cs \<Longrightarrow> eligible t (pc_capability d) now \<Longrightarrow> \<not> score_greater (placement_of lg w d) p"
        by (rule place_Inr [OF Inr], rule that)
      show ?thesis unfolding eq if_not_P [OF none] Inr sum.case
        using c by (intro bexI [of _ c]) (auto simp: not_score_greater)
    qed
  next
    case False
    note some = False [unfolded remote_empty not_not]
    show ?thesis unfolding if_P [OF some]
      by (rule balanced_remote [OF False, of lg w assignments]) (auto simp: not_pressure_greater set_remote)
  qed
next
  case 2
  show ?case using balanced_set by blast
qed

text \<open>Two equal workstations: the one without an assigned task is chosen.\<close>

definition demo_capability :: "u8 \<Rightarrow> node_capability" where
  "demo_capability n = \<lparr>cap_node = NodeId [n], cpu_cores = 4, available_cpu = F64Fin False (1 / 2),
     available_memory = 2 * DEFAULT_TASK_MEMORY_LIMIT, available_storage = 10, runtimes = [''wasi''],
     cap_power = PowerAc, cap_load = F64Fin False (1 / 2), task_slots = 1, cap_expires_at = 100\<rparr>"

definition demo_candidate :: "u8 \<Rightarrow> placement_candidate" where
  "demo_candidate n = \<lparr>pc_capability = demo_capability n,
     pc_observation = \<lparr>inverse_latency = F64Fin False 0, po_locality = F64Fin False 0, transfer_cost = F64Fin False 0,
       historical_success = F64Fin False 0, po_trust = F64Fin False 0, replication_availability = F64Fin False 0,
       po_congestion = F64Fin False 0\<rparr>\<rparr>"

definition demo_task :: task where
  "demo_task = \<lparr>task_id = ''t'', task_component = ContentId [1], task_input = ContentId [2],
     task_requirements = \<lparr>minimum_memory = 1, minimum_storage = 1, req_runtime = ''wasi'', estimated_cpu_cost = 1,
       req_network = NetNone\<rparr>,
     task_verification = TrustExecutor, task_deadline = None\<rparr>"

lemma demo_eligible: "eligible demo_task (demo_capability n) 5" "\<not> eligible demo_task (demo_capability n) 100"
  by (simp_all add: eligible_def demo_task_def demo_capability_def is_fresh_at_def f64_is_finite_def f64_lt_def
      f64_le_def task_memory_limit_def DEFAULT_TASK_MEMORY_LIMIT_def MAX_TASK_MEMORY_LIMIT_def Let_def supports_def)

lemma demo_pressure:
  "pressure [(NodeId [2], 3)] (demo_capability 2) > pressure [(NodeId [2], 3)] (demo_capability 3)"
  by code_simp

theorem placement_is_best_witness:
  "\<exists>p. place_balanced_with_local_fallback (\<lambda>x. x) default_weights demo_task
      [demo_candidate 1, demo_candidate 2, demo_candidate 3] (NodeId [1]) [(NodeId [2], 3)] 5 = Inr p
    \<and> ps_node p = NodeId [3]"
proof -
  let ?cs = "[demo_candidate 1, demo_candidate 2, demo_candidate 3]"
  have [simp]: "pc_capability (demo_candidate n) = demo_capability n" "cap_node (demo_capability n) = NodeId [n]" for n
    by (simp_all add: demo_candidate_def demo_capability_def)
  have "pressure [(NodeId [2], 3)] (demo_capability 2) \<noteq> pressure [(NodeId [2], 3)] (demo_capability 3)"
    "\<not> pressure [(NodeId [2], 3)] (demo_capability 2) < pressure [(NodeId [2], 3)] (demo_capability 3)"
    using demo_pressure by auto
  note less = this
  let ?res = "place_balanced_with_local_fallback (\<lambda>x. x) default_weights demo_task ?cs (NodeId [1]) [(NodeId [2], 3)] 5"
  note best = placement_is_best [where lg = "\<lambda>x. x" and w = default_weights and t = demo_task and cs = ?cs
      and self = "NodeId [1]" and assignments = "[(NodeId [2], 3)]" and now = 5 and cs' = ?cs, THEN conjunct1]
  show ?thesis
  proof (cases ?res)
    case (Inl e)
    then show ?thesis using best by (simp add: demo_eligible)
  next
    case (Inr p)
    then have "p = placement_of (\<lambda>x. x) default_weights (demo_candidate 3)"
      using best less by (auto simp: demo_eligible)
    with Inr show ?thesis by simp
  qed
qed

end
