(* ===== verification/Node_Metadata.thy ===== *)
theory Node_Metadata
  imports Compute Protocol
begin

text \<open>
  \<open>crates/peerless-node/src/metadata.rs\<close>: the local database. Its tables are association lists under
  their primary keys and each operation is the effect of its SQL statements on them; JSON columns hold
  the serialised bytes. A statement of the database engine can fail without effect: the outcomes to come
  are the list \<open>md_faults\<close>, \<open>True\<close> for a failure. Connections to an existing file find the tables in it,
  which is the state the operations start from; the migrations of \<open>open\<close> add columns that the table
  already has.
\<close>

datatype metadata_error = MdSql | MdJson json_error

record task_row =
  tr_state :: string
  tr_executor :: "string option"
  tr_updated_at :: "64 word"
  tr_requester_json :: "bytes option"
  tr_task_json :: "bytes option"
  tr_result_json :: "bytes option"

record peer_row =
  pr_node_id :: string
  pr_addresses :: string
  pr_last_seen :: "64 word"

record metadata =
  md_events :: "(64 word \<times> string \<times> string) list"
  md_tasks :: "(string, task_row) hmap"
  md_peers :: "(string, peer_row) hmap"
  md_reputation :: "(string, peer_reputation) hmap"
  md_faults :: "bool list"

record json_lib =
  sd_task :: "task serde"
  sd_node_id :: "node_id serde"
  sd_signed_record :: "signed_execution_record serde"

definition sql :: "(metadata \<Rightarrow> 'a \<times> metadata) \<Rightarrow> (metadata, metadata_error, 'a) action" where
  "sql f db =
     (case md_faults db of
        [] \<Rightarrow> (case f db of (x, db) \<Rightarrow> (Inr x, db))
      | fails # later \<Rightarrow>
          let db = db\<lparr>md_faults := later\<rparr> in
          if fails then (Inl MdSql, db) else (case f db of (x, db) \<Rightarrow> (Inr x, db)))"

text \<open>Opening, after its directory was created, connects, creates missing tables and tries the migrations, whose errors are ignored.\<close>

definition md_open :: "(metadata, metadata_error, unit) action" where
  "md_open =
     bind_m (sql (\<lambda>db. ((), db))) (\<lambda>_.
     bind_m (sql (\<lambda>db. ((), db))) (\<lambda>_ db.
     let db = snd (sql (\<lambda>db. ((), db)) db);
         db = snd (sql (\<lambda>db. ((), db)) db);
         db = snd (sql (\<lambda>db. ((), db)) db)
     in (Inr (), db)))"

definition md_event :: "u64 \<Rightarrow> string \<Rightarrow> string \<Rightarrow> (metadata, metadata_error, unit) action" where
  "md_event timestamp kind details =
     sql (\<lambda>db. ((), db\<lparr>md_events := md_events db @ [(timestamp, kind, details)]\<rparr>))"

definition md_task :: "string \<Rightarrow> string \<Rightarrow> string option \<Rightarrow> u64 \<Rightarrow> (metadata, metadata_error, unit) action" where
  "md_task tid state executor now =
     sql (\<lambda>db. ((), db\<lparr>md_tasks := AList.update tid
       (case map_of (md_tasks db) tid of
          None \<Rightarrow> \<lparr>tr_state = state, tr_executor = executor, tr_updated_at = now, tr_requester_json = None,
                   tr_task_json = None, tr_result_json = None\<rparr>
        | Some row \<Rightarrow> row\<lparr>tr_state := state, tr_executor := executor, tr_updated_at := now\<rparr>) (md_tasks db)\<rparr>))"

definition default_reputation :: peer_reputation where
  "default_reputation = \<lparr>rep_success = 0, rep_failure = 0, rep_invalid_result = 0, rep_timeout = 0,
     average_latency_ms = F64Fin False 0\<rparr>"

definition md_reputation_of :: "string \<Rightarrow> (metadata, metadata_error, peer_reputation) action" where
  "md_reputation_of node =
     sql (\<lambda>db. (case map_of (md_reputation db) node of None \<Rightarrow> default_reputation | Some r \<Rightarrow> r, db))"

definition md_completed_task ::
  "json_lib \<Rightarrow> ('z) hash_lib_scheme \<Rightarrow> task \<Rightarrow> node_id \<Rightarrow> signed_execution_record \<Rightarrow> u64 \<Rightarrow>
     (metadata, metadata_error, unit) action" where
  "md_completed_task J L t requester r now =
     bind_m (pure_m (map_err MdJson (to_vec (sd_node_id J) requester))) (\<lambda>requester_json.
     bind_m (pure_m (map_err MdJson (to_vec (sd_task J) t))) (\<lambda>task_json.
     bind_m (pure_m (map_err MdJson (to_vec (sd_signed_record J) r))) (\<lambda>result_json.
     sql (\<lambda>db. ((), db\<lparr>md_tasks := AList.update (task_id t)
       \<lparr>tr_state = ''completed'', tr_executor = Some (node_display L (er_executor (ser_record r))), tr_updated_at = now,
        tr_requester_json = Some requester_json, tr_task_json = Some task_json, tr_result_json = Some result_json\<rparr>
       (md_tasks db)\<rparr>)))))"

fun completed_row :: "task_row \<Rightarrow> (bytes \<times> bytes \<times> bytes) option" where
  "completed_row row =
     (case (tr_state row = ''completed'', tr_task_json row, tr_requester_json row, tr_result_json row) of
        (True, Some t, Some q, Some r) \<Rightarrow> Some (t, q, r)
      | _ \<Rightarrow> None)"

definition md_completed_tasks ::
  "json_lib \<Rightarrow> (metadata, metadata_error, (task \<times> node_id \<times> signed_execution_record) list) action" where
  "md_completed_tasks J =
     bind_m (sql (\<lambda>db. (List.map_filter (\<lambda>(_, row). completed_row row) (md_tasks db), db))) (\<lambda>rows.
     pure_m (map_r (\<lambda>(t, q, r).
       bind_r (map_err MdJson (from_slice (sd_task J) t)) (\<lambda>t.
       bind_r (map_err MdJson (from_slice (sd_node_id J) q)) (\<lambda>q.
       bind_r (map_err MdJson (from_slice (sd_signed_record J) r)) (\<lambda>r.
       Inr (t, q, r))))) rows))"

definition md_peer :: "string \<Rightarrow> string \<Rightarrow> string \<Rightarrow> u64 \<Rightarrow> (metadata, metadata_error, unit) action" where
  "md_peer peer_id node addresses now =
     sql (\<lambda>db. ((), db\<lparr>md_peers := AList.update peer_id
       \<lparr>pr_node_id = node, pr_addresses = addresses, pr_last_seen = now\<rparr> (md_peers db)\<rparr>))"

definition md_peer_count :: "(metadata, metadata_error, u64) action" where
  "md_peer_count = sql (\<lambda>db. (of_nat (length (md_peers db)), db))"

text \<open>Integer columns that are updated hold small counters; the arithmetic of the averages is binary64.\<close>

definition md_record_success :: "string \<Rightarrow> f64 \<Rightarrow> (metadata, metadata_error, unit) action" where
  "md_record_success node latency_ms =
     sql (\<lambda>db. ((), db\<lparr>md_reputation := AList.update node
       (case map_of (md_reputation db) node of
          None \<Rightarrow> default_reputation\<lparr>rep_success := 1, average_latency_ms := latency_ms\<rparr>
        | Some r \<Rightarrow> r\<lparr>
            average_latency_ms := f64_div
              (f64_add (f64_mul (average_latency_ms r) (f64_of_u64 (rep_success r))) latency_ms)
              (f64_of_u64 (rep_success r + 1)),
            rep_success := rep_success r + 1\<rparr>) (md_reputation db)\<rparr>))"

definition md_record_failure :: "string \<Rightarrow> bool \<Rightarrow> bool \<Rightarrow> (metadata, metadata_error, unit) action" where
  "md_record_failure node invalid timeout =
     sql (\<lambda>db.
       let row = (case map_of (md_reputation db) node of None \<Rightarrow> default_reputation | Some r \<Rightarrow> r);
           row = (if invalid then row\<lparr>rep_invalid_result := rep_invalid_result row + 1\<rparr>
             else if timeout then row\<lparr>rep_timeout := rep_timeout row + 1\<rparr>
             else row\<lparr>rep_failure := rep_failure row + 1\<rparr>)
       in ((), db\<lparr>md_reputation := AList.update node row (md_reputation db)\<rparr>))"

definition md_counts :: "(metadata, metadata_error, u64 \<times> u64) action" where
  "md_counts =
     bind_m (sql (\<lambda>db. (of_nat (length (md_events db)), db))) (\<lambda>events.
     bind_m (sql (\<lambda>db. (of_nat (length (md_tasks db)), db))) (\<lambda>tasks.
     pure_m (Inr (events, tasks))))"

section \<open>Statements of the engine\<close>

lemma sql_Inr_iff [result_simps]:
  "sql f db = (Inr x, db') \<longleftrightarrow>
     (\<exists>later. (md_faults db = [] \<and> later = [] \<or> md_faults db = False # later) \<and> f (db\<lparr>md_faults := later\<rparr>) = (x, db'))"
  by (cases db) (auto simp: sql_def Let_def split: list.splits prod.splits)

lemma sql_quiet: "md_faults db = [] \<Longrightarrow> sql f db = (case f db of (x, db) \<Rightarrow> (Inr x, db))"
  by (simp add: sql_def)

end
