(* ===== verification/Wasm.thy ===== *)
theory Wasm
  imports Compute
begin

text \<open>
  \<open>crates/peerless-compute/src/wasm.rs\<close>: the two capability-free executors. Wasmtime is a parameter:
  engines, modules, components, instances, memories and typed functions are handles, a store is a state
  that the calls pass on, and what the code relies on is that a store keeps to its memory limit. A
  \<open>usize\<close> is 64 bits wide, so the conversion of the limit to it cannot fail.
\<close>

section \<open>Wasmtime\<close>

record ('h, 's) wasmtime =
  engine_new :: "bool \<Rightarrow> string + 'h"
  module_new :: "'h \<Rightarrow> bytes \<Rightarrow> string + 'h"
  component_new :: "'h \<Rightarrow> bytes \<Rightarrow> string + 'h"
  store_new :: "'h \<Rightarrow> nat \<Rightarrow> 's"
  store_limiter :: "'s \<Rightarrow> 's"
  set_fuel :: "u64 \<Rightarrow> ('s, string, unit) action"
  instance_new :: "'h \<Rightarrow> ('s, string, 'h) action"
  get_memory :: "'h \<Rightarrow> string \<Rightarrow> 's \<Rightarrow> 'h option \<times> 's"
  memory_write :: "'h \<Rightarrow> nat \<Rightarrow> bytes \<Rightarrow> ('s, string, unit) action"
  memory_data :: "'h \<Rightarrow> 's \<Rightarrow> bytes"
  typed_bytes_func :: "'h \<Rightarrow> string \<Rightarrow> ('s, string, 'h) action"
  call_bytes_func :: "'h \<Rightarrow> u32 \<times> u32 \<Rightarrow> ('s, string, u64) action"
  typed_i32_func :: "'h \<Rightarrow> string \<Rightarrow> ('s, string, 'h) action"
  call_i32_func :: "'h \<Rightarrow> u32 \<Rightarrow> ('s, string, u32) action"
  linker_instantiate :: "'h \<Rightarrow> ('s, string, 'h) action"
  typed_component_func :: "'h \<Rightarrow> string \<Rightarrow> ('s, string, 'h) action"
  call_component_func :: "'h \<Rightarrow> u32 \<Rightarrow> ('s, string, u32) action"

text \<open>
  The contract of a store with a memory limit, for the calls the byte executor makes: \<open>held n s\<close>
  holds of a new store that carries the limit \<open>n\<close> once the limiter has been installed in it (without
  \<open>store.limiter\<close> the limit is only data), every call keeps it, and no memory of such a store is longer.
\<close>

definition keeps :: "('s \<Rightarrow> bool) \<Rightarrow> ('s \<Rightarrow> 'r \<times> 's) \<Rightarrow> bool" where
  "keeps I m \<longleftrightarrow> (\<forall>s r s'. I s \<and> m s = (r, s') \<longrightarrow> I s')"

definition limits_memory :: "('h, 's) wasmtime \<Rightarrow> (nat \<Rightarrow> 's \<Rightarrow> bool) \<Rightarrow> bool" where
  "limits_memory W held \<longleftrightarrow>
     (\<forall>e n. held n (store_limiter W (store_new W e n)))
     \<and> (\<forall>n f. keeps (held n) (set_fuel W f))
     \<and> (\<forall>n m. keeps (held n) (instance_new W m))
     \<and> (\<forall>n i x. keeps (held n) (get_memory W i x))
     \<and> (\<forall>n m off bs. keeps (held n) (memory_write W m off bs))
     \<and> (\<forall>n i x. keeps (held n) (typed_bytes_func W i x))
     \<and> (\<forall>n f a. keeps (held n) (call_bytes_func W f a))
     \<and> (\<forall>n m s. held n s \<longrightarrow> length (memory_data W m s) \<le> n)"

section \<open>The executors\<close>

definition DEFAULT_TASK_FUEL :: u64 where "DEFAULT_TASK_FUEL = 10000000"

datatype wasm_error =
    WasmInvalid string
  | MissingExport string
  | Trap string

datatype 'h compiled = CompiledComponent 'h | CompiledModule 'h

record 'h pure_i32_module =
  i32_engine :: 'h
  i32_compiled :: "'h compiled"

record 'h pure_bytes_module =
  bytes_engine :: 'h
  bytes_module :: 'h

definition limited_engine :: "('h, 's) wasmtime \<Rightarrow> wasm_error + 'h" where
  "limited_engine W = map_err WasmInvalid (engine_new W True)"

definition limited_store :: "('h, 's) wasmtime \<Rightarrow> 'h \<Rightarrow> nat \<Rightarrow> (wasm_error + unit) \<times> 's" where
  "limited_store W engine memory_limit =
     from_m WasmInvalid (set_fuel W DEFAULT_TASK_FUEL) (store_limiter W (store_new W engine memory_limit))"

definition bytes_parse :: "('h, 's) wasmtime \<Rightarrow> bytes \<Rightarrow> wasm_error + 'h pure_bytes_module" where
  "bytes_parse W bytes =
     bind_r (limited_engine W) (\<lambda>engine.
     bind_r (map_err WasmInvalid (module_new W engine bytes)) (\<lambda>m.
     Inr \<lparr>bytes_engine = engine, bytes_module = m\<rparr>))"

definition get_range :: "nat \<Rightarrow> nat \<Rightarrow> 'a list \<Rightarrow> 'a list option" where
  "get_range a b xs = (if a \<le> b \<and> b \<le> length xs then Some (slice a b xs) else None)"

text \<open>The packed result: the offset in the high 32 bits, the length in the low 32 bits.\<close>

definition unpack_output :: "('h, 's) wasmtime \<Rightarrow> 'h \<Rightarrow> u64 \<Rightarrow> 's \<Rightarrow> wasm_error + bytes" where
  "unpack_output W memory packed s =
     (let offset = unat (drop_bit 32 packed);
          len = unat (and packed (2 ^ 32 - 1));
          stop = offset + len
      in
      if stop \<ge> 2 ^ 64 then Inl (Trap ''output range overflow'')
      else ok_or (Trap ''output range is outside exported memory'') (get_range offset stop (memory_data W memory s)))"

definition bytes_invoke_with_limit ::
  "('h, 's) wasmtime \<Rightarrow> 'h pure_bytes_module \<Rightarrow> string \<Rightarrow> bytes \<Rightarrow> u64 \<Rightarrow> wasm_error + bytes" where
  "bytes_invoke_with_limit W self export input memory_limit =
     (let memory_limit = unat memory_limit in
      if length input > memory_limit then Inl (WasmInvalid ''input exceeds the task memory limit'')
      else
        case limited_store W (bytes_engine self) memory_limit of
          (Inl e, _) \<Rightarrow> Inl e
        | (Inr _, store) \<Rightarrow>
            fst (bind_m (from_m Trap (instance_new W (bytes_module self))) (\<lambda>i.
              bind_m (\<lambda>s. case get_memory W i ''memory'' s of (m, s) \<Rightarrow> (ok_or (MissingExport ''memory'') m, s)) (\<lambda>memory.
              bind_m (from_m Trap (memory_write W memory 0 input)) (\<lambda>_.
              bind_m (from_m MissingExport (typed_bytes_func W i export)) (\<lambda>f.
              bind_m (pure_m (if length input < 2 ^ 31 then Inr (of_nat (length input))
                else Inl (WasmInvalid ''input exceeds i32 ABI''))) (\<lambda>len.
              bind_m (from_m Trap (call_bytes_func W f (0, len))) (\<lambda>packed s.
              (unpack_output W memory packed s, s))))))) store))"

definition bytes_invoke ::
  "('h, 's) wasmtime \<Rightarrow> 'h pure_bytes_module \<Rightarrow> string \<Rightarrow> bytes \<Rightarrow> wasm_error + bytes" where
  "bytes_invoke W self export input = bytes_invoke_with_limit W self export input DEFAULT_TASK_MEMORY_LIMIT"

definition i32_parse :: "('h, 's) wasmtime \<Rightarrow> bytes \<Rightarrow> wasm_error + 'h pure_i32_module" where
  "i32_parse W bytes =
     bind_r (limited_engine W) (\<lambda>engine.
     case component_new W engine bytes of
       Inr v \<Rightarrow> Inr \<lparr>i32_engine = engine, i32_compiled = CompiledComponent v\<rparr>
     | Inl _ \<Rightarrow>
         bind_r (map_err WasmInvalid (module_new W engine bytes)) (\<lambda>m.
         Inr \<lparr>i32_engine = engine, i32_compiled = CompiledModule m\<rparr>))"

definition i32_invoke_with_limit ::
  "('h, 's) wasmtime \<Rightarrow> 'h pure_i32_module \<Rightarrow> string \<Rightarrow> u32 \<Rightarrow> u64 \<Rightarrow> wasm_error + u32" where
  "i32_invoke_with_limit W self export input memory_limit =
     (let memory_limit = unat memory_limit in
      case i32_compiled self of
        CompiledComponent c \<Rightarrow>
          (case limited_store W (i32_engine self) memory_limit of
             (Inl e, _) \<Rightarrow> Inl e
           | (Inr _, store) \<Rightarrow>
               fst (bind_m (from_m Trap (linker_instantiate W c)) (\<lambda>i.
                 bind_m (from_m MissingExport (typed_component_func W i export)) (\<lambda>f.
                 from_m Trap (call_component_func W f input))) store))
      | CompiledModule m \<Rightarrow>
          (case limited_store W (i32_engine self) memory_limit of
             (Inl e, _) \<Rightarrow> Inl e
           | (Inr _, store) \<Rightarrow>
               fst (bind_m (from_m Trap (instance_new W m)) (\<lambda>i.
                 bind_m (from_m MissingExport (typed_i32_func W i export)) (\<lambda>f.
                 from_m Trap (call_i32_func W f input))) store)))"

definition i32_invoke ::
  "('h, 's) wasmtime \<Rightarrow> 'h pure_i32_module \<Rightarrow> string \<Rightarrow> u32 \<Rightarrow> wasm_error + u32" where
  "i32_invoke W self export input = i32_invoke_with_limit W self export input DEFAULT_TASK_MEMORY_LIMIT"

section \<open>Lemmas\<close>

lemma keepsD: "keeps I m \<Longrightarrow> m s = (r, s') \<Longrightarrow> I s \<Longrightarrow> I s'"
  unfolding keeps_def by blast

lemma from_m_keeps: "from_m g m s = (r, s') \<Longrightarrow> \<exists>q. m s = (q, s')"
  by (auto simp: from_m_def split: prod.splits)

lemma fst_iff: "fst p = x \<longleftrightarrow> (\<exists>s. p = (x, s))"
  by (cases p) simp

lemma ok_or_pair_iff: "(case p of (m, s) \<Rightarrow> (ok_or e m, s)) = (Inr x, t) \<longleftrightarrow> p = (Some x, t)"
  by (cases p) (auto simp: ok_or_def split: option.splits)

lemma unpack_output_Inr:
  assumes "unpack_output W memory packed s = Inr out"
  shows "unat (drop_bit 32 packed) + unat (and packed (2 ^ 32 - 1)) \<le> length (memory_data W memory s)"
    and "out = slice (unat (drop_bit 32 packed)) (unat (drop_bit 32 packed) + unat (and packed (2 ^ 32 - 1))) (memory_data W memory s)"
    and "length out = unat (and packed (2 ^ 32 - 1))"
  using assms by (auto simp: unpack_output_def Let_def get_range_def ok_or_def slice_def split: if_splits)

text \<open>A successful byte invocation, step by step: the store is held through every call.\<close>

lemma bytes_invoke_run:
  assumes W: "limits_memory W held"
    and run: "bytes_invoke_with_limit W self export input limit = Inr out"
  obtains memory packed s where "held (unat limit) s" "unpack_output W memory packed s = Inr out"
    "length input \<le> unat limit" "length input < 2 ^ 31"
proof -
  have fits: "length input \<le> unat limit" using run by (auto simp: bytes_invoke_with_limit_def Let_def split: if_splits)
  obtain u s0 where s0: "limited_store W (bytes_engine self) (unat limit) = (Inr u, s0)"
    using run fits by (auto simp: bytes_invoke_with_limit_def Let_def split: prod.splits sum.splits)
  obtain i s1 mem s2 u' s3 f s4 len packed s5 where
    steps: "instance_new W (bytes_module self) s0 = (Inr i, s1)" "get_memory W i ''memory'' s1 = (Some mem, s2)"
      "memory_write W mem 0 input s2 = (Inr u', s3)" "typed_bytes_func W i export s3 = (Inr f, s4)"
      "call_bytes_func W f (0, len) s4 = (Inr packed, s5)"
    and small: "length input < 2 ^ 31" and out: "unpack_output W mem packed s5 = Inr out"
    using run fits s0
    by (auto simp: bytes_invoke_with_limit_def Let_def fst_iff ok_or_pair_iff result_simps split: if_splits)
  have "held (unat limit) s0"
    using W s0 unfolding limits_memory_def limited_store_def by (metis from_m_keeps keepsD)
  then have "held (unat limit) s5"
    using W steps unfolding limits_memory_def by (metis keepsD)
  then show ?thesis using that out fits small by blast
qed

section \<open>Properties\<close>

text \<open>
  C24: The declared memory of a task bounds what an execution takes in and gives back. With a store that
  keeps to its memory limit, a byte invocation that succeeds had an input within the limit and within the
  signed 32-bit length the module is called with, and returns at most as many bytes as the limit allows;
  an input above the limit is refused before any store is made.
\<close>

theorem execution_within_memory_limit:
  assumes "limits_memory W held"
  shows "case bytes_invoke_with_limit W self export input limit of
      Inr out \<Rightarrow> length input \<le> unat limit \<and> length input < 2 ^ 31 \<and> length out \<le> unat limit
    | Inl e \<Rightarrow> unat limit < length input \<longrightarrow> e = WasmInvalid ''input exceeds the task memory limit''"
proof (cases "bytes_invoke_with_limit W self export input limit")
  case (Inl e)
  then show ?thesis by (auto simp: bytes_invoke_with_limit_def Let_def)
next
  case (Inr out)
  obtain memory packed s where s: "held (unat limit) s" "unpack_output W memory packed s = Inr out"
    "length input \<le> unat limit" "length input < 2 ^ 31"
    by (rule bytes_invoke_run [OF assms Inr])
  have "length (memory_data W memory s) \<le> unat limit" using assms s(1) unfolding limits_memory_def by blast
  then show ?thesis using Inr s(3,4) unpack_output_Inr(1,3) [OF s(2)] by simp
qed

text \<open>
  A store that is its own memory, and a module that returns its input. The limit is enforced from the
  moment the limiter is installed.
\<close>

definition echo_wasmtime :: "(unit, nat \<times> bool \<times> bytes) wasmtime" where
  "echo_wasmtime = \<lparr>engine_new = (\<lambda>_. Inr ()), module_new = (\<lambda>_ _. Inr ()), component_new = (\<lambda>_ _. Inl []),
     store_new = (\<lambda>_ n. (n, False, [])), store_limiter = (\<lambda>(n, _, b). (n, True, take n b)),
     set_fuel = (\<lambda>_. pure_m (Inr ())), instance_new = (\<lambda>_. pure_m (Inr ())),
     get_memory = (\<lambda>_ _ s. (Some (), s)),
     memory_write = (\<lambda>_ _ bs (n, on, b). (Inr (), (n, on, if on then take n bs else bs))),
     memory_data = (\<lambda>_ (n, on, b). b),
     typed_bytes_func = (\<lambda>_ _. pure_m (Inr ())), call_bytes_func = (\<lambda>_ (_, len). pure_m (Inr (ucast len))),
     typed_i32_func = (\<lambda>_ _. pure_m (Inr ())), call_i32_func = (\<lambda>_ x. pure_m (Inr (2 * x))),
     linker_instantiate = (\<lambda>_. pure_m (Inl [])), typed_component_func = (\<lambda>_ _. pure_m (Inl [])),
     call_component_func = (\<lambda>_ _. pure_m (Inl []))\<rparr>"

lemma echo_limits: "limits_memory echo_wasmtime (\<lambda>n (m, on, b). m = n \<and> on \<and> length b \<le> n)"
  by (auto simp: limits_memory_def keeps_def echo_wasmtime_def)

theorem execution_within_memory_limit_witness:
  "bytes_invoke_with_limit echo_wasmtime \<lparr>bytes_engine = (), bytes_module = ()\<rparr> ''run'' [1, 2, 3] 4 = Inr [1, 2, 3]
   \<and> length [1 :: u8, 2, 3] \<le> unat (4 :: u64)"
proof -
  have run: "bytes_invoke_with_limit echo_wasmtime \<lparr>bytes_engine = (), bytes_module = ()\<rparr> ''run'' [1, 2, 3] 4 = Inr [1, 2, 3]"
    by (simp add: bytes_invoke_with_limit_def limited_store_def echo_wasmtime_def unpack_output_def get_range_def
        slice_def bind_m_def from_m_def take_bit_eq_mask [symmetric] flip: mask_eq_exp_minus_1)
  from execution_within_memory_limit [OF echo_limits, where self = "\<lparr>bytes_engine = (), bytes_module = ()\<rparr>"
      and export = "''run''" and input = "[1, 2, 3]" and limit = 4]
  show ?thesis unfolding run by simp
qed

end
