(* ===== verification/Node.thy ===== *)
theory Node
  imports Node_Metadata Ledger_Chain State_Store Wasm
begin

text \<open>
  \<open>crates/peerless-node/src/lib.rs\<close>: the state of a node, request budgets, memberships and
  revocations, and start-up. The state of \<open>Inner\<close> also carries the file system, the database and the
  number of times the clock was read; the clock, the metrics of the host and the third-party libraries
  are the fields of \<open>node_env\<close>. A handler is an action on this state.
\<close>

section \<open>Constants and data\<close>

definition CONTENT_CHUNK_SIZE :: nat where "CONTENT_CHUNK_SIZE = 64 * 1024"
definition MAX_CONTENT_SIZE :: u64 where "MAX_CONTENT_SIZE = 512 * 1024 * 1024"
definition MAX_ACTIVE_UPLOADS :: nat where "MAX_ACTIVE_UPLOADS = 4"
definition MAX_IN_FLIGHT_UPLOAD_BYTES :: u64 where "MAX_IN_FLIGHT_UPLOAD_BYTES = 512 * 1024 * 1024"
definition HOST_MEMORY_RESERVE :: u64 where "HOST_MEMORY_RESERVE = 1024 * 1024 * 1024"
definition MAX_CONCURRENT_TASKS :: nat where "MAX_CONCURRENT_TASKS = 1"
definition REQUEST_WINDOW_MILLIS :: u64 where "REQUEST_WINDOW_MILLIS = 60000"
definition MAX_REQUESTS_PER_IDENTITY_PER_WINDOW :: u32 where "MAX_REQUESTS_PER_IDENTITY_PER_WINDOW = 4096"
definition MAX_REQUESTS_GLOBAL_PER_WINDOW :: u32 where "MAX_REQUESTS_GLOBAL_PER_WINDOW = 16384"
definition MAX_MEMBERSHIP_FILE_BYTES :: u64 where "MAX_MEMBERSHIP_FILE_BYTES = 1024 * 1024"
definition MAX_ISSUED_MEMBERSHIPS :: nat where "MAX_ISSUED_MEMBERSHIPS = 4096"

datatype node_error =
    NdIo io_error
  | NdIdentity identity_error
  | NdProtocol protocol_error
  | NdStorage cas_error
  | NdNetwork network_error
  | NdWasm wasm_error
  | NdRejected string
  | NdUnexpectedResponse
  | NdP2p string
  | NdMembershipRequired
  | NdInsufficientReplicas nat u8
  | NdState state_error
  | NdLedger ledger_error
  | NdMetadata metadata_error

record upload_session =
  us_total_size :: u64
  us_chunk_size :: u32
  us_chunks :: "bytes option list"

record pending_task =
  pt_task :: task
  pt_requester :: node_id
  pt_lease_expires_at :: u64
  pt_running :: bool

record completed_task =
  ct_task :: task
  ct_requester :: node_id
  ct_result :: signed_execution_record

record member_access =
  ma_permissions :: "string set"
  ma_expires_at :: "u64 option"

record membership_policy =
  mp_network_id :: string
  mp_permissions :: "(node_id, member_access) hmap"

record request_budget =
  window_started_at :: u64
  rb_global :: u32
  rb_identities :: "(node_id, u32) hmap"

record inner =
  in_identity :: node_identity
  in_cas :: path
  in_pending :: "(string, pending_task) hmap"
  in_completed :: "(string, completed_task) hmap"
  in_placement_counts :: "(node_id, u64) hmap"
  in_state :: state_store
  in_ledger :: ledger
  in_membership :: "membership_policy option"
  in_issued_memberships :: "membership list"
  in_revoked_members :: "node_id set"
  in_request_budget :: request_budget
  in_uploads :: "(node_id \<times> content_id, upload_session) hmap"
  in_metadata :: metadata
  in_peer_cache :: path
  in_membership_file :: path
  in_issued_memberships_file :: path
  in_fs :: fs
  in_ticks :: nat

section \<open>The environment\<close>

record host =
  global_cpu_usage :: f64
  host_cpus :: nat
  host_available_memory :: u64
  host_disks :: "u64 list"

record ('h, 's, 'd, 'o) node_env =
  ne_lib :: ledger_lib
  ne_json :: json_lib
  sd_message :: "message serde"
  sd_record :: "execution_record serde"
  sd_envelope :: "signed_envelope serde"
  sd_invitation :: "invitation serde"
  sd_memberships :: "membership list serde"
  ne_wasm :: "('h, 's) wasmtime"
  ne_automerge :: "('d, 'o) automerge"
  ne_clock :: "nat \<Rightarrow> u64"
  ne_host :: "nat \<Rightarrow> host"
  ne_error_text :: "node_error \<Rightarrow> string"
  to_peer_id :: "public_key \<Rightarrow> peer_id"
  ne_elapsed_ms :: "nat \<Rightarrow> f64"
  ne_into_iter :: "(content_id, nat) hmap \<Rightarrow> (content_id \<times> nat) list"
  ne_generated_key :: keypair
  ne_nanos :: nat

type_synonym 'a nodem = "(inner, node_error, 'a) action"

definition node_now :: "('h, 's, 'd, 'o) node_env \<Rightarrow> u64 nodem" where
  "node_now E n = (Inr (ne_clock E (in_ticks n)), n\<lparr>in_ticks := in_ticks n + 1\<rparr>)"

definition on_fs :: "('e \<Rightarrow> node_error) \<Rightarrow> (fs, 'e, 'a) action \<Rightarrow> 'a nodem" where
  "on_fs g m n = (case m (in_fs n) of (r, s) \<Rightarrow> (map_err g r, n\<lparr>in_fs := s\<rparr>))"

definition on_db :: "(metadata, metadata_error, 'a) action \<Rightarrow> 'a nodem" where
  "on_db m n = (case m (in_metadata n) of (r, db) \<Rightarrow> (map_err NdMetadata r, n\<lparr>in_metadata := db\<rparr>))"

definition on_ledger :: "(ledger \<times> fs, ledger_error, 'a) action \<Rightarrow> 'a nodem" where
  "on_ledger m n = (case m (in_ledger n, in_fs n) of (r, lg, s) \<Rightarrow> (map_err NdLedger r, n\<lparr>in_ledger := lg, in_fs := s\<rparr>))"

definition modify_n :: "(inner \<Rightarrow> inner) \<Rightarrow> unit nodem" where
  "modify_n f n = (Inr (), f n)"

abbreviation self_id :: "inner \<Rightarrow> node_id" where
  "self_id n \<equiv> ni_node_id (in_identity n)"

section \<open>Request budgets\<close>

text \<open>\<open>at.saturating_sub(start)\<close> is zero when the clock is behind the window.\<close>

definition saturating_sub :: "'a::len word \<Rightarrow> 'a word \<Rightarrow> 'a word" where
  "saturating_sub a b = (if b \<le> a then a - b else 0)"

definition consume_request_budget :: "node_id \<Rightarrow> u64 \<Rightarrow> request_budget \<Rightarrow> bool \<times> request_budget" where
  "consume_request_budget signer now budget =
     (let budget = (if saturating_sub now (window_started_at budget) \<ge> REQUEST_WINDOW_MILLIS
            then \<lparr>window_started_at = now, rb_global = 0, rb_identities = []\<rparr> else budget)
      in
      if rb_global budget \<ge> MAX_REQUESTS_GLOBAL_PER_WINDOW then (False, budget)
      else
        let count = (case map_of (rb_identities budget) signer of None \<Rightarrow> 0 | Some c \<Rightarrow> c) in
        if count \<ge> MAX_REQUESTS_PER_IDENTITY_PER_WINDOW
        then (False, budget\<lparr>rb_identities := AList.update signer count (rb_identities budget)\<rparr>)
        else (True, budget\<lparr>rb_identities := AList.update signer (count + 1) (rb_identities budget),
                           rb_global := rb_global budget + 1\<rparr>))"

section \<open>Memberships\<close>

definition allows :: "member_access \<Rightarrow> string \<Rightarrow> u64 \<Rightarrow> bool" where
  "allows access permission now \<longleftrightarrow>
     (case ma_expires_at access of None \<Rightarrow> True | Some expiry \<Rightarrow> expiry > now)
     \<and> (''*'' \<in> ma_permissions access \<or> permission \<in> ma_permissions access)"

definition has_membership_at :: "inner \<Rightarrow> u64 \<Rightarrow> bool" where
  "has_membership_at n now =
     (case in_membership n of
        None \<Rightarrow> False
      | Some policy \<Rightarrow>
          (case map_of (mp_permissions policy) (self_id n) of
             None \<Rightarrow> False
           | Some access \<Rightarrow> (case ma_expires_at access of None \<Rightarrow> True | Some expiry \<Rightarrow> expiry > now)))"

definition membership_network_id :: "inner \<Rightarrow> string option" where
  "membership_network_id n = map_option mp_network_id (in_membership n)"

definition access_of :: "membership \<Rightarrow> member_access" where
  "access_of m = \<lparr>ma_permissions = set (mb_permissions m), ma_expires_at = mb_expires_at m\<rparr>"

fun collect_permissions ::
  "'z ledger_lib_scheme \<Rightarrow> string \<Rightarrow> node_id set \<Rightarrow> u64 \<Rightarrow> (node_id, member_access) hmap \<Rightarrow> membership list \<Rightarrow>
     ledger_error + (node_id, member_access) hmap" where
  "collect_permissions L network_id trusted now permissions [] = Inr permissions"
| "collect_permissions L network_id trusted now permissions (certificate # certificates) =
     (if mb_network_id certificate = network_id then
        bind_r (membership_verify L certificate trusted now) (\<lambda>valid.
        collect_permissions L network_id trusted now
          (if valid then AList.update (mb_member certificate) (access_of certificate) permissions else permissions)
          certificates)
      else collect_permissions L network_id trusted now permissions certificates)"

definition enforce_membership ::
  "'z ledger_lib_scheme \<Rightarrow> string \<Rightarrow> membership list \<Rightarrow> node_id set \<Rightarrow> u64 \<Rightarrow> unit nodem" where
  "enforce_membership L network_id certificates trusted_issuers now =
     bind_m (pure_m (map_err NdLedger (collect_permissions L network_id trusted_issuers now [] certificates))) (\<lambda>permissions.
     modify_n (\<lambda>n. n\<lparr>in_membership := Some \<lparr>mp_network_id = network_id, mp_permissions = permissions\<rparr>\<rparr>))"

definition grant :: "node_id \<Rightarrow> member_access \<Rightarrow> inner \<Rightarrow> inner" where
  "grant member access n =
     n\<lparr>in_membership := map_option (\<lambda>policy.
       policy\<lparr>mp_permissions := AList.update member access (mp_permissions policy)\<rparr>) (in_membership n)\<rparr>"

definition activate_invitation :: "'z ledger_lib_scheme \<Rightarrow> invitation \<Rightarrow> u64 \<Rightarrow> unit nodem" where
  "activate_invitation L i now = (\<lambda>n.
     bind_m (pure_m (map_err NdLedger (invitation_verify_for L i (self_id n) now))) (\<lambda>ok.
     if \<not> ok then pure_m (Inl (NdRejected ''persisted invitation is invalid or expired''))
     else
       let m = iv_membership i in
       bind_m (enforce_membership L (mb_network_id m) [m] {mb_issuer m} now) (\<lambda>_.
       modify_n (grant (mb_issuer m) \<lparr>ma_permissions = {''*''}, ma_expires_at = mb_expires_at m\<rparr>))) n)"

definition install_invitation :: "('h, 's, 'd, 'o) node_env \<Rightarrow> invitation \<Rightarrow> u64 \<Rightarrow> unit nodem" where
  "install_invitation E i now = (\<lambda>n.
     bind_m (pure_m (map_err NdLedger (invitation_verify_for (ne_lib E) i (self_id n) now))) (\<lambda>ok.
     if \<not> ok then pure_m (Inl (NdRejected ''invitation is invalid, expired, or addressed to another node''))
     else
       bind_m (pure_m (map_err (NdProtocol \<circ> PeJson) (to_vec (sd_invitation E) i))) (\<lambda>bytes.
       if length bytes > unat MAX_MEMBERSHIP_FILE_BYTES then pure_m (Inl (NdRejected ''invitation exceeds size limit''))
       else
         bind_m (on_fs NdIo (atomic_replace (in_membership_file n) bytes (Some (6 * 8 * 8)))) (\<lambda>_.
         activate_invitation (ne_lib E) i now))) n)"

text \<open>The entry of a known member is replaced in place, a new one is appended.\<close>

fun replace_known :: "membership \<Rightarrow> membership list \<Rightarrow> membership list option" where
  "replace_known m [] = None"
| "replace_known m (known # rest) =
     (if mb_member known = mb_member m then Some (m # rest) else map_option (Cons known) (replace_known m rest))"

definition upsert_membership :: "membership \<Rightarrow> membership list \<Rightarrow> node_error + membership list" where
  "upsert_membership m issued =
     (case replace_known m issued of
        Some candidate \<Rightarrow> Inr candidate
      | None \<Rightarrow>
          if length issued \<ge> MAX_ISSUED_MEMBERSHIPS then Inl (NdRejected ''issued membership limit exceeded'')
          else Inr (issued @ [m]))"

definition membership_bytes :: "('h, 's, 'd, 'o) node_env \<Rightarrow> membership list \<Rightarrow> node_error + bytes" where
  "membership_bytes E candidate =
     bind_r (map_err (NdProtocol \<circ> PeJson) (to_vec (sd_memberships E) candidate)) (\<lambda>bytes.
     if length bytes > unat MAX_MEMBERSHIP_FILE_BYTES then Inl (NdRejected ''issued memberships exceed size limit'')
     else Inr bytes)"

text \<open>
  The registration of a membership in two parts: the look at the revoked members, whose lock is
  released at once, and what follows under the locks of the issued memberships and of the policy.
\<close>

definition register_check :: "membership \<Rightarrow> unit nodem" where
  "register_check m = (\<lambda>n.
     (if mb_member m \<in> in_revoked_members n then Inl (NdRejected ''member has been revoked'') else Inr (), n))"

definition register_commit ::
  "('h, 's, 'd, 'o) node_env \<Rightarrow> membership \<Rightarrow> u64 \<Rightarrow> bool \<Rightarrow> unit nodem" where
  "register_commit E m now persist = (\<lambda>n.
     bind_m (pure_m (if mb_issuer m \<noteq> self_id n then Inr False
       else map_err NdLedger (membership_verify (ne_lib E) m {self_id n} now))) (\<lambda>valid.
     if \<not> valid then pure_m (Inl (NdRejected ''issued membership is not a valid local certificate''))
     else
       bind_m (pure_m (upsert_membership m (in_issued_memberships n))) (\<lambda>candidate.
       bind_m (pure_m (if persist then bind_r (membership_bytes E candidate) (\<lambda>bytes. Inr (Some bytes)) else Inr None)) (\<lambda>bytes.
       case in_membership n of
         None \<Rightarrow> pure_m (Inl NdMembershipRequired)
       | Some active \<Rightarrow>
           if mp_network_id active \<noteq> mb_network_id m
           then pure_m (Inl (NdRejected ''issued membership belongs to another network''))
           else
             bind_m (case bytes of None \<Rightarrow> pure_m (Inr ())
               | Some bytes \<Rightarrow> on_fs NdIo (atomic_replace (in_issued_memberships_file n) bytes (Some (6 * 8 * 8)))) (\<lambda>_.
             modify_n (\<lambda>n. grant (mb_member m) (access_of m) n\<lparr>in_issued_memberships := candidate\<rparr>))))) n)"

definition register_issued_membership ::
  "('h, 's, 'd, 'o) node_env \<Rightarrow> membership \<Rightarrow> u64 \<Rightarrow> bool \<Rightarrow> unit nodem" where
  "register_issued_membership E m now persist =
     bind_m (register_check m) (\<lambda>_. register_commit E m now persist)"

lemma register_issued_membership_run:
  "register_issued_membership E m now persist n =
     (if mb_member m \<in> in_revoked_members n then (Inl (NdRejected ''member has been revoked''), n)
      else register_commit E m now persist n)"
  by (simp add: register_issued_membership_def register_check_def bind_m_def)

definition issue_invitation ::
  "('h, 's, 'd, 'o) node_env \<Rightarrow> string \<Rightarrow> node_id \<Rightarrow> string list \<Rightarrow> u64 option \<Rightarrow> string list \<Rightarrow> invitation nodem" where
  "issue_invitation E network_id member permissions expires_at bootstrap =
     bind_m (node_now E) (\<lambda>now n.
     bind_m (pure_m (map_err NdLedger
       (invitation_issue (ne_lib E) network_id member permissions expires_at bootstrap now (in_identity n)))) (\<lambda>i.
     bind_m (node_now E) (\<lambda>now n.
     if has_membership_at n now then
       bind_m (node_now E) (\<lambda>now.
       bind_m (register_issued_membership E (iv_membership i) now True) (\<lambda>_. pure_m (Inr i))) n
     else (Inr i, n))) n)"

section \<open>Revocation\<close>

definition revocation_changes :: "signed_event list \<Rightarrow> (node_id \<times> bool) list" where
  "revocation_changes events =
     List.map_filter (\<lambda>event. case ev_event event of
         NodeRevoked member \<Rightarrow> Some (member, True)
       | NodeJoined member \<Rightarrow> Some (member, False)
       | _ \<Rightarrow> None) events"

definition apply_change :: "node_id set \<Rightarrow> node_id \<times> bool \<Rightarrow> node_id set" where
  "apply_change revoked change = (if snd change then insert (fst change) revoked else revoked - {fst change})"

definition apply_revocations :: "(node_id \<times> bool) list \<Rightarrow> inner \<Rightarrow> inner" where
  "apply_revocations changes n =
     (let revoked = foldl apply_change (in_revoked_members n) changes in
      n\<lparr>in_revoked_members := revoked,
        in_membership := map_option (\<lambda>policy.
          policy\<lparr>mp_permissions := hm_retain (\<lambda>member _. member \<notin> revoked) (mp_permissions policy)\<rparr>) (in_membership n)\<rparr>)"

definition append_ledger_block ::
  "'z ledger_lib_scheme \<Rightarrow> (block \<Rightarrow> ledger_error + bool) \<Rightarrow> block \<Rightarrow> unit nodem" where
  "append_ledger_block L verifies b =
     bind_m (on_ledger (ledger_append L verifies b)) (\<lambda>_.
     modify_n (apply_revocations (revocation_changes (bk_events b))))"

definition refresh_revocations_from_ledger :: "inner \<Rightarrow> inner" where
  "refresh_revocations_from_ledger n =
     apply_revocations (revocation_changes (concat (map bk_events (lg_blocks (in_ledger n))))) n"

section \<open>Start-up\<close>

definition read_bounded_file :: "path \<Rightarrow> u64 \<Rightarrow> bytes nodem" where
  "read_bounded_file path limit =
     on_fs (\<lambda>e. if e = InvalidData
         then NdRejected (''persisted metadata exceeds '' @ fmt_dec (unat limit) @ '' byte limit'') else NdIo e)
       (read_limited path (unat limit))"

text \<open>The completed tasks of the database that are still valid: signed, about their task, output present.\<close>

definition restorable ::
  "('h, 's, 'd, 'o) node_env \<Rightarrow> path \<Rightarrow> task \<Rightarrow> signed_execution_record \<Rightarrow> fs \<Rightarrow> bool \<times> fs" where
  "restorable E cas t r s =
     (if ser_verify (ne_lib E) (sd_record E) r = Inr True
         \<and> er_task_id (ser_record r) = task_id t
         \<and> er_component (ser_record r) = task_component t
         \<and> er_input (ser_record r) = task_input t
      then cas_contains (ne_lib E) cas (er_output (ser_record r)) s else (False, s))"

fun restore_completed ::
  "('h, 's, 'd, 'o) node_env \<Rightarrow> path \<Rightarrow> (string, completed_task) hmap \<Rightarrow> (task \<times> node_id \<times> signed_execution_record) list \<Rightarrow>
     fs \<Rightarrow> (string, completed_task) hmap \<times> fs" where
  "restore_completed E cas completed [] s = (completed, s)"
| "restore_completed E cas completed ((t, requester, r) # rows) s =
     (case restorable E cas t r s of (valid, s) \<Rightarrow>
        restore_completed E cas
          (if valid then AList.update (task_id t) \<lparr>ct_task = t, ct_requester = requester, ct_result = r\<rparr> completed
           else completed) rows s)"

text \<open>The first half of \<open>open\<close>, up to the node; its state is the file system and the database.\<close>

definition open_files ::
  "('h, 's, 'd, 'o) node_env \<Rightarrow> path \<Rightarrow> nat \<Rightarrow> (fs \<times> metadata, node_error, inner) action" where
  "open_files E data ticks = (\<lambda>(s, db).
     let L = ne_lib E;
         fail = (\<lambda>e s db. (Inl e, s, db))
     in
     case load_or_generate L (ne_generated_key E) (ne_nanos E) (data @ [''identity'']) s of
       (Inl e, s) \<Rightarrow> fail (NdIdentity e) s db
     | (Inr identity, s) \<Rightarrow>
     (case cas_open (data @ [''cas'']) s of
       (Inl e, s) \<Rightarrow> fail (NdStorage e) s db
     | (Inr cas, s) \<Rightarrow>
     (case create_dir_all (data @ [''metadata'']) s of
       (Inl e, s) \<Rightarrow> fail (NdMetadata MdSql) s db
     | (Inr _, s) \<Rightarrow>
     (case bind_m md_open (\<lambda>_. md_completed_tasks (ne_json E)) db of
       (Inl e, db) \<Rightarrow> fail (NdMetadata e) s db
     | (Inr rows, db) \<Rightarrow>
     (case restore_completed E cas [] rows s of (completed, s) \<Rightarrow>
     (case store_open (data @ [''state'', ''documents'']) s of
       (Inl e, s) \<Rightarrow> fail (NdState e) s db
     | (Inr state, s) \<Rightarrow>
     (case ledger_open L (data @ [''ledger'', ''blocks'']) s of
       (Inl e, s) \<Rightarrow> fail (NdLedger e) s db
     | (Inr lg, s) \<Rightarrow>
     (Inr \<lparr>in_identity = identity, in_cas = cas, in_pending = [], in_completed = completed, in_placement_counts = [],
           in_state = state, in_ledger = lg, in_membership = None, in_issued_memberships = [],
           in_revoked_members = {},
           in_request_budget = \<lparr>window_started_at = ne_clock E ticks, rb_global = 0, rb_identities = []\<rparr>,
           in_uploads = [], in_metadata = db, in_peer_cache = data @ [''metadata'', ''known-peers.json''],
           in_membership_file = data @ [''metadata'', ''membership-invitation.json''],
           in_issued_memberships_file = data @ [''metadata'', ''issued-memberships.json''],
           in_fs = s, in_ticks = ticks + 1\<rparr>, s, db))))))))"

definition path_exists_n :: "path \<Rightarrow> inner \<Rightarrow> bool \<times> inner" where
  "path_exists_n p n = (case path_exists p (in_fs n) of (there, s) \<Rightarrow> (there, n\<lparr>in_fs := s\<rparr>))"

text \<open>The loop that registers the issued memberships.\<close>

fun register_all :: "('h, 's, 'd, 'o) node_env \<Rightarrow> membership list \<Rightarrow> unit nodem" where
  "register_all E [] = pure_m (Inr ())"
| "register_all E (m # ms) =
     bind_m (node_now E) (\<lambda>now.
     bind_m (register_issued_membership E m now False) (\<lambda>_. register_all E ms))"

definition load_invitation :: "('h, 's, 'd, 'o) node_env \<Rightarrow> unit nodem" where
  "load_invitation E = (\<lambda>n.
     case path_exists_n (in_membership_file n) n of
       (False, n) \<Rightarrow> (Inr (), n)
     | (True, n) \<Rightarrow>
         bind_m (read_bounded_file (in_membership_file n) MAX_MEMBERSHIP_FILE_BYTES) (\<lambda>bytes.
         bind_m (pure_m (map_err (NdProtocol \<circ> PeJson) (from_slice (sd_invitation E) bytes))) (\<lambda>i.
         bind_m (node_now E) (\<lambda>now. activate_invitation (ne_lib E) i now))) n)"

definition load_issued :: "('h, 's, 'd, 'o) node_env \<Rightarrow> unit nodem" where
  "load_issued E = (\<lambda>n.
     case path_exists_n (in_issued_memberships_file n) n of
       (False, n) \<Rightarrow> (Inr (), n)
     | (True, n) \<Rightarrow>
         bind_m (read_bounded_file (in_issued_memberships_file n) MAX_MEMBERSHIP_FILE_BYTES) (\<lambda>bytes.
         bind_m (pure_m (map_err (NdProtocol \<circ> PeJson) (from_slice (sd_memberships E) bytes))) (\<lambda>memberships.
         if length memberships > MAX_ISSUED_MEMBERSHIPS then pure_m (Inl (NdRejected ''issued membership limit exceeded''))
         else register_all E memberships)) n)"

definition node_open ::
  "('h, 's, 'd, 'o) node_env \<Rightarrow> path \<Rightarrow> nat \<Rightarrow> fs \<times> metadata \<Rightarrow> node_error + inner" where
  "node_open E data ticks world =
     bind_r (fst (open_files E data ticks world)) (\<lambda>n.
     case bind_m (load_invitation E) (\<lambda>_. load_issued E) n of
       (Inl e, _) \<Rightarrow> Inl e
     | (Inr _, n) \<Rightarrow> Inr (refresh_revocations_from_ledger n))"

end
