(* ===== verification/Node_Handle.thy ===== *)
theory Node_Handle
  imports Node
begin

text \<open>
  The request handlers of \<open>crates/peerless-node/src/lib.rs\<close>: permissions, uploads, offers, execution,
  and the dispatch of a signed envelope.
\<close>

section \<open>Permissions\<close>

fun permission_for :: "message \<Rightarrow> string" where
  "permission_for GetCapability = ''observe''"
| "permission_for (Capability _) = ''observe''"
| "permission_for (HasContent _) = ''content''"
| "permission_for (CheckContent _) = ''content''"
| "permission_for (GetContent _) = ''content''"
| "permission_for (Content _ _) = ''content''"
| "permission_for (ContentStart _ _ _) = ''content''"
| "permission_for (ContentChunk _ _ _ _) = ''content''"
| "permission_for (ContentComplete _) = ''content''"
| "permission_for (TaskOffer _ _ _) = ''execute''"
| "permission_for (TaskAccept _) = ''execute''"
| "permission_for (TaskReject _ _) = ''execute''"
| "permission_for (TaskCommit _) = ''execute''"
| "permission_for (TaskStarted _ _) = ''execute''"
| "permission_for (TaskError _ _) = ''execute''"
| "permission_for (TaskCancel _) = ''execute''"
| "permission_for (TaskResult _) = ''execute''"
| "permission_for (StateSnapshot _ _) = ''state''"
| "permission_for (LedgerBlock _) = ''ledger''"

section \<open>Uploads\<close>

type_synonym uploads = "(node_id \<times> content_id, upload_session) hmap"

definition content_start :: "'z hash_lib_scheme \<Rightarrow> node_id \<Rightarrow> content_id \<Rightarrow> u64 \<Rightarrow> u32 \<Rightarrow> uploads \<Rightarrow> message \<times> uploads" where
  "content_start L signer i total_size chunk_size uploads =
     (let key = (signer, i);
          already_present = hm_contains uploads key;
          reserved = sum_list (map (\<lambda>(_, session). unat (us_total_size session)) (filter (\<lambda>(existing, _). existing \<noteq> key) uploads));
          valid = total_size \<le> MAX_CONTENT_SIZE
            \<and> chunk_size = of_nat CONTENT_CHUNK_SIZE
            \<and> (already_present \<or> length uploads < MAX_ACTIVE_UPLOADS)
            \<and> (let total = reserved + unat total_size in total < 2 ^ 64 \<and> total \<le> unat MAX_IN_FLIGHT_UPLOAD_BYTES)
      in
      if valid then
        let count = div_ceil (unat total_size) (unat chunk_size) in
        (HasContent i, AList.update key
          \<lparr>us_total_size = total_size, us_chunk_size = chunk_size, us_chunks = replicate count None\<rparr> uploads)
      else
        (TaskError [] (''content transfer exceeds bounded upload budget for '' @ content_display L i), uploads))"

definition content_chunk ::
  "'z hash_lib_scheme \<Rightarrow> node_id \<Rightarrow> content_id \<Rightarrow> u32 \<Rightarrow> bytes \<Rightarrow> content_id \<Rightarrow> uploads \<Rightarrow> message \<times> uploads" where
  "content_chunk L signer i index bytes chunk_hash uploads =
     (let key = (signer, i) in
      case map_of uploads key of
        Some session \<Rightarrow>
          if content_verify L chunk_hash bytes \<and> length bytes \<le> unat (us_chunk_size session)
             \<and> unat index < length (us_chunks session)
          then (HasContent chunk_hash, AList.update key
                  (session\<lparr>us_chunks := (us_chunks session)[unat index := Some bytes]\<rparr>) uploads)
          else (TaskError [] ''invalid content chunk'', AList.delete key uploads)
      | None \<Rightarrow> (TaskError [] ''invalid content chunk'', AList.delete key uploads))"

definition content_complete :: "'z hash_lib_scheme \<Rightarrow> node_id \<Rightarrow> content_id \<Rightarrow> message nodem" where
  "content_complete L signer i = (\<lambda>n.
     let session = map_of (in_uploads n) (signer, i);
         n = n\<lparr>in_uploads := AList.delete (signer, i) (in_uploads n)\<rparr>
     in case session of
          Some session \<Rightarrow>
            if list_all (\<lambda>c. c \<noteq> None) (us_chunks session) then
              let bytes = concat (List.map_filter id (us_chunks session)) in
              if length bytes = unat (us_total_size session) \<and> content_verify L i bytes then
                bind_m (on_fs NdStorage (cas_put L (in_cas n) bytes)) (\<lambda>_. pure_m (Inr (HasContent i))) n
              else (Inr (TaskError [] ''content size or final hash mismatch''), n)
            else (Inr (TaskError [] ''content transfer incomplete''), n)
        | None \<Rightarrow> (Inr (TaskError [] ''content transfer incomplete''), n))"

section \<open>Capability and offers\<close>

definition unexpired :: "u64 \<Rightarrow> pending_task \<Rightarrow> bool" where
  "unexpired now p \<longleftrightarrow> pt_running p
     \<or> (pt_lease_expires_at p > now \<and> (case task_deadline (pt_task p) of None \<Rightarrow> True | Some deadline \<Rightarrow> deadline > now))"

definition node_capability_of :: "('h, 's, 'd, 'o) node_env \<Rightarrow> inner \<Rightarrow> node_capability \<times> inner" where
  "node_capability_of E n =
     (let observed_at = ne_clock E (in_ticks n);
          h = ne_host E (in_ticks n);
          pending = hm_retain (\<lambda>_ p. unexpired observed_at p) (in_pending n);
          reserved_memory = sum_list (List.map_filter (\<lambda>(_, p). task_memory_limit (pt_task p)) pending);
          occupied_slots = length pending;
          available = f64_clamp (f64_sub (f64_lit 1) (f64_div (global_cpu_usage h) (f64_lit 100))) (F64Fin False 0) (F64Fin False 1)
      in
      (\<lparr>cap_node = self_id n,
        cpu_cores = of_nat (min (host_cpus h) 65535),
        available_cpu = available,
        available_memory = saturating_sub (saturating_sub (host_available_memory h) HOST_MEMORY_RESERVE) reserved_memory,
        available_storage = sum_list (host_disks h),
        runtimes = [''wasmtime-component-v1'', ''wasmtime-bytes-v1''],
        cap_power = PowerUnknown,
        cap_load = f64_sub (f64_lit 1) available,
        task_slots = of_nat (min (MAX_CONCURRENT_TASKS - occupied_slots) 65535),
        cap_expires_at = observed_at + 30000\<rparr>,
       n\<lparr>in_pending := pending, in_ticks := in_ticks n + 1\<rparr>))"

definition public_capability :: "('h, 's, 'd, 'o) node_env \<Rightarrow> node_capability nodem" where
  "public_capability E = bind_m (node_now E) (\<lambda>now n.
     (Inr \<lparr>cap_node = self_id n, cpu_cores = 0, available_cpu = F64Fin False 0, available_memory = 0,
           available_storage = 0, runtimes = [], cap_power = PowerUnknown, cap_load = F64Fin False 0,
           task_slots = 0, cap_expires_at = now + 30000\<rparr>, n))"

definition cas_contains_n :: "'z hash_lib_scheme \<Rightarrow> content_id \<Rightarrow> inner \<Rightarrow> bool \<times> inner" where
  "cas_contains_n L i n = (case cas_contains L (in_cas n) i (in_fs n) of (there, s) \<Rightarrow> (there, n\<lparr>in_fs := s\<rparr>))"

text \<open>The first conjunction of \<open>accept_offer\<close>; its parts are evaluated from left to right.\<close>

definition structurally_valid ::
  "('h, 's, 'd, 'o) node_env \<Rightarrow> task \<Rightarrow> node_id \<Rightarrow> u64 \<Rightarrow> node_id \<Rightarrow> inner \<Rightarrow> bool \<times> inner" where
  "structurally_valid E t requester expires_at signer n =
     (if task_id t = [] \<or> requester \<noteq> signer then (False, n)
      else
        let now = ne_clock E (in_ticks n); n = n\<lparr>in_ticks := in_ticks n + 1\<rparr> in
        if \<not> expires_at > now then (False, n)
        else
          case cas_contains_n (ne_lib E) (task_component t) n of
            (False, n) \<Rightarrow> (False, n)
          | (True, n) \<Rightarrow> cas_contains_n (ne_lib E) (task_input t) n)"

definition known_offer :: "string \<Rightarrow> bool \<Rightarrow> message" where
  "known_offer i same = (if same then TaskAccept i else TaskReject i ''task id collision'')"

definition accept_offer ::
  "('h, 's, 'd, 'o) node_env \<Rightarrow> task \<Rightarrow> node_id \<Rightarrow> u64 \<Rightarrow> node_id \<Rightarrow> message nodem" where
  "accept_offer E t requester expires_at signer = (\<lambda>n.
     let i = task_id t in
     case structurally_valid E t requester expires_at signer n of
       (False, n) \<Rightarrow> (Inr (TaskReject i ''invalid, expired, unauthorised, or content missing''), n)
     | (True, n) \<Rightarrow>
     (case map_of (in_completed n) i of
       Some existing \<Rightarrow> (Inr (known_offer i (ct_requester existing = requester \<and> ct_task existing = t)), n)
     | None \<Rightarrow>
         let observed_at = ne_clock E (in_ticks n);
             (capability, n) = node_capability_of E (n\<lparr>in_ticks := in_ticks n + 1\<rparr>)
         in
         (case map_of (in_pending n) i of
            Some existing \<Rightarrow> (Inr (known_offer i (pt_requester existing = requester \<and> pt_task existing = t)), n)
          | None \<Rightarrow>
              if \<not> eligible t capability observed_at \<or> length (in_pending n) \<ge> MAX_CONCURRENT_TASKS
              then (Inr (TaskReject i ''executor has no safe memory or task-slot capacity''), n)
              else
                bind_m (modify_n (\<lambda>n. n\<lparr>in_pending := AList.update i
                  \<lparr>pt_task = t, pt_requester = requester, pt_lease_expires_at = expires_at, pt_running = False\<rparr>
                  (in_pending n)\<rparr>)) (\<lambda>_.
                bind_m (node_now E) (\<lambda>now n.
                bind_m (on_db (md_task i ''accepted'' (Some (node_display (ne_lib E) (self_id n))) now)) (\<lambda>_.
                bind_m (node_now E) (\<lambda>now.
                bind_m (on_db (md_event now ''task.accepted'' i)) (\<lambda>_.
                pure_m (Inr (TaskAccept i))))) n)) n)))"

section \<open>Execution\<close>

text \<open>
  A commit runs in three steps, because other requests are served while the task runs: \<open>execute_begin\<close>
  answers from the cache or marks the reservation as running, \<open>execute_run\<close> does the work and
  \<open>execute_end\<close> removes the reservation whatever the outcome.
\<close>

definition execute_begin :: "('h, 's, 'd, 'o) node_env \<Rightarrow> string \<Rightarrow> node_id \<Rightarrow> (message + task) nodem" where
  "execute_begin E tid signer = (\<lambda>n.
     case map_of (in_completed n) tid of
       Some completed \<Rightarrow>
         if ct_requester completed \<noteq> signer then (Inl (NdRejected ''commit signer is not the requester''), n)
         else (Inr (Inl (TaskResult (ct_result completed))), n)
     | None \<Rightarrow>
         (case map_of (in_pending n) tid of
            None \<Rightarrow> (Inl NdUnexpectedResponse, n)
          | Some entry \<Rightarrow>
              if pt_requester entry \<noteq> signer then (Inl (NdRejected ''commit signer is not the requester''), n)
              else
                let now = ne_clock E (in_ticks n); n = n\<lparr>in_ticks := in_ticks n + 1\<rparr>;
                    (expired, n) =
                      (if pt_lease_expires_at entry \<le> now then (True, n)
                       else case task_deadline (pt_task entry) of
                         None \<Rightarrow> (False, n)
                       | Some deadline \<Rightarrow> (deadline \<le> ne_clock E (in_ticks n), n\<lparr>in_ticks := in_ticks n + 1\<rparr>))
                in
                if expired then
                  (Inl (NdRejected ''task lease or deadline expired''), n\<lparr>in_pending := AList.delete tid (in_pending n)\<rparr>)
                else if pt_running entry then (Inl (NdRejected ''task is already running''), n)
                else (Inr (Inr (pt_task entry)),
                      n\<lparr>in_pending := AList.update tid (entry\<lparr>pt_running := True\<rparr>) (in_pending n)\<rparr>)))"

definition append_ledger_event :: "('h, 's, 'd, 'o) node_env \<Rightarrow> ledger_event \<Rightarrow> unit nodem" where
  "append_ledger_event E event = (\<lambda>n.
     let L = ne_lib E in
     bind_m (pure_m (map_err NdLedger (event_seal L event (in_identity n)))) (\<lambda>signed.
     bind_m (pure_m (map_err NdLedger (quorum_new ''local'' {self_id n} 1))) (\<lambda>consensus.
     bind_m (node_now E) (\<lambda>now n.
     bind_m (pure_m (map_err NdLedger (next_block L (in_ledger n) [signed] now ''local''))) (\<lambda>b.
     case quorum_finalize L consensus b [in_identity n] of (r, b) \<Rightarrow>
       bind_m (pure_m (map_err NdLedger r)) (\<lambda>_.
       bind_m (on_ledger (ledger_append L (quorum_verify L consensus) b)) (\<lambda>_.
       pure_m (Inr ())))) n))) n)"

definition i32_from_le_bytes :: "bytes \<Rightarrow> u32 option" where
  "i32_from_le_bytes raw = (if length raw = 4 then Some (be_u32 (rev raw)) else None)"

definition i32_to_le_bytes :: "u32 \<Rightarrow> bytes" where
  "i32_to_le_bytes v = rev (u32_be v)"

definition run_task :: "('h, 's) wasmtime \<Rightarrow> task \<Rightarrow> bytes \<Rightarrow> bytes \<Rightarrow> u64 \<Rightarrow> wasm_error + bytes" where
  "run_task W t component raw memory_limit =
     (if req_runtime (task_requirements t) = ''wasmtime-bytes-v1'' then
        bind_r (bytes_parse W component) (\<lambda>m. bytes_invoke_with_limit W m ''run'' raw memory_limit)
      else
        bind_r (ok_or (WasmInvalid ''input must be one little-endian i32'') (i32_from_le_bytes raw)) (\<lambda>input.
        bind_r (i32_parse W component) (\<lambda>m.
        bind_r (i32_invoke_with_limit W m ''run'' input memory_limit) (\<lambda>output.
        Inr (i32_to_le_bytes output)))))"

definition execution_hash_of :: "'z hash_lib_scheme \<Rightarrow> content_id \<Rightarrow> content_id \<Rightarrow> content_id \<Rightarrow> content_id" where
  "execution_hash_of L component input output = content_of L (concat [digest component, digest input, digest output])"

definition execute_run :: "('h, 's, 'd, 'o) node_env \<Rightarrow> string \<Rightarrow> task \<Rightarrow> node_id \<Rightarrow> message nodem" where
  "execute_run E tid t signer =
     (let L = ne_lib E in
     bind_m (node_now E) (\<lambda>now n.
     bind_m (on_db (md_task tid ''running'' (Some (node_display L (self_id n))) now)) (\<lambda>_.
     bind_m (node_now E) (\<lambda>started_at n.
     bind_m (on_fs NdStorage (cas_get L (in_cas n) (task_component t))) (\<lambda>component.
     bind_m (on_fs NdStorage (cas_get L (in_cas n) (task_input t))) (\<lambda>raw.
     bind_m (pure_m (ok_or (NdRejected ''task memory limit is unsafe'') (task_memory_limit t))) (\<lambda>memory_limit.
     bind_m (pure_m (map_err NdWasm (run_task (ne_wasm E) t component raw memory_limit))) (\<lambda>output_bytes.
     bind_m (on_fs NdStorage (cas_put L (in_cas n) output_bytes)) (\<lambda>output.
     bind_m (node_now E) (\<lambda>completed_at n.
     let r = \<lparr>er_task_id = task_id t, er_executor = self_id n, er_component = task_component t,
              er_input = task_input t, er_output = output,
              er_execution_hash = execution_hash_of L (task_component t) (task_input t) output,
              er_started_at = started_at, er_completed_at = completed_at\<rparr>
     in
     bind_m (pure_m (map_err NdProtocol (ser_seal L (sd_record E) r (in_identity n)))) (\<lambda>signed.
     bind_m (modify_n (\<lambda>n. n\<lparr>in_completed := AList.update tid
       \<lparr>ct_task = t, ct_requester = signer, ct_result = signed\<rparr> (in_completed n)\<rparr>)) (\<lambda>_.
     bind_m (append_ledger_event E (TaskCompleted (ser_record signed))) (\<lambda>_.
     bind_m (node_now E) (\<lambda>now.
     bind_m (on_db (md_completed_task (ne_json E) L t signer signed now)) (\<lambda>_.
     bind_m (node_now E) (\<lambda>now.
     bind_m (on_db (md_event now ''task.completed'' tid)) (\<lambda>_.
     pure_m (Inr (TaskResult signed))))))))) n)))))) n)) n))"

definition execute_end :: "string \<Rightarrow> inner \<Rightarrow> inner" where
  "execute_end tid n = n\<lparr>in_pending := AList.delete tid (in_pending n)\<rparr>"

definition execute :: "('h, 's, 'd, 'o) node_env \<Rightarrow> string \<Rightarrow> node_id \<Rightarrow> message nodem" where
  "execute E tid signer =
     bind_m (execute_begin E tid signer) (\<lambda>started n.
     case started of
       Inl answer \<Rightarrow> (Inr answer, n)
     | Inr t \<Rightarrow> (case execute_run E tid t signer n of (r, n) \<Rightarrow> (r, execute_end tid n)))"

definition task_cancel :: "string \<Rightarrow> node_id \<Rightarrow> inner \<Rightarrow> message \<times> inner" where
  "task_cancel tid signer n =
     (case map_of (in_pending n) tid of
        Some p \<Rightarrow>
          if pt_requester p = signer \<and> \<not> pt_running p
          then (TaskError tid ''cancelled'', n\<lparr>in_pending := AList.delete tid (in_pending n)\<rparr>)
          else if pt_requester p = signer then (TaskError tid ''task is already running'', n)
          else (TaskError tid ''not found or not requester'', n)
      | None \<Rightarrow> (TaskError tid ''not found or not requester'', n))"

section \<open>Dispatch\<close>

definition respond :: "('h, 's, 'd, 'o) node_env \<Rightarrow> node_id \<Rightarrow> message \<Rightarrow> message nodem" where
  "respond E signer m =
     (let L = ne_lib E in
      case m of
        Content i bytes \<Rightarrow>
          if content_verify L i bytes then (\<lambda>n.
            bind_m (on_fs NdStorage (cas_put L (in_cas n) bytes)) (\<lambda>_. pure_m (Inr (HasContent i))) n)
          else pure_m (Inr (TaskReject [] ''content hash mismatch''))
      | ContentStart i total_size chunk_size \<Rightarrow> (\<lambda>n.
          case content_start L signer i total_size chunk_size (in_uploads n) of (answer, uploads) \<Rightarrow>
            (Inr answer, n\<lparr>in_uploads := uploads\<rparr>))
      | ContentChunk i index bytes chunk_hash \<Rightarrow> (\<lambda>n.
          case content_chunk L signer i index bytes chunk_hash (in_uploads n) of (answer, uploads) \<Rightarrow>
            (Inr answer, n\<lparr>in_uploads := uploads\<rparr>))
      | ContentComplete i \<Rightarrow> content_complete L signer i
      | TaskOffer t requester expires_at \<Rightarrow> accept_offer E t requester expires_at signer
      | TaskCommit tid \<Rightarrow> execute E tid signer
      | TaskCancel tid \<Rightarrow> (\<lambda>n. case task_cancel tid signer n of (answer, n) \<Rightarrow> (Inr answer, n))
      | GetContent i \<Rightarrow> (\<lambda>n.
          bind_m (on_fs NdStorage (cas_get L (in_cas n) i)) (\<lambda>bytes. pure_m (Inr (Content i bytes))) n)
      | CheckContent i \<Rightarrow> (\<lambda>n.
          case cas_contains_n L i n of (there, n) \<Rightarrow>
            (Inr (if there then HasContent i else TaskError [] ''content not found''), n))
      | GetCapability \<Rightarrow> bind_m (public_capability E) (\<lambda>c. pure_m (Inr (Capability c)))
      | StateSnapshot document snapshot \<Rightarrow> (\<lambda>n.
          bind_m (on_fs NdState (store_merge_snapshot (ne_automerge E) (in_state n) document snapshot)) (\<lambda>_.
          pure_m (Inr (HasContent (content_of L snapshot)))) n)
      | LedgerBlock _ \<Rightarrow> pure_m (Inr (TaskReject [] ''ledger block requires configured quorum verification''))
      | other \<Rightarrow> pure_m (Inr other))"

definition seal_m :: "('h, 's, 'd, 'o) node_env \<Rightarrow> message \<Rightarrow> signed_envelope nodem" where
  "seal_m E m n = (map_err NdProtocol (envelope_seal (ne_lib E) (sd_message E) m (in_identity n)), n)"

text \<open>The check of the active policy; without one every signer is served.\<close>

definition authorize :: "('h, 's, 'd, 'o) node_env \<Rightarrow> node_id \<Rightarrow> message \<Rightarrow> string option nodem" where
  "authorize E signer m = (\<lambda>n.
     case in_membership n of
       None \<Rightarrow> (Inr None, n)
     | Some policy \<Rightarrow>
         let required = permission_for m;
             denied = ''signer is not authorized for '' @ required @ '' in '' @ mp_network_id policy
         in case map_of (mp_permissions policy) signer of
              None \<Rightarrow> (Inr (Some denied), n)
            | Some access \<Rightarrow>
                bind_m (node_now E) (\<lambda>now. pure_m (Inr (if allows access required now then None else Some denied))) n)"

definition handle :: "('h, 's, 'd, 'o) node_env \<Rightarrow> signed_envelope \<Rightarrow> signed_envelope nodem" where
  "handle E envelope =
     bind_m (pure_m (map_err NdProtocol (open_with_signer (ne_lib E) (sd_message E) envelope))) (\<lambda>(m, signer).
     bind_m (node_now E) (\<lambda>now n.
     case consume_request_budget signer now (in_request_budget n) of (served, budget) \<Rightarrow>
       let n = n\<lparr>in_request_budget := budget\<rparr> in
       if \<not> served then seal_m E (TaskReject [] ''request rate limit exceeded'') n
       else
         bind_m (authorize E signer m) (\<lambda>denied.
         case denied of
           Some reason \<Rightarrow> seal_m E (TaskReject [] reason)
         | None \<Rightarrow> bind_m (respond E signer m) (\<lambda>response. seal_m E response)) n))"

text \<open>\<open>None\<close> is the panic when the node cannot sign.\<close>

definition reject_with :: "('h, 's, 'd, 'o) node_env \<Rightarrow> string \<Rightarrow> inner \<Rightarrow> signed_envelope option" where
  "reject_with E reason n =
     (case envelope_seal (ne_lib E) (sd_message E) (TaskReject [] reason) (in_identity n) of Inl _ \<Rightarrow> None | Inr e \<Rightarrow> Some e)"

definition handle_or_reject :: "('h, 's, 'd, 'o) node_env \<Rightarrow> signed_envelope \<Rightarrow> inner \<Rightarrow> signed_envelope option \<times> inner" where
  "handle_or_reject E envelope n =
     (case handle E envelope n of
        (Inr answer, n) \<Rightarrow> (Some answer, n)
      | (Inl e, n) \<Rightarrow> (reject_with E (ne_error_text E e) n, n))"

definition transport_matches :: "('h, 's, 'd, 'o) node_env \<Rightarrow> peer_id \<Rightarrow> bytes \<Rightarrow> bool" where
  "transport_matches E peer key =
     (case try_decode_protobuf (ne_lib E) key of Inl _ \<Rightarrow> False | Inr public \<Rightarrow> to_peer_id E public = peer)"

definition handle_p2p_or_reject ::
  "('h, 's, 'd, 'o) node_env \<Rightarrow> peer_id \<Rightarrow> signed_envelope \<Rightarrow> inner \<Rightarrow> signed_envelope option \<times> inner" where
  "handle_p2p_or_reject E peer envelope n =
     (if transport_matches E peer (env_public_key envelope) then handle_or_reject E envelope n
      else (reject_with E ''signed request identity differs from connected peer'' n, n))"

end
