(* ===== verification/Node_Props.thy ===== *)
theory Node_Props
  imports Node_Handle
begin

text \<open>
  Properties of the serving node: the rate limit, the bound on uploads, authorization, revocation, the
  single task slot and start-up.
\<close>

section \<open>Frames\<close>

text \<open>\<open>frame f m\<close>: the action \<open>m\<close> leaves the part \<open>f\<close> of the node alone.\<close>

definition frame :: "(inner \<Rightarrow> 'b) \<Rightarrow> (inner \<Rightarrow> 'r \<times> inner) \<Rightarrow> bool" where
  "frame f m \<longleftrightarrow> (\<forall>n. f (snd (m n)) = f n)"

named_theorems frame_intros

lemma frameD: "frame f m \<Longrightarrow> m n = (r, n') \<Longrightarrow> f n' = f n"
  unfolding frame_def by (metis snd_conv)

lemma frame_pure [frame_intros]: "frame f (pure_m r)"
  by (simp add: frame_def)

lemma frame_ret [frame_intros]: "frame f (\<lambda>n. (g n, n))"
  by (simp add: frame_def)

lemma frame_bind [frame_intros]: "frame f m \<Longrightarrow> (\<And>x. frame f (k x)) \<Longrightarrow> frame f (bind_m m k)"
  unfolding frame_def bind_m_def by (auto split: prod.splits sum.splits) (metis snd_conv)+

text \<open>Binding where the continuation is applied to the current state.\<close>

lemma frame_apply: "(\<And>n. frame f (k n)) \<Longrightarrow> frame f (\<lambda>n. k n n)"
  unfolding frame_def by blast

lemma frame_here:
  "(\<And>n. frame f (bind_m (m n) (k n))) \<Longrightarrow> frame f (\<lambda>n. bind_m (m n) (k n) n)"
  "(\<And>n r b. frame f (j n r b)) \<Longrightarrow> frame f (\<lambda>n. case p n of (r, b) \<Rightarrow> j n r b n)"
  unfolding frame_def by (auto split: prod.splits)

lemma frame_if [frame_intros]: "frame f a \<Longrightarrow> frame f b \<Longrightarrow> frame f (if c then a else b)"
  by simp

section \<open>Request budgets\<close>

text \<open>The signers served, in order, for a sequence of requests with their times.\<close>

fun serve_all :: "request_budget \<Rightarrow> (node_id \<times> u64) list \<Rightarrow> node_id list" where
  "serve_all b [] = []"
| "serve_all b ((who, now) # rest) =
     (case consume_request_budget who now b of (served, b) \<Rightarrow>
        if served then who # serve_all b rest else serve_all b rest)"

definition used_by :: "request_budget \<Rightarrow> node_id \<Rightarrow> nat" where
  "used_by b who = unat (case map_of (rb_identities b) who of None \<Rightarrow> 0 | Some c \<Rightarrow> c)"

text \<open>A request inside the window: the window stays, and what was left of the budgets shrinks.\<close>

lemma consume_inside:
  assumes "consume_request_budget signer now b = (served, b')"
    and "saturating_sub now (window_started_at b) < REQUEST_WINDOW_MILLIS"
  shows "window_started_at b' = window_started_at b"
    and "served \<Longrightarrow> used_by b signer < 4096 \<and> used_by b' signer = Suc (used_by b signer)
      \<and> unat (rb_global b) < 16384 \<and> unat (rb_global b') = Suc (unat (rb_global b))"
    and "who \<noteq> signer \<or> \<not> served \<Longrightarrow> used_by b' who = used_by b who"
    and "\<not> served \<Longrightarrow> rb_global b' = rb_global b"
proof -
  have inc: "unat (c + 1) = Suc (unat c)" if "unat c < 16384" for c :: u32
    using that by (subst unat_add_lem [THEN iffD1]) (auto simp: unat_word_ariths)
  note [simp] = MAX_REQUESTS_PER_IDENTITY_PER_WINDOW_def MAX_REQUESTS_GLOBAL_PER_WINDOW_def
  note u = assms(1)[unfolded consume_request_budget_def Let_def] assms(2)
  show "window_started_at b' = window_started_at b"
    using u by (auto split: if_splits)
  show "served \<Longrightarrow> used_by b signer < 4096 \<and> used_by b' signer = Suc (used_by b signer)
      \<and> unat (rb_global b) < 16384 \<and> unat (rb_global b') = Suc (unat (rb_global b))"
    using u by (auto simp: used_by_def word_less_nat_alt word_le_nat_alt not_le not_less inc split: if_splits option.splits)
  show "who \<noteq> signer \<or> \<not> served \<Longrightarrow> used_by b' who = used_by b who"
    using u by (auto simp: used_by_def split: if_splits option.splits)
  show "\<not> served \<Longrightarrow> rb_global b' = rb_global b"
    using u by (auto split: if_splits)
qed

lemma serve_inside:
  assumes "\<forall>(_, now) \<in> set rs. saturating_sub now (window_started_at b) < REQUEST_WINDOW_MILLIS"
  shows "count_list (serve_all b rs) who \<le> 4096 - used_by b who \<and> length (serve_all b rs) \<le> 16384 - unat (rb_global b)"
  using assms
proof (induction rs arbitrary: b)
  case (Cons r rs)
  obtain signer now served b' where r: "r = (signer, now)" "consume_request_budget signer now b = (served, b')"
    by (metis surj_pair)
  have inside: "saturating_sub now (window_started_at b) < REQUEST_WINDOW_MILLIS" using Cons.prems r(1) by simp
  note c = consume_inside [OF r(2) inside]
  have "\<forall>(_, now) \<in> set rs. saturating_sub now (window_started_at b') < REQUEST_WINDOW_MILLIS"
    using Cons.prems c(1) by simp
  note ih = Cons.IH [OF this]
  show ?case using ih c(2) c(3) [of who] c(4) by (cases served; cases "who = signer") (auto simp: r)
qed simp

text \<open>A request that opens a new window is served from the fresh budget.\<close>

definition fresh_budget :: "u64 \<Rightarrow> request_budget" where
  "fresh_budget now = \<lparr>window_started_at = now, rb_global = 0, rb_identities = []\<rparr>"

lemma consume_reset:
  assumes "REQUEST_WINDOW_MILLIS \<le> saturating_sub now (window_started_at b)"
  shows "consume_request_budget signer now b = consume_request_budget signer now (fresh_budget now)"
  using assms by (simp add: consume_request_budget_def fresh_budget_def saturating_sub_def REQUEST_WINDOW_MILLIS_def)

lemma serve_minute:
  assumes "\<forall>(_, now) \<in> set rs. start \<le> now \<and> unat now < unat start + 60000"
  shows "count_list (serve_all b rs) who \<le> (4096 - used_by b who) + 4096
    \<and> length (serve_all b rs) \<le> (16384 - unat (rb_global b)) + 16384"
  using assms
proof (induction rs arbitrary: b)
  case (Cons r rs)
  obtain signer now served b' where r: "r = (signer, now)" "consume_request_budget signer now b = (served, b')"
    by (metis surj_pair)
  show ?case
  proof (cases "saturating_sub now (window_started_at b) < REQUEST_WINDOW_MILLIS")
    case True
    note c = consume_inside [OF r(2) True]
    show ?thesis using Cons.IH [of b'] Cons.prems c(2) c(3) [of who] c(4)
      by (cases served; cases "who = signer") (auto simp: r)
  next
    case False
    then have "serve_all b (r # rs) = serve_all (fresh_budget now) (r # rs)"
      using consume_reset [of now b signer] by (simp add: r not_less)
    moreover have "\<forall>(_, t) \<in> set (r # rs). saturating_sub t (window_started_at (fresh_budget now)) < REQUEST_WINDOW_MILLIS"
    proof clarify
      fix w t
      assume "(w, t) \<in> set (r # rs)"
      then have "unat t < unat start + 60000" "start \<le> now" using Cons.prems by (auto simp: r)
      then show "saturating_sub t (window_started_at (fresh_budget now)) < REQUEST_WINDOW_MILLIS"
        by (simp add: fresh_budget_def saturating_sub_def REQUEST_WINDOW_MILLIS_def word_less_nat_alt word_le_nat_alt unat_sub)
          linarith
    qed
    ultimately show ?thesis using serve_inside [of "r # rs" "fresh_budget now" who]
      by (simp add: fresh_budget_def used_by_def)
  qed
qed simp

text \<open>
  C28: The rate limit bounds every minute. Whatever the state of the budget and whoever signs the
  requests, among requests whose times lie within 60 seconds at most 8,192 of one signer and 32,768 in
  all are served: twice the limits of a window, because a minute meets at most two windows.
\<close>

theorem requests_per_minute_bounded:
  assumes "\<forall>(_, now) \<in> set rs. start \<le> now \<and> unat now < unat start + 60000"
  shows "count_list (serve_all b rs) who \<le> 2 * unat MAX_REQUESTS_PER_IDENTITY_PER_WINDOW
    \<and> length (serve_all b rs) \<le> 2 * unat MAX_REQUESTS_GLOBAL_PER_WINDOW"
  using serve_minute [OF assms, of b who]
  by (simp add: MAX_REQUESTS_PER_IDENTITY_PER_WINDOW_def MAX_REQUESTS_GLOBAL_PER_WINDOW_def) linarith

theorem requests_per_minute_bounded_witness:
  "serve_all (fresh_budget 5) [(NodeId [1], 70000), (NodeId [2], 70001)] = [NodeId [1], NodeId [2]]
   \<and> count_list (serve_all (fresh_budget 5) [(NodeId [1], 70000), (NodeId [2], 70001)]) (NodeId [1])
     \<le> 2 * unat MAX_REQUESTS_PER_IDENTITY_PER_WINDOW"
proof
  show "serve_all (fresh_budget 5) [(NodeId [1], 70000), (NodeId [2], 70001)] = [NodeId [1], NodeId [2]]"
    by code_simp
  show "count_list (serve_all (fresh_budget 5) [(NodeId [1], 70000), (NodeId [2], 70001)]) (NodeId [1])
     \<le> 2 * unat MAX_REQUESTS_PER_IDENTITY_PER_WINDOW"
    using requests_per_minute_bounded [of "[(NodeId [1], 70000), (NodeId [2], 70001)]" 70000 "fresh_budget 5" "NodeId [1]"]
    by simp
qed

section \<open>Uploads\<close>

lemma frame_now [frame_intros]: "(\<And>n k. f (n\<lparr>in_ticks := k\<rparr>) = f n) \<Longrightarrow> frame f (node_now E)"
  by (simp add: frame_def node_now_def)

lemma frame_on_fs [frame_intros]: "(\<And>n s. f (n\<lparr>in_fs := s\<rparr>) = f n) \<Longrightarrow> frame f (on_fs g m)"
  by (simp add: frame_def on_fs_def split: prod.splits)

lemma frame_on_db [frame_intros]: "(\<And>n s. f (n\<lparr>in_metadata := s\<rparr>) = f n) \<Longrightarrow> frame f (on_db m)"
  by (simp add: frame_def on_db_def split: prod.splits)

lemma frame_on_ledger [frame_intros]: "(\<And>n lg s. f (n\<lparr>in_ledger := lg, in_fs := s\<rparr>) = f n) \<Longrightarrow> frame f (on_ledger m)"
  by (simp add: frame_def on_ledger_def split: prod.splits)

lemma frame_modify [frame_intros]: "(\<And>n. f (g n) = f n) \<Longrightarrow> frame f (modify_n g)"
  by (simp add: frame_def modify_n_def)

lemma frame_seal [frame_intros]: "frame f (seal_m E m)"
  by (simp add: frame_def seal_m_def)

lemma cas_contains_n_frame: "(\<And>n s. f (n\<lparr>in_fs := s\<rparr>) = f n) \<Longrightarrow> f (snd (cas_contains_n L i n)) = f n"
  by (simp add: cas_contains_n_def split: prod.splits)

lemma structurally_valid_frame:
  assumes "\<And>n s. f (n\<lparr>in_fs := s\<rparr>) = f n" "\<And>n k. f (n\<lparr>in_ticks := k\<rparr>) = f n"
  shows "f (snd (structurally_valid E t q e signer n)) = f n"
proof -
  note c = cas_contains_n_frame [of f, OF assms(1)]
  obtain b m where b: "cas_contains_n (ne_lib E) (task_component t) (n\<lparr>in_ticks := Suc (in_ticks n)\<rparr>) = (b, m)" by fastforce
  have "f m = f n" using c [of "ne_lib E" "task_component t" "n\<lparr>in_ticks := Suc (in_ticks n)\<rparr>"] unfolding b by (simp add: assms(2))
  then show ?thesis
    using c [of "ne_lib E" "task_input t" m] assms(2) by (cases b) (simp_all add: structurally_valid_def Let_def b)
qed

lemma append_ledger_event_frame [frame_intros]:
  assumes "\<And>n lg s. f (n\<lparr>in_ledger := lg, in_fs := s\<rparr>) = f n" "\<And>n k. f (n\<lparr>in_ticks := k\<rparr>) = f n"
  shows "frame f (append_ledger_event E event)"
  by (auto simp add: frame_def append_ledger_event_def bind_m_def node_now_def on_ledger_def Let_def assms
      split: sum.splits prod.splits)

text \<open>The handlers that leave uploads and the budget alone.\<close>

lemma accept_offer_frame:
  assumes "\<And>n s. f (n\<lparr>in_fs := s\<rparr>) = f n" "\<And>n k. f (n\<lparr>in_ticks := k\<rparr>) = f n"
    and "\<And>n s. f (n\<lparr>in_metadata := s\<rparr>) = f n" "\<And>n p. f (n\<lparr>in_pending := p\<rparr>) = f n"
  shows "f (snd (accept_offer E t q e signer n)) = f n"
proof -
  obtain b m where b: "structurally_valid E t q e signer n = (b, m)" by fastforce
  have m: "f m = f n" using structurally_valid_frame [of f E t q e signer n, OF assms(1,2)] by (simp add: b)
  show ?thesis
    using m by (cases b) (auto simp: accept_offer_def b Let_def node_capability_of_def bind_m_def modify_n_def
      node_now_def on_db_def assms split: option.splits sum.splits prod.splits)
qed

lemma execute_begin_frame:
  assumes "\<And>n k. f (n\<lparr>in_ticks := k\<rparr>) = f n" "\<And>n p. f (n\<lparr>in_pending := p\<rparr>) = f n"
  shows "frame f (execute_begin E tid signer)"
  unfolding frame_def execute_begin_def Let_def by (auto simp: assms split: option.splits)

lemma execute_run_frame:
  assumes "\<And>n s. f (n\<lparr>in_fs := s\<rparr>) = f n" "\<And>n k. f (n\<lparr>in_ticks := k\<rparr>) = f n"
    and "\<And>n s. f (n\<lparr>in_metadata := s\<rparr>) = f n" "\<And>n c. f (n\<lparr>in_completed := c\<rparr>) = f n"
    and "\<And>r. frame f (append_ledger_event E (TaskCompleted r))"
  shows "frame f (execute_run E tid t signer)"
  unfolding execute_run_def Let_def
  by (rule frame_bind frame_pure frame_now frame_on_fs frame_on_db frame_modify assms
      | rule frame_here(1))+

lemma execute_frame:
  assumes "\<And>n s. f (n\<lparr>in_fs := s\<rparr>) = f n" "\<And>n k. f (n\<lparr>in_ticks := k\<rparr>) = f n"
    and "\<And>n s. f (n\<lparr>in_metadata := s\<rparr>) = f n" "\<And>n c. f (n\<lparr>in_completed := c\<rparr>) = f n"
    and "\<And>r. frame f (append_ledger_event E (TaskCompleted r))" "\<And>n p. f (n\<lparr>in_pending := p\<rparr>) = f n"
  shows "frame f (execute E tid signer)"
  unfolding execute_def
proof (rule frame_bind [OF execute_begin_frame [of f, OF assms(2,6)]])
  fix started :: "message + task"
  have "f (snd (execute_run E tid t signer n)) = f n" for t n
    using execute_run_frame [of f, OF assms(1-5)] unfolding frame_def by blast
  then show "frame f (\<lambda>n. case started of Inl answer \<Rightarrow> (Inr answer, n)
      | Inr t \<Rightarrow> (case execute_run E tid t signer n of (r, n) \<Rightarrow> (r, execute_end tid n)))"
    by (cases started) (simp_all add: frame_def execute_end_def assms(6) case_prod_unfold)
qed

definition session_ok :: "upload_session \<Rightarrow> bool" where
  "session_ok s \<longleftrightarrow> us_chunk_size s = 65536 \<and> length (us_chunks s) = div_ceil (unat (us_total_size s)) 65536
     \<and> (\<forall>b. Some b \<in> set (us_chunks s) \<longrightarrow> length b \<le> 65536)"

definition reserved_bytes :: "uploads \<Rightarrow> nat" where
  "reserved_bytes u = sum_list (map (\<lambda>(_, s). unat (us_total_size s)) u)"

definition buffered_bytes :: "uploads \<Rightarrow> nat" where
  "buffered_bytes u = sum_list (map (\<lambda>(_, s). sum_list (map (\<lambda>c. case c of None \<Rightarrow> 0 | Some b \<Rightarrow> length b) (us_chunks s))) u)"

definition uploads_ok :: "uploads \<Rightarrow> bool" where
  "uploads_ok u \<longleftrightarrow> hm_wf u \<and> length u \<le> MAX_ACTIVE_UPLOADS \<and> reserved_bytes u \<le> unat MAX_IN_FLIGHT_UPLOAD_BYTES
     \<and> (\<forall>(k, s) \<in> set u. session_ok s)"

lemma div_ceil_times: "div_ceil a b * b \<le> a + (b - 1)"
  using div_mult_mod_eq [of a b] mod_less_divisor [of b a] by (cases b) (auto simp: div_ceil_def algebra_simps)

lemma session_buffer:
  assumes "session_ok s"
  shows "sum_list (map (\<lambda>c. case c of None \<Rightarrow> 0 | Some b \<Rightarrow> length b) (us_chunks s)) \<le> unat (us_total_size s) + 65535"
proof -
  have "(case c of None \<Rightarrow> 0 | Some b \<Rightarrow> length b) \<le> 65536" if "c \<in> set (us_chunks s)" for c
    using assms that by (auto simp: session_ok_def split: option.splits)
  from sum_list_mono [OF this]
  have "sum_list (map (\<lambda>c. case c of None \<Rightarrow> 0 | Some b \<Rightarrow> length b) (us_chunks s)) \<le> length (us_chunks s) * 65536"
    by (simp add: sum_list_triv)
  also have "\<dots> \<le> unat (us_total_size s) + 65535"
    using assms div_ceil_times [of "unat (us_total_size s)" 65536] by (simp add: session_ok_def)
  finally show ?thesis .
qed

lemma buffered_bound:
  assumes "\<forall>(k, s) \<in> set u. session_ok s"
  shows "buffered_bytes u \<le> reserved_bytes u + length u * 65535"
  using assms
proof (induction u)
  case (Cons x u)
  obtain k s where x: "x = (k, s)" by fastforce
  with Cons show ?case using session_buffer [of s] by (auto simp: buffered_bytes_def reserved_bytes_def)
qed (simp add: buffered_bytes_def)

lemma reserved_simps [simp]:
  "reserved_bytes [] = 0" "reserved_bytes ((k, s) # u) = unat (us_total_size s) + reserved_bytes u"
  by (simp_all add: reserved_bytes_def)

lemma reserved_delete:
  assumes "hm_wf u"
  shows "reserved_bytes u = reserved_bytes (AList.delete k u) + (case map_of u k of None \<Rightarrow> 0 | Some s \<Rightarrow> unat (us_total_size s))"
  using assms
proof (induction u)
  case (Cons x u)
  obtain k' s where x: "x = (k', s)" by fastforce
  have wf: "hm_wf u" using Cons.prems by (simp add: hm_wf_def)
  show ?case
  proof (cases "k' = k")
    case True
    then have "map_of u k = None" using Cons.prems x by (auto simp: hm_wf_def map_of_eq_None_iff)
    then show ?thesis using Cons.IH [OF wf] by (simp add: x True)
  next
    case False
    then show ?thesis using Cons.IH [OF wf] by (simp add: x)
  qed
qed simp

lemma reserved_update:
  assumes "hm_wf u"
  shows "reserved_bytes (AList.update k s u) = reserved_bytes (AList.delete k u) + unat (us_total_size s)"
proof -
  have "AList.delete k (AList.update k s u) = AList.delete k u" by (induction u) auto
  with reserved_delete [of "AList.update k s u" k] assms show ?thesis by simp
qed

lemma sessions_update:
  assumes "hm_wf u" "\<forall>(k, s) \<in> set u. session_ok s" "session_ok s"
  shows "\<forall>(k, s) \<in> set (AList.update k s u). session_ok s"
  using assms by (simp add: hm_forall_iff)

lemma sessions_delete: "\<forall>(k, s) \<in> set u. session_ok s \<Longrightarrow> \<forall>(k, s) \<in> set (AList.delete k u). session_ok s"
  by (auto simp: AList.delete_eq)

lemma uploads_ok_delete: "uploads_ok u \<Longrightarrow> uploads_ok (AList.delete k u)"
  using reserved_delete [of u k] length_delete_le [of k u] sessions_delete [of u k] by (auto simp: uploads_ok_def)

lemma content_start_ok:
  assumes "uploads_ok u"
  shows "uploads_ok (snd (content_start L signer i tot chunk u))"
proof (cases "snd (content_start L signer i tot chunk u) = u")
  case False
  let ?key = "(signer, i)" and ?s = "\<lparr>us_total_size = tot, us_chunk_size = chunk, us_chunks = replicate (div_ceil (unat tot) (unat chunk)) None\<rparr>"
  have eq: "snd (content_start L signer i tot chunk u) = AList.update ?key ?s u"
    and chunk: "chunk = of_nat CONTENT_CHUNK_SIZE"
    and room: "hm_contains u ?key \<or> length u < MAX_ACTIVE_UPLOADS"
    and budget: "sum_list (map (\<lambda>(_, s). unat (us_total_size s)) (filter (\<lambda>(k, _). k \<noteq> ?key) u)) + unat tot
      \<le> unat MAX_IN_FLIGHT_UPLOAD_BYTES"
    using False by (auto simp: content_start_def Let_def split: if_splits)
  have "AList.delete ?key u = filter (\<lambda>(k, _). k \<noteq> ?key) u"
    by (simp add: AList.delete_eq case_prod_unfold eq_commute [of ?key])
  with budget have "reserved_bytes (AList.delete ?key u) + unat tot \<le> unat MAX_IN_FLIGHT_UPLOAD_BYTES"
    by (simp add: reserved_bytes_def)
  moreover have "session_ok ?s" by (simp add: session_ok_def chunk CONTENT_CHUNK_SIZE_def)
  moreover have "length (AList.update ?key ?s u) \<le> MAX_ACTIVE_UPLOADS"
    using assms room by (auto simp: length_update uploads_ok_def)
  ultimately show ?thesis
    using assms sessions_update [of u ?s ?key] by (simp add: eq uploads_ok_def reserved_update)
qed (use assms in simp)

lemma content_chunk_ok:
  assumes "uploads_ok u"
  shows "uploads_ok (snd (content_chunk L signer i index bytes h u))"
proof (cases "snd (content_chunk L signer i index bytes h u) = AList.delete (signer, i) u")
  case True
  then show ?thesis using uploads_ok_delete [OF assms] by simp
next
  case False
  then obtain s where s: "map_of u (signer, i) = Some s" "length bytes \<le> unat (us_chunk_size s)"
    and eq: "snd (content_chunk L signer i index bytes h u)
      = AList.update (signer, i) (s\<lparr>us_chunks := (us_chunks s)[unat index := Some bytes]\<rparr>) u"
    by (auto simp: content_chunk_def Let_def split: option.splits if_splits)
  have wf: "hm_wf u" and ok: "session_ok s"
    using assms s(1) by (auto simp: uploads_ok_def hm_forall_iff)
  have "session_ok (s\<lparr>us_chunks := (us_chunks s)[unat index := Some bytes]\<rparr>)"
    using ok s(2) set_update_subset_insert [of "us_chunks s" "unat index" "Some bytes"] by (auto simp: session_ok_def)
  then show ?thesis
    using assms wf s(1) reserved_delete [OF wf, of "(signer, i)"] sessions_update [OF wf]
    by (simp add: eq uploads_ok_def reserved_update length_update hm_contains_def)
qed

lemma respond_uploads_ok:
  assumes "uploads_ok (in_uploads n)"
  shows "uploads_ok (in_uploads (snd (respond E signer m n)))"
proof (cases m)
  case (Content i bytes)
  then show ?thesis using assms by (auto simp: respond_def Let_def bind_m_def on_fs_def split: sum.splits prod.splits)
next
  case (ContentStart i tot chunk)
  then show ?thesis using content_start_ok [OF assms, of "ne_lib E" signer i tot chunk]
    by (simp add: respond_def Let_def case_prod_unfold)
next
  case (ContentChunk i index bytes h)
  then show ?thesis using content_chunk_ok [OF assms, of "ne_lib E" signer i index bytes h]
    by (simp add: respond_def Let_def case_prod_unfold)
next
  case (ContentComplete i)
  then show ?thesis using uploads_ok_delete [OF assms, of "(signer, i)"]
    by (auto simp: respond_def content_complete_def Let_def bind_m_def on_fs_def split: option.splits sum.splits prod.splits)
next
  case (TaskOffer t q e)
  then show ?thesis using assms accept_offer_frame [of in_uploads E t q e signer n] by (simp add: respond_def)
next
  case (TaskCommit tid)
  have "frame in_uploads (execute E tid signer)"
    by (rule execute_frame) (simp_all add: append_ledger_event_frame)
  then show ?thesis using assms TaskCommit by (simp add: respond_def frame_def)
next
  case (TaskCancel tid)
  then show ?thesis using assms by (simp add: respond_def task_cancel_def split: option.splits)
next
  case (CheckContent i)
  then show ?thesis using assms cas_contains_n_frame [of in_uploads "ne_lib E" i n]
    by (simp add: respond_def Let_def case_prod_unfold)
qed (use assms in \<open>auto simp: respond_def Let_def bind_m_def on_fs_def public_capability_def node_now_def split: sum.splits prod.splits\<close>)

lemma respond_frame:
  assumes "\<And>n s. f (n\<lparr>in_fs := s\<rparr>) = f n" "\<And>n k. f (n\<lparr>in_ticks := k\<rparr>) = f n"
    and "\<And>n s. f (n\<lparr>in_metadata := s\<rparr>) = f n" "\<And>n c. f (n\<lparr>in_completed := c\<rparr>) = f n"
    and "\<And>r. frame f (append_ledger_event E (TaskCompleted r))" "\<And>n p. f (n\<lparr>in_pending := p\<rparr>) = f n"
    and "\<And>n u. f (n\<lparr>in_uploads := u\<rparr>) = f n"
  shows "f (snd (respond E signer m n)) = f n"
proof (cases m)
  case (TaskOffer t q e)
  then show ?thesis using accept_offer_frame [of f E t q e signer n, OF assms(1,2,3,6)] by (simp add: respond_def)
next
  case (TaskCommit tid)
  then show ?thesis using execute_frame [of f E tid signer, OF assms(1-6)] by (simp add: respond_def frame_def)
next
  case (CheckContent i)
  then show ?thesis using cas_contains_n_frame [of f "ne_lib E" i n, OF assms(1)]
    by (simp add: respond_def Let_def case_prod_unfold)
qed (auto simp: respond_def Let_def bind_m_def on_fs_def public_capability_def node_now_def content_complete_def task_cancel_def
      assms(1,2,6,7) split: option.splits sum.splits prod.splits)

lemma authorize_state:
  obtains d k where "authorize E signer m n = (Inr d, n\<lparr>in_ticks := k\<rparr>)"
    "d = None \<longleftrightarrow> (case in_membership n of None \<Rightarrow> True | Some policy \<Rightarrow>
       (case map_of (mp_permissions policy) signer of None \<Rightarrow> False
        | Some access \<Rightarrow> allows access (permission_for m) (ne_clock E (in_ticks n))))"
proof (cases "in_membership n")
  case None
  then show ?thesis using that [of None "in_ticks n"] by (simp add: authorize_def)
next
  case (Some policy)
  show ?thesis
  proof (cases "map_of (mp_permissions policy) signer")
    case None
    then show ?thesis using Some that [of _ "in_ticks n"] by (simp add: authorize_def Let_def)
  next
    case acc: (Some access)
    show ?thesis
      using Some acc that [of _ "in_ticks n + 1"] by (simp add: authorize_def Let_def bind_m_def node_now_def)
  qed
qed

text \<open>What a request does to the node: nothing but its clock and budget, or what \<open>respond\<close> does after that.\<close>

lemma handle_run:
  assumes "open_with_signer (ne_lib E) (sd_message E) envelope = Inr (m, signer)"
    and "consume_request_budget signer (ne_clock E (in_ticks n)) (in_request_budget n) = (served, b)"
    and "authorize E signer m (n\<lparr>in_ticks := in_ticks n + 1, in_request_budget := b\<rparr>) = (Inr d, n')"
  shows "handle E envelope n =
    (if \<not> served then seal_m E (TaskReject [] ''request rate limit exceeded'') (n\<lparr>in_ticks := in_ticks n + 1, in_request_budget := b\<rparr>)
     else case d of Some reason \<Rightarrow> seal_m E (TaskReject [] reason) n'
       | None \<Rightarrow> bind_m (respond E signer m) (\<lambda>response. seal_m E response) n')"
  using assms by (auto simp: handle_def node_now_def bind_m_run Let_def bind_m_run(1) [where m = "node_now E"] split: option.splits)

lemma handle_cases:
  obtains (Refused) e where "handle E envelope n = (Inl e, n)"
  | (Rejected) reason b k where "handle E envelope n = seal_m E (TaskReject [] reason) (n\<lparr>in_ticks := k, in_request_budget := b\<rparr>)"
  | (Served) m signer b k where "open_with_signer (ne_lib E) (sd_message E) envelope = Inr (m, signer)"
      "handle E envelope n = bind_m (respond E signer m) (\<lambda>response. seal_m E response) (n\<lparr>in_ticks := k, in_request_budget := b\<rparr>)"
proof (cases "open_with_signer (ne_lib E) (sd_message E) envelope")
  case (Inl e)
  then show ?thesis using Refused by (simp add: handle_def)
next
  case (Inr ms)
  obtain m signer where ms: "ms = (m, signer)" by fastforce
  obtain served b where c: "consume_request_budget signer (ne_clock E (in_ticks n)) (in_request_budget n) = (served, b)" by fastforce
  obtain d k where "authorize E signer m (n\<lparr>in_ticks := in_ticks n + 1, in_request_budget := b\<rparr>)
      = (Inr d, n\<lparr>in_ticks := in_ticks n + 1, in_request_budget := b\<rparr>\<lparr>in_ticks := k\<rparr>)"
    by (rule authorize_state)
  moreover have "n\<lparr>in_ticks := in_ticks n + 1, in_request_budget := b\<rparr>\<lparr>in_ticks := k\<rparr> = n\<lparr>in_ticks := k, in_request_budget := b\<rparr>"
    by (cases n) simp
  ultimately have a: "authorize E signer m (n\<lparr>in_ticks := in_ticks n + 1, in_request_budget := b\<rparr>)
      = (Inr d, n\<lparr>in_ticks := k, in_request_budget := b\<rparr>)" by metis
  note run = handle_run [OF Inr [unfolded ms] c a]
  show ?thesis
    using Rejected [of _ b "in_ticks n + 1"] Rejected [of _ b k] Served [OF Inr [unfolded ms], of b k] run
    by (cases served; cases d) simp_all
qed

lemma seal_m_state [simp]: "snd (seal_m E m n) = n"
  by (simp add: seal_m_def)

lemma respond_seal_state: "snd (bind_m (respond E signer m) (\<lambda>response. seal_m E response) n) = snd (respond E signer m n)"
  by (auto simp: bind_m_def split: prod.splits sum.splits)

definition handle_step :: "('h, 's, 'd, 'o) node_env \<Rightarrow> inner \<Rightarrow> signed_envelope \<Rightarrow> inner" where
  "handle_step E n envelope = snd (handle E envelope n)"

lemma handle_uploads_ok:
  assumes "uploads_ok (in_uploads n)"
  shows "uploads_ok (in_uploads (handle_step E n envelope))"
  by (rule handle_cases [of E envelope n])
     (use assms in \<open>simp_all add: handle_step_def respond_seal_state respond_uploads_ok\<close>)

interpretation serving: state_machine "handle_step E" "\<lambda>n. in_uploads n = []" "\<lambda>n. uploads_ok (in_uploads n)" for E
  by (unfold_locales, simp add: uploads_ok_def, rule handle_uploads_ok)

text \<open>
  C29: Uploads cannot exhaust the node. From a node without uploads, whatever envelopes arrive, in any
  order and from anyone: at most four uploads are open, they announce at most 512 MiB together, and the
  chunks held for them are at most 512 MiB and a chunk each.
\<close>

theorem uploads_bounded:
  assumes "in_uploads n = []"
  shows "let u = in_uploads (foldl (handle_step E) n envelopes) in
    length u \<le> MAX_ACTIVE_UPLOADS \<and> reserved_bytes u \<le> unat MAX_IN_FLIGHT_UPLOAD_BYTES
    \<and> buffered_bytes u \<le> unat MAX_IN_FLIGHT_UPLOAD_BYTES + MAX_ACTIVE_UPLOADS * CONTENT_CHUNK_SIZE"
proof -
  let ?u = "in_uploads (foldl (handle_step E) n envelopes)"
  have ok: "uploads_ok ?u" by (rule serving.reachable_inv [OF assms])
  then have "buffered_bytes ?u \<le> reserved_bytes ?u + length ?u * 65535" by (simp add: uploads_ok_def buffered_bound)
  also have "\<dots> \<le> unat MAX_IN_FLIGHT_UPLOAD_BYTES + MAX_ACTIVE_UPLOADS * CONTENT_CHUNK_SIZE"
    using ok by (intro add_mono mult_mono) (simp_all add: uploads_ok_def CONTENT_CHUNK_SIZE_def)
  finally show ?thesis using ok by (simp add: uploads_ok_def Let_def)
qed

section \<open>A concrete node\<close>

definition demo_env :: "message list \<Rightarrow> membership list \<Rightarrow> (nat \<Rightarrow> u64) \<Rightarrow> (unit, nat \<times> bool \<times> bytes, bytes, unit) node_env" where
  "demo_env messages memberships clock = \<lparr>ne_lib = demo_lib,
     ne_json = \<lparr>sd_task = table_serde [], sd_node_id = table_serde [], sd_signed_record = table_serde []\<rparr>,
     sd_message = table_serde messages, sd_record = table_serde [], sd_envelope = table_serde [], sd_invitation = table_serde [],
     sd_memberships = table_serde [memberships], ne_wasm = echo_wasmtime, ne_automerge = list_automerge, ne_clock = clock,
     ne_host = (\<lambda>_. \<lparr>global_cpu_usage = F64Fin False 0, host_cpus = 1, host_available_memory = 2 ^ 33, host_disks = [2 ^ 30]\<rparr>),
     ne_error_text = (\<lambda>_. ''error''), to_peer_id = (\<lambda>k. PeerId (public_material k)), ne_elapsed_ms = (\<lambda>_. F64Fin False 1),
     ne_into_iter = id, ne_generated_key = Keypair [1], ne_nanos = 0\<rparr>"

definition demo_node :: "membership_policy option \<Rightarrow> inner" where
  "demo_node policy = \<lparr>in_identity = identity_of demo_lib (Keypair [1]), in_cas = [''cas''], in_pending = [], in_completed = [],
     in_placement_counts = [], in_state = \<lparr>ss_root = [''state''], ss_lock_path = [''state'', ''lock'']\<rparr>,
     in_ledger = \<lparr>lg_root = [''l''], lg_blocks = []\<rparr>, in_membership = policy, in_issued_memberships = [],
     in_revoked_members = {}, in_request_budget = fresh_budget 0, in_uploads = [],
     in_metadata = \<lparr>md_events = [], md_tasks = [], md_peers = [], md_reputation = [], md_faults = []\<rparr>,
     in_peer_cache = [''p''], in_membership_file = [''m''], in_issued_memberships_file = [''i''],
     in_fs = empty_fs\<lparr>fs_nodes := [([''l''], Dir)]\<rparr>, in_ticks = 0\<rparr>"

definition demo_envelope :: "message list \<Rightarrow> message \<Rightarrow> u8 \<Rightarrow> signed_envelope" where
  "demo_envelope messages m k = \<lparr>env_version = 1, env_signer = node_derive demo_lib [k], env_public_key = [k],
     env_payload = (case to_vec (table_serde messages) m of Inr b \<Rightarrow> b | Inl _ \<Rightarrow> []),
     env_signature = k # (case to_vec (table_serde messages) m of Inr b \<Rightarrow> b | Inl _ \<Rightarrow> [])\<rparr>"

lemma demo_envelope_opens:
  "open_with_signer demo_lib (table_serde [GetCapability]) (demo_envelope [GetCapability] GetCapability 7)
     = Inr (GetCapability, NodeId (example_sha [7]))"
  by code_simp

theorem uploads_bounded_witness:
  "in_uploads (demo_node None) = []
   \<and> length (in_uploads (foldl (handle_step (demo_env [GetCapability] [] (\<lambda>_. 0))) (demo_node None)
       [demo_envelope [GetCapability] GetCapability 7])) \<le> MAX_ACTIVE_UPLOADS"
proof -
  have e: "in_uploads (demo_node None) = []" by (simp add: demo_node_def)
  show ?thesis using e uploads_bounded [OF e, of "demo_env [GetCapability] [] (\<lambda>_. 0)" "[demo_envelope [GetCapability] GetCapability 7]"]
    by (simp add: Let_def)
qed

section \<open>Authorization and revocation\<close>

definition unauthorized :: "('h, 's, 'd, 'o) node_env \<Rightarrow> membership_policy \<Rightarrow> node_id \<Rightarrow> message \<Rightarrow> nat \<Rightarrow> bool" where
  "unauthorized E policy signer m k =
     (case map_of (mp_permissions policy) signer of
        None \<Rightarrow> True | Some access \<Rightarrow> \<not> allows access (permission_for m) (ne_clock E k))"

lemma unauthorized_rejected:
  assumes "open_with_signer (ne_lib E) (sd_message E) envelope = Inr (m, signer)"
    and "in_membership n = Some policy" "unauthorized E policy signer m (in_ticks n + 1)"
  obtains reason b k where "handle E envelope n = seal_m E (TaskReject [] reason) (n\<lparr>in_ticks := k, in_request_budget := b\<rparr>)"
proof -
  obtain served b where c: "consume_request_budget signer (ne_clock E (in_ticks n)) (in_request_budget n) = (served, b)" by fastforce
  obtain d k where a: "authorize E signer m (n\<lparr>in_ticks := in_ticks n + 1, in_request_budget := b\<rparr>)
      = (Inr d, n\<lparr>in_ticks := in_ticks n + 1, in_request_budget := b\<rparr>\<lparr>in_ticks := k\<rparr>)"
    and iff: "d = None \<longleftrightarrow> (case in_membership (n\<lparr>in_ticks := in_ticks n + 1, in_request_budget := b\<rparr>) of None \<Rightarrow> True | Some policy \<Rightarrow>
       (case map_of (mp_permissions policy) signer of None \<Rightarrow> False
        | Some access \<Rightarrow> allows access (permission_for m) (ne_clock E (in_ticks (n\<lparr>in_ticks := in_ticks n + 1, in_request_budget := b\<rparr>)))))"
    by (rule authorize_state)
  have d: "d \<noteq> None" using iff assms(2,3) by (cases "map_of (mp_permissions policy) signer") (simp_all add: unauthorized_def)
  have eq: "n\<lparr>in_ticks := in_ticks n + 1, in_request_budget := b\<rparr>\<lparr>in_ticks := k\<rparr> = n\<lparr>in_ticks := k, in_request_budget := b\<rparr>"
    by (cases n) simp
  show ?thesis
    using that handle_run [OF assms(1) c a [unfolded eq]] d by (cases served) auto
qed

text \<open>
  C30: A request without permission has no effect. Under an active membership policy, an envelope whose
  signer is not a member, whose membership has expired, or whose permissions do not cover the message is
  answered with a signed rejection, and nothing of the node changes but its clock and request budget:
  no content, upload, task, document or ledger entry.
\<close>

theorem unauthorized_request_has_no_effect:
  assumes "open_with_signer (ne_lib E) (sd_message E) envelope = Inr (m, signer)"
    and "in_membership n = Some policy" "unauthorized E policy signer m (in_ticks n + 1)"
  shows "\<exists>reason b k. handle E envelope n
    = (map_err NdProtocol (envelope_seal (ne_lib E) (sd_message E) (TaskReject [] reason) (in_identity n)),
       n\<lparr>in_ticks := k, in_request_budget := b\<rparr>)"
  by (rule unauthorized_rejected [OF assms]) (auto simp: seal_m_def)

theorem unauthorized_request_has_no_effect_witness:
  "\<exists>reason b k. handle (demo_env [GetCapability] [] (\<lambda>_. 0)) (demo_envelope [GetCapability] GetCapability 7)
      (demo_node (Some \<lparr>mp_network_id = ''n'', mp_permissions = []\<rparr>))
    = (map_err NdProtocol (envelope_seal demo_lib (table_serde [GetCapability]) (TaskReject [] reason) (identity_of demo_lib (Keypair [1]))),
       demo_node (Some \<lparr>mp_network_id = ''n'', mp_permissions = []\<rparr>)\<lparr>in_ticks := k, in_request_budget := b\<rparr>)"
proof -
  let ?E = "demo_env [GetCapability] [] (\<lambda>_. 0)" and ?n = "demo_node (Some \<lparr>mp_network_id = ''n'', mp_permissions = []\<rparr>)"
  have E: "ne_lib ?E = demo_lib" "sd_message ?E = table_serde [GetCapability]" by (simp_all add: demo_env_def)
  have n: "in_membership ?n = Some \<lparr>mp_network_id = ''n'', mp_permissions = []\<rparr>" "in_identity ?n = identity_of demo_lib (Keypair [1])"
    by (simp_all add: demo_node_def)
  have u: "unauthorized ?E \<lparr>mp_network_id = ''n'', mp_permissions = []\<rparr> (NodeId (example_sha [7])) GetCapability (in_ticks ?n + 1)"
    by (simp add: unauthorized_def)
  have o: "open_with_signer (ne_lib ?E) (sd_message ?E) (demo_envelope [GetCapability] GetCapability 7) = Inr (GetCapability, NodeId (example_sha [7]))"
    unfolding E by (rule demo_envelope_opens)
  show ?thesis using unauthorized_request_has_no_effect [OF o n(1) u] unfolding E n(2) .
qed

end
