(* ===== verification/Node_Members.thy ===== *)
theory Node_Members
  imports Node_Props
begin

text \<open>
  Members of a node over time: the revocations a node applies are those of its ledger, and a revoked
  member is locked out until a new policy is installed.
\<close>

section \<open>Revocations follow the ledger\<close>

text \<open>What the chain says: the last of the joins and revocations of a member counts.\<close>

definition revoked_in :: "block list \<Rightarrow> node_id set" where
  "revoked_in blocks = foldl apply_change {} (revocation_changes (concat (map bk_events blocks)))"

text \<open>The list of revoked members agrees with the ledger, and the policy with the list.\<close>

definition ledger_followed :: "inner \<Rightarrow> bool" where
  "ledger_followed n \<longleftrightarrow> in_revoked_members n = revoked_in (lg_blocks (in_ledger n))"

definition policy_clean :: "inner \<Rightarrow> bool" where
  "policy_clean n \<longleftrightarrow> (case in_membership n of None \<Rightarrow> True
     | Some policy \<Rightarrow> fst ` set (mp_permissions policy) \<inter> in_revoked_members n = {})"

definition revocations_ok :: "bool \<Rightarrow> inner \<Rightarrow> bool" where
  "revocations_ok settled n \<longleftrightarrow> ledger_followed n \<and> (settled \<longrightarrow> policy_clean n)"

lemmas revocation_defs = revocations_ok_def ledger_followed_def policy_clean_def

lemma revocation_changes_append [simp]: "revocation_changes (xs @ ys) = revocation_changes xs @ revocation_changes ys"
  by (simp add: revocation_changes_def map_filter_def)

lemma revocation_changes_Nil [simp]: "revocation_changes [] = []"
  by (simp add: revocation_changes_def map_filter_def)

lemma revoked_in_snoc: "revoked_in (blocks @ [b]) = foldl apply_change (revoked_in blocks) (revocation_changes (bk_events b))"
  by (simp add: revoked_in_def)

lemma apply_revocations_ok:
  assumes "foldl apply_change (in_revoked_members n) changes = revoked_in (lg_blocks (in_ledger n))"
  shows "revocations_ok settled (apply_revocations changes n)"
  using assms by (auto simp: revocation_defs apply_revocations_def Let_def hm_retain_def split: option.splits)

lemma ledger_append_blocks:
  "ledger_append L verifies b (lg, s) = (Inr h, lg', s') \<Longrightarrow> lg' = lg\<lparr>lg_blocks := lg_blocks lg @ [b]\<rparr>"
  by (erule ledger_append_Inr)

lemma append_ledger_block_ok:
  assumes "revocations_ok settled n"
  shows "revocations_ok (settled \<or> fst (append_ledger_block L verifies b n) = Inr ()) (snd (append_ledger_block L verifies b n))"
proof -
  obtain r lg s where a: "ledger_append L verifies b (in_ledger n, in_fs n) = (r, lg, s)" by (rule prod_cases3)
  show ?thesis
  proof (cases r)
    case (Inl e)
    then have "lg = in_ledger n" using a by (simp add: ledger_append_Inl)
    then show ?thesis using assms Inl a
      by (auto simp: append_ledger_block_def bind_m_def on_ledger_def revocation_defs split: option.splits)
  next
    case (Inr h)
    then have lg: "lg = (in_ledger n)\<lparr>lg_blocks := lg_blocks (in_ledger n) @ [b]\<rparr>"
      using a ledger_append_blocks by blast
    have "revocations_ok True (apply_revocations (revocation_changes (bk_events b)) (n\<lparr>in_ledger := lg, in_fs := s\<rparr>))"
      using assms by (intro apply_revocations_ok) (simp add: lg revocation_defs revoked_in_snoc)
    then show ?thesis using a Inr by (simp add: append_ledger_block_def bind_m_def on_ledger_def modify_n_def)
  qed
qed

text \<open>The blocks a node appends for its own executions revoke nobody.\<close>

lemma next_block_events: "next_block L lg events now network = Inr b \<Longrightarrow> bk_events b = events"
  by (auto simp: next_block_def bind_r_def split: sum.splits)

lemma quorum_finalize_events: "bk_events (snd (quorum_finalize L c b approvals)) = bk_events b"
  by (auto simp: quorum_finalize_def Let_def split: sum.splits prod.splits if_splits)

lemma quorum_finalize_network: "cp_network_id (bk_consensus (snd (quorum_finalize L c b approvals))) = qc_network_id c"
  by (auto simp: quorum_finalize_def Let_def split: sum.splits prod.splits if_splits)

lemma event_seal_event: "event_seal L event identity = Inr sev \<Longrightarrow> ev_event sev = event"
  by (auto simp: event_seal_def bind_r_def split: sum.splits)

definition member_view :: "inner \<Rightarrow> node_id set \<times> membership_policy option \<times> node_id set" where
  "member_view n = (in_revoked_members n, in_membership n, revoked_in (lg_blocks (in_ledger n)))"

lemma revocations_ok_view: "member_view n = member_view n' \<Longrightarrow> revocations_ok settled n \<longleftrightarrow> revocations_ok settled n'"
  by (auto simp: member_view_def revocation_defs split: option.splits)

lemma quiet_append:
  assumes "ledger_append L verifies b (in_ledger n, in_fs n) = (r, lg, s)" "revocation_changes (bk_events b) = []"
  shows "member_view (n\<lparr>in_ledger := lg, in_fs := s\<rparr>) = member_view n"
proof (cases r)
  case (Inl e)
  then have "lg = in_ledger n" using assms(1) by (simp add: ledger_append_Inl)
  then show ?thesis by (simp add: member_view_def)
next
  case (Inr h)
  have "lg = (in_ledger n)\<lparr>lg_blocks := lg_blocks (in_ledger n) @ [b]\<rparr>"
    by (rule ledger_append_blocks [OF assms(1) [unfolded Inr]])
  then show ?thesis using assms(2) by (simp add: member_view_def revoked_in_snoc)
qed

text \<open>The steps of \<open>append_ledger_event\<close>: it fails before the ledger, or it appends one finalized block.\<close>

lemma append_ledger_event_cases:
  obtains (Early) e k where "append_ledger_event E event n = (Inl e, n\<lparr>in_ticks := k\<rparr>)"
  | (Append) sev c b k r lg s where "event_seal (ne_lib E) event (in_identity n) = Inr sev"
      "bk_events b = [sev]" "cp_network_id (bk_consensus b) = ''local''"
      "ledger_append (ne_lib E) (quorum_verify (ne_lib E) c) b (in_ledger n, in_fs n) = (r, lg, s)"
      "append_ledger_event E event n = (map_err NdLedger (map_sum id (\<lambda>_. ()) r), n\<lparr>in_ticks := k\<rparr>\<lparr>in_ledger := lg, in_fs := s\<rparr>)"
proof (cases "event_seal (ne_lib E) event (in_identity n)")
  case (Inl e)
  then show ?thesis using Early [of _ "in_ticks n"] by (simp add: append_ledger_event_def Let_def)
next
  case seal: (Inr sev)
  obtain c where c: "quorum_new ''local'' {self_id n} (Suc 0) = Inr c" "qc_network_id c = ''local''"
    by (simp add: quorum_new_def)
  show ?thesis
  proof (cases "next_block (ne_lib E) (in_ledger n) [sev] (ne_clock E (in_ticks n)) ''local''")
    case (Inl e)
    then show ?thesis using Early [of _ "in_ticks n + 1"] seal c(1)
      by (simp add: append_ledger_event_def Let_def bind_m_def node_now_def)
  next
    case nb: (Inr b0)
    obtain r b where fin: "quorum_finalize (ne_lib E) c b0 [in_identity n] = (r, b)" by fastforce
    have b: "bk_events b = [sev]" "cp_network_id (bk_consensus b) = ''local''"
      using quorum_finalize_events [of "ne_lib E" c b0 "[in_identity n]"] quorum_finalize_network [of "ne_lib E" c b0 "[in_identity n]"]
        next_block_events [OF nb] c(2) by (simp_all add: fin)
    obtain ra lg s where ap: "ledger_append (ne_lib E) (quorum_verify (ne_lib E) c) b (in_ledger n, in_fs n) = (ra, lg, s)"
      by (rule prod_cases3)
    let ?n = "n\<lparr>in_ticks := in_ticks n + 1\<rparr>"
    have run: "append_ledger_event E event n =
      (case r of Inl e \<Rightarrow> (Inl (NdLedger e), ?n)
       | Inr _ \<Rightarrow> (map_err NdLedger (map_sum id (\<lambda>_. ()) ra), ?n\<lparr>in_ledger := lg, in_fs := s\<rparr>))"
      by (cases r; cases ra)
         (simp_all add: append_ledger_event_def Let_def bind_m_def node_now_def on_ledger_def seal c(1) nb fin ap)
    show ?thesis
    proof (cases r)
      case (Inl e)
      show ?thesis by (rule Early [of "NdLedger e" "in_ticks n + 1"]) (simp add: run Inl)
    next
      case (Inr u)
      show ?thesis by (rule Append [OF seal b ap, of "in_ticks n + 1"]) (simp add: run Inr)
    qed
  qed
qed

lemma append_event_view: "frame member_view (append_ledger_event E (TaskCompleted r))"
  unfolding frame_def
proof
  fix n show "member_view (snd (append_ledger_event E (TaskCompleted r) n)) = member_view n"
  proof (rule append_ledger_event_cases [of E "TaskCompleted r" n])
    fix sev c b k ra lg s
    assume a: "event_seal (ne_lib E) (TaskCompleted r) (in_identity n) = Inr sev" "bk_events b = [sev]"
      "ledger_append (ne_lib E) (quorum_verify (ne_lib E) c) b (in_ledger n, in_fs n) = (ra, lg, s)"
      "append_ledger_event E (TaskCompleted r) n = (map_err NdLedger (map_sum id (\<lambda>_. ()) ra), n\<lparr>in_ticks := k\<rparr>\<lparr>in_ledger := lg, in_fs := s\<rparr>)"
    have "revocation_changes (bk_events b) = []"
      using event_seal_event [OF a(1)] a(2) by (simp add: revocation_changes_def map_filter_def)
    then show ?thesis using quiet_append [OF a(3)] a(4) by (simp add: member_view_def)
  qed (simp add: member_view_def)
qed

lemma handle_step_view: "member_view (handle_step E n envelope) = member_view n"
proof -
  have "member_view (snd (respond E signer m n)) = member_view n" for signer m n
    by (rule respond_frame) (simp_all add: append_event_view, simp_all add: member_view_def)
  then show ?thesis
    by (cases rule: handle_cases [of E envelope n])
       (simp_all add: handle_step_def respond_seal_state, simp_all add: member_view_def)
qed

text \<open>A node issues memberships only to members it has not revoked.\<close>

lemma grant_ok:
  assumes "revocations_ok settled n" "member \<notin> in_revoked_members n"
  shows "revocations_ok settled (grant member access n)"
  using assms by (auto simp: revocation_defs grant_def dom_update split: option.splits)

lemma revocations_ok_frames [simp]:
  "revocations_ok settled (n\<lparr>in_fs := s\<rparr>) = revocations_ok settled n"
  "revocations_ok settled (n\<lparr>in_issued_memberships := ms\<rparr>) = revocations_ok settled n"
  "revocations_ok settled (n\<lparr>in_ticks := k\<rparr>) = revocations_ok settled n"
  by (rule revocations_ok_view, simp add: member_view_def)+

lemma register_issued_ok:
  assumes "revocations_ok settled n"
  shows "revocations_ok settled (snd (register_issued_membership E m now persist n))"
proof (cases "mb_member m \<in> in_revoked_members n")
  case True
  then show ?thesis using assms by (simp add: register_issued_membership_run)
next
  case False
  have "revocations_ok settled (grant (mb_member m) a (n\<lparr>in_fs := s\<rparr>))" "revocations_ok settled (grant (mb_member m) a n)" for a s
    using False assms by (simp_all add: grant_ok)
  then show ?thesis
    using False assms by (auto simp: register_issued_membership_run register_commit_def bind_m_def modify_n_def on_fs_def
      split: sum.splits option.splits prod.splits)
qed

text \<open>
  The second half of a registration does not look at the revoked members again: when a block revokes
  the member after the first half, the registration still succeeds and the revoked member gets its
  permissions.
\<close>

lemma late_registration_readmits:
  assumes "register_commit E m now persist n = (Inr (), n')"
  shows "\<exists>policy. in_membership n' = Some policy \<and> map_of (mp_permissions policy) (mb_member m) = Some (access_of m)
    \<and> in_revoked_members n' = in_revoked_members n"
  using assms by (auto simp: register_commit_def grant_def bind_m_def modify_n_def on_fs_def
      split: sum.splits option.splits prod.splits if_splits)

lemma issue_invitation_ok:
  assumes "revocations_ok settled n"
  shows "revocations_ok settled (snd (issue_invitation E network_id member permissions expires_at bootstrap n))"
proof -
  have "revocations_ok settled (snd (register_issued_membership E m now persist (n\<lparr>in_ticks := k\<rparr>)))" for m now persist k
    using assms by (simp add: register_issued_ok)
  then show ?thesis
    using assms by (simp add: issue_invitation_def bind_m_def node_now_def case_prod_unfold split: sum.split)
qed

text \<open>Installing a policy keeps the list of the revoked, and a refused installation keeps the policy too.\<close>

lemma new_policy_unsettles: "revocations_ok settled n \<Longrightarrow> revocations_ok False (n\<lparr>in_membership := policy\<rparr>)"
  by (simp add: revocation_defs)

lemma enforce_membership_ok:
  assumes "revocations_ok settled n" "enforce_membership L network_id certificates trusted now n = (r, n')"
  shows "revocations_ok (settled \<and> r \<noteq> Inr ()) n'"
  using assms by (auto simp: enforce_membership_def bind_m_def modify_n_def new_policy_unsettles split: sum.splits)

lemma activate_invitation_ok:
  assumes "revocations_ok settled n" "activate_invitation L i now n = (r, n')"
  shows "revocations_ok (settled \<and> r \<noteq> Inr ()) n'"
  using assms by (auto simp: activate_invitation_def enforce_membership_def grant_def bind_m_def modify_n_def Let_def
      new_policy_unsettles simp del: collect_permissions.simps split: sum.splits if_splits)

lemma install_invitation_ok:
  assumes "revocations_ok settled n" "install_invitation E i now n = (r, n')"
  shows "revocations_ok (settled \<and> r \<noteq> Inr ()) n'"
proof -
  have "revocations_ok (settled \<and> q \<noteq> Inr ()) m" if "activate_invitation (ne_lib E) i now (n\<lparr>in_fs := s\<rparr>) = (q, m)" for s q m
    using activate_invitation_ok [OF _ that] assms(1) by simp
  then show ?thesis using assms
    by (auto simp: install_invitation_def bind_m_def on_fs_def split: sum.splits prod.splits if_splits)
qed

section \<open>A node over time\<close>

text \<open>
  What happens to a node, one operation after the other: a request, a finalized block, an invitation
  it issues, an invitation or a list of certificates that gives it a new policy.
\<close>

datatype node_op =
    Serve signed_envelope
  | AppendBlock "block \<Rightarrow> ledger_error + bool" block
  | Issue string node_id "string list" "u64 option" "string list"
  | Install invitation u64
  | Enforce string "membership list" "node_id set" u64

fun node_step :: "('h, 's, 'd, 'o) node_env \<Rightarrow> inner \<Rightarrow> node_op \<Rightarrow> inner" where
  "node_step E n (Serve envelope) = handle_step E n envelope"
| "node_step E n (AppendBlock verifies b) = snd (append_ledger_block (ne_lib E) verifies b n)"
| "node_step E n (Issue network_id member permissions expires_at bootstrap) =
     snd (issue_invitation E network_id member permissions expires_at bootstrap n)"
| "node_step E n (Install i now) = snd (install_invitation E i now n)"
| "node_step E n (Enforce network_id certificates trusted now) =
     snd (enforce_membership (ne_lib E) network_id certificates trusted now n)"

text \<open>
  Whether the ledger has been applied to the policy since it was installed: a new policy unsettles the
  node, the next block that is accepted settles it.
\<close>

fun settles :: "('h, 's, 'd, 'o) node_env \<Rightarrow> inner \<Rightarrow> node_op \<Rightarrow> bool \<Rightarrow> bool" where
  "settles E n (AppendBlock verifies b) settled \<longleftrightarrow>
     settled \<or> fst (append_ledger_block (ne_lib E) verifies b n) = Inr ()"
| "settles E n (Install i now) settled \<longleftrightarrow> settled \<and> fst (install_invitation E i now n) \<noteq> Inr ()"
| "settles E n (Enforce network_id certificates trusted now) settled \<longleftrightarrow>
     settled \<and> fst (enforce_membership (ne_lib E) network_id certificates trusted now n) \<noteq> Inr ()"
| "settles E n _ settled \<longleftrightarrow> settled"

fun node_run :: "('h, 's, 'd, 'o) node_env \<Rightarrow> inner \<times> bool \<Rightarrow> node_op \<Rightarrow> inner \<times> bool" where
  "node_run E (n, settled) operation = (node_step E n operation, settles E n operation settled)"

lemma load_invitation_frame: "frame (\<lambda>n. (in_revoked_members n, in_ledger n)) (load_invitation E)"
  by (auto simp: frame_def load_invitation_def path_exists_n_def read_bounded_file_def activate_invitation_def enforce_membership_def
      grant_def bind_m_def modify_n_def node_now_def on_fs_def Let_def split: sum.splits prod.splits bool.splits)

lemma register_issued_frame: "frame (\<lambda>n. (in_revoked_members n, in_ledger n)) (register_issued_membership E m now persist)"
  by (auto simp: frame_def register_issued_membership_run register_commit_def grant_def bind_m_def modify_n_def on_fs_def
      split: sum.splits option.splits prod.splits)

lemma register_all_frame: "frame (\<lambda>n. (in_revoked_members n, in_ledger n)) (register_all E ms)"
proof (induction ms)
  case (Cons m ms)
  then show ?case unfolding register_all.simps
    by (intro frame_bind frame_now register_issued_frame) simp_all
qed (simp add: frame_def)

lemma load_issued_frame: "frame (\<lambda>n. (in_revoked_members n, in_ledger n)) (load_issued E)"
  using register_all_frame [of E] unfolding frame_def
  by (simp add: load_issued_def path_exists_n_def read_bounded_file_def bind_m_def on_fs_def case_prod_unfold
      split: sum.split bool.split)

lemma open_files_revoked: "open_files E data ticks w = (Inr n, w') \<Longrightarrow> in_revoked_members n = {}"
  by (auto simp: open_files_def Let_def split: prod.splits sum.splits)

lemma node_open_ok:
  assumes "node_open E data ticks w = Inr n"
  shows "revocations_ok settled n"
proof -
  obtain n0 w' where o: "open_files E data ticks w = (Inr n0, w')"
    using assms by (cases "open_files E data ticks w") (auto simp: node_open_def bind_r_def split: sum.splits)
  obtain r n1 where l: "bind_m (load_invitation E) (\<lambda>_. load_issued E) n0 = (r, n1)" by fastforce
  have n: "n = refresh_revocations_from_ledger n1"
    using assms by (cases r) (simp_all add: node_open_def o l)
  have "frame (\<lambda>n. (in_revoked_members n, in_ledger n)) (bind_m (load_invitation E) (\<lambda>_. load_issued E))"
    by (intro frame_bind load_invitation_frame load_issued_frame)
  from frameD [OF this l] have "in_revoked_members n1 = {}" using open_files_revoked [OF o] by simp
  then show ?thesis unfolding n refresh_revocations_from_ledger_def
    by (intro apply_revocations_ok) (simp add: revoked_in_def)
qed

lemma node_run_ok:
  assumes "revocations_ok settled n" "node_run E (n, settled) operation = (n', settled')"
  shows "revocations_ok settled' n'"
proof (cases operation)
  case (Serve envelope)
  then show ?thesis using assms revocations_ok_view [OF handle_step_view [of E n]] by auto
next
  case (Install i now)
  obtain r m where e: "install_invitation E i now n = (r, m)" by (rule prod.exhaust)
  then have "n' = m" "settled' = (settled \<and> r \<noteq> Inr ())" using assms(2) Install by simp_all
  then show ?thesis using install_invitation_ok [OF assms(1) e] by simp
next
  case (Enforce network_id certificates trusted now)
  obtain r m where e: "enforce_membership (ne_lib E) network_id certificates trusted now n = (r, m)" by (rule prod.exhaust)
  then have "n' = m" "settled' = (settled \<and> r \<noteq> Inr ())" using assms(2) Enforce by simp_all
  then show ?thesis using enforce_membership_ok [OF assms(1) e] by simp
next
  case (AppendBlock verifies b)
  then show ?thesis using assms(2) append_ledger_block_ok [OF assms(1), of "ne_lib E" verifies b] by simp
qed (use assms in \<open>auto simp: issue_invitation_ok\<close>)

interpretation members: state_machine "node_run E" "\<lambda>(n, settled). \<exists>data ticks w. node_open E data ticks w = Inr n"
  "\<lambda>(n, settled). revocations_ok settled n" for E
  by unfold_locales (use node_open_ok node_run_ok in \<open>fastforce+\<close>)

lemma revoked_unauthorized:
  assumes "revocations_ok True n" "in_membership n = Some policy" "signer \<in> revoked_in (lg_blocks (in_ledger n))"
  shows "unauthorized E policy signer m k"
proof -
  have "map_of (mp_permissions policy) signer = None"
    using assms by (auto simp: revocation_defs map_of_eq_None_iff)
  then show ?thesis by (simp add: unauthorized_def)
qed

text \<open>
  C31: A revocation takes effect with the block that carries it, also over restarts, and lasts until a new
  policy is installed. Open a node and let it serve requests, append blocks, issue invitations and
  install policies, one after the other: if a block has been accepted since the last policy was
  installed, or none was installed since the start, whoever the ledger says is revoked gets a signed
  rejection for every request, and the request changes nothing but the clock and the request budget.
\<close>

theorem revoked_member_is_locked_out:
  assumes "node_open E data ticks w = Inr n0" "(n, True) = foldl (node_run E) (n0, True) ops"
    and "in_membership n = Some policy" "signer \<in> revoked_in (lg_blocks (in_ledger n))"
    and "open_with_signer (ne_lib E) (sd_message E) envelope = Inr (m, signer)"
  shows "\<exists>reason b k. handle E envelope n
    = (map_err NdProtocol (envelope_seal (ne_lib E) (sd_message E) (TaskReject [] reason) (in_identity n)),
       n\<lparr>in_ticks := k, in_request_budget := b\<rparr>)"
proof -
  have "\<exists>data ticks w. node_open E data ticks w = Inr n0" using assms(1) by blast
  then have "revocations_ok True n"
    using members.reachable_inv [of E "(n0, True)" ops] unfolding assms(2) [symmetric] by simp
  then have u: "unauthorized E policy signer m (in_ticks n + 1)" using assms(3,4) by (rule revoked_unauthorized)
  show ?thesis by (rule unauthorized_rejected [OF assms(5,3) u]) (auto simp: seal_m_def)
qed

text \<open>
  However a node is opened and whatever is done to it, its list of revoked members is the one of its
  ledger.
\<close>

lemma reopened_node_knows_revocations:
  assumes "node_open E data ticks w = Inr n0"
  shows "ledger_followed (foldl (node_step E) n0 ops)"
proof -
  have run: "fst (foldl (node_run E) (n, settled) ops) = foldl (node_step E) n ops" for n settled
    by (induction ops arbitrary: n settled) simp_all
  have "case foldl (node_run E) (n0, True) ops of (n, settled) \<Rightarrow> revocations_ok settled n"
    by (rule members.reachable_inv) (use assms in blast)
  then show ?thesis by (metis (no_types, lifting) case_prod_unfold revocations_ok_def run)
qed

section \<open>Concrete members\<close>

definition demo_revoked :: inner where
  "demo_revoked = (demo_node (Some \<lparr>mp_network_id = ''n'', mp_permissions = []\<rparr>))
     \<lparr>in_ledger := \<lparr>lg_root = [''l''], lg_blocks = [demo_genesis\<lparr>bk_events := [(demo_event 1)\<lparr>ev_event := NodeRevoked (NodeId (example_sha [7]))\<rparr>]\<rparr>]\<rparr>,
      in_revoked_members := {NodeId (example_sha [7])}\<rparr>"

text \<open>A certificate for member 7, the block that revokes it, and a node that gets both.\<close>

definition demo_certificate :: "u64 option \<Rightarrow> membership" where
  "demo_certificate expiry = \<lparr>mb_network_id = ''n'', mb_member = NodeId (example_sha [7]), mb_issuer = NodeId (example_sha [1]),
     mb_permissions = [''execute''], mb_expires_at = expiry, mb_issuer_public_key = [1], mb_signature = [1, 0, 0, 0, 0]\<rparr>"

definition revoke_event :: signed_event where
  "revoke_event = (demo_event 1)\<lparr>ev_event := NodeRevoked (NodeId (example_sha [7]))\<rparr>"

definition revoke_block :: block where
  "revoke_block = demo_genesis\<lparr>bk_events := [revoke_event]\<rparr>"

definition revoke_lib :: ledger_lib where
  "revoke_lib = example_ledger_lib [NodeRevoked (NodeId (example_sha [7]))] [revoke_event] [proposal_of revoke_block] [revoke_block]
     [membership_body_of (demo_certificate None)]"

definition revoke_env :: "(unit, nat \<times> bool \<times> bytes, bytes, unit) node_env" where
  "revoke_env = (demo_env [GetCapability] [] (\<lambda>_. 0))\<lparr>ne_lib := revoke_lib\<rparr>"

abbreviation revoke_ops :: "node_op list" where
  "revoke_ops \<equiv> [Enforce ''n'' [demo_certificate None] {NodeId (example_sha [1])} 5,
     AppendBlock (quorum_verify revoke_lib (demo_quorum ''n'')) revoke_block]"

lemma revoke_opens:
  "case node_open revoke_env [''d''] 0 (empty_fs, in_metadata (demo_node None)) of
     Inl _ \<Rightarrow> False
   | Inr n \<Rightarrow> ledger_open revoke_lib [''d'', ''ledger'', ''blocks''] (in_fs n) = (Inr (in_ledger n), in_fs n)
       \<and> in_ledger n = \<lparr>lg_root = [''d'', ''ledger'', ''blocks''], lg_blocks = []\<rparr> \<and> fs_faults (in_fs n) = []
       \<and> length (fs_nodes (in_fs n)) < 50 \<and> in_revoked_members n = {}"
  by code_simp

lemma revoke_checks:
  "collect_permissions revoke_lib ''n'' {NodeId (example_sha [1])} 5 [] [demo_certificate None]
     = Inr [(NodeId (example_sha [7]), access_of (demo_certificate None))]"
  "append_check revoke_lib (quorum_verify revoke_lib (demo_quorum ''n'')) [] revoke_block = Inr ()"
  "block_hash revoke_lib revoke_block = Inr (example_sha [0, 0, 0, 0])" "to_vec_pretty revoke_lib revoke_block = Inr [0, 0, 0, 0]"
  by code_simp+

lemma revoke_changes: "revocation_changes (bk_events revoke_block) = [(NodeId (example_sha [7]), True)]"
  by (auto simp: revocation_changes_def map_filter_def revoke_block_def revoke_event_def)

lemma revoke_run:
  assumes "node_open revoke_env [''d''] 0 (empty_fs, in_metadata (demo_node None)) = Inr n0"
  obtains n where "(n, True) = foldl (node_run revoke_env) (n0, True) revoke_ops"
    "in_membership n = Some \<lparr>mp_network_id = ''n'', mp_permissions = []\<rparr>" "lg_blocks (in_ledger n) = [revoke_block]"
proof -
  let ?lg = "\<lparr>lg_root = [''d'', ''ledger'', ''blocks''], lg_blocks = []\<rparr> :: ledger"
  have o: "ledger_open revoke_lib [''d'', ''ledger'', ''blocks''] (in_fs n0) = (Inr ?lg, in_fs n0)"
    "in_ledger n0 = ?lg" "fs_faults (in_fs n0) = []" "length (fs_nodes (in_fs n0)) < 50" "in_revoked_members n0 = {}"
    using revoke_opens by (simp_all add: assms)
  have "stored revoke_lib ?lg (in_fs n0)" using ledger_open_stored [OF o(1)] by blast
  from ledger_append_succeeds [OF this o(3) _ _ _ revoke_checks(3,4)] obtain s where
    ap: "ledger_append revoke_lib (quorum_verify revoke_lib (demo_quorum ''n'')) revoke_block (?lg, in_fs n0)
      = (Inr (example_sha [0, 0, 0, 0]), ?lg\<lparr>lg_blocks := [revoke_block]\<rparr>, s)"
    using o(4) revoke_checks(2) by (simp add: MAX_BLOCK_BYTES_def)
  define n1 where "n1 = n0\<lparr>in_membership := Some \<lparr>mp_network_id = ''n'',
    mp_permissions = [(NodeId (example_sha [7]), access_of (demo_certificate None))]\<rparr>\<rparr>"
  have e: "enforce_membership revoke_lib ''n'' [demo_certificate None] {NodeId (example_sha [1])} 5 n0 = (Inr (), n1)"
    by (simp add: enforce_membership_def bind_m_def modify_n_def revoke_checks(1) n1_def del: collect_permissions.simps)
  define n2 where "n2 = apply_revocations [(NodeId (example_sha [7]), True)] (n1\<lparr>in_ledger := ?lg\<lparr>lg_blocks := [revoke_block]\<rparr>, in_fs := s\<rparr>)"
  have "append_ledger_block revoke_lib (quorum_verify revoke_lib (demo_quorum ''n'')) revoke_block n1 = (Inr (), n2)"
    using ap o(2) by (simp add: append_ledger_block_def bind_m_def modify_n_def on_ledger_def revoke_changes n1_def n2_def)
  moreover have "ne_lib revoke_env = revoke_lib" by (simp add: revoke_env_def)
  ultimately show ?thesis using e
    by (intro that [of n2]) (simp_all add: n1_def n2_def apply_revocations_def apply_change_def hm_retain_def)
qed

theorem revoked_member_is_locked_out_witness:
  "\<exists>n0 n reason b k. node_open revoke_env [''d''] 0 (empty_fs, in_metadata (demo_node None)) = Inr n0
    \<and> (n, True) = foldl (node_run revoke_env) (n0, True) revoke_ops
    \<and> handle revoke_env (demo_envelope [GetCapability] GetCapability 7) n
      = (map_err NdProtocol (envelope_seal revoke_lib (table_serde [GetCapability]) (TaskReject [] reason) (in_identity n)),
         n\<lparr>in_ticks := k, in_request_budget := b\<rparr>)"
proof -
  obtain n0 where n0: "node_open revoke_env [''d''] 0 (empty_fs, in_metadata (demo_node None)) = Inr n0"
    using revoke_opens by (auto split: sum.splits)
  obtain n where n: "(n, True) = foldl (node_run revoke_env) (n0, True) revoke_ops"
    "in_membership n = Some \<lparr>mp_network_id = ''n'', mp_permissions = []\<rparr>" "lg_blocks (in_ledger n) = [revoke_block]"
    by (rule revoke_run [OF n0])
  have r: "NodeId (example_sha [7]) \<in> revoked_in (lg_blocks (in_ledger n))"
    by (simp add: n(3) revoked_in_def revoke_changes apply_change_def)
  have E: "ne_lib revoke_env = revoke_lib" "sd_message revoke_env = table_serde [GetCapability]"
    by (simp_all add: revoke_env_def demo_env_def)
  have "open_with_signer (ne_lib revoke_env) (sd_message revoke_env) (demo_envelope [GetCapability] GetCapability 7)
      = Inr (GetCapability, NodeId (example_sha [7]))" by code_simp
  from revoked_member_is_locked_out [OF n0 n(1,2) r this] show ?thesis using n0 n(1) unfolding E by blast
qed

end
