(* ===== verification/Node_Restart.thy ===== *)
theory Node_Restart
  imports Node_Members
begin

text \<open>
  Where membership, ledger and start-up of a node do not fit together: a new policy readmits a revoked
  member, one expired membership keeps the issuer from starting, and a completed task makes the ledger
  of a network unreadable.
\<close>

text \<open>
  \<open>enforce_membership\<close> builds its policy from the certificates alone. A valid certificate gives a
  revoked member its permissions back, while the node still lists it as revoked.
\<close>

theorem new_policy_readmits_revoked_member:
  assumes "member \<in> in_revoked_members n" "mb_member c = member" "mb_network_id c = network_id"
    and "membership_verify L c trusted now = Inr True"
  shows "\<exists>n' policy. enforce_membership L network_id [c] trusted now n = (Inr (), n')
    \<and> in_membership n' = Some policy \<and> map_of (mp_permissions policy) member = Some (access_of c)
    \<and> member \<in> in_revoked_members n'"
  using assms by (simp add: enforce_membership_def bind_m_def modify_n_def)

definition demo_member_lib :: ledger_lib where
  "demo_member_lib = example_ledger_lib [] [] [] [] [membership_body_of (demo_certificate None)]"

theorem new_policy_readmits_revoked_member_witness:
  "NodeId (example_sha [7]) \<in> in_revoked_members demo_revoked
   \<and> (\<exists>n' policy. enforce_membership demo_member_lib ''n'' [demo_certificate None] {NodeId (example_sha [1])} 5 demo_revoked = (Inr (), n')
        \<and> in_membership n' = Some policy
        \<and> map_of (mp_permissions policy) (NodeId (example_sha [7])) = Some (access_of (demo_certificate None))
        \<and> NodeId (example_sha [7]) \<in> in_revoked_members n')"
proof -
  have "NodeId (example_sha [7]) \<in> in_revoked_members demo_revoked" by (simp add: demo_revoked_def)
  moreover have "membership_verify demo_member_lib (demo_certificate None) {NodeId (example_sha [1])} 5 = Inr True" by code_simp
  ultimately show ?thesis
    using new_policy_readmits_revoked_member [of "NodeId (example_sha [7])" demo_revoked "demo_certificate None" "''n''"
        demo_member_lib "{NodeId (example_sha [1])}" 5] by (simp add: demo_certificate_def)
qed

section \<open>Expired memberships\<close>

lemma register_expired:
  assumes "mb_expires_at m = Some expiry" "expiry \<le> now"
  shows "\<exists>e. register_issued_membership E m now persist n = (Inl e, n)"
  using assms by (auto simp: register_issued_membership_run register_commit_def membership_verify_def bind_m_def)

lemma register_all_expired:
  assumes "m \<in> set ms" "mb_expires_at m = Some expiry" "\<And>k. expiry \<le> ne_clock E k"
  shows "\<exists>e n'. register_all E ms n = (Inl e, n')"
  using assms(1)
proof (induction ms arbitrary: n)
  case (Cons x ms)
  let ?n = "n\<lparr>in_ticks := in_ticks n + 1\<rparr>"
  obtain r n1 where r: "register_issued_membership E x (ne_clock E (in_ticks n)) False ?n = (r, n1)" by fastforce
  show ?case
  proof (cases r)
    case (Inl e)
    then show ?thesis using r by (simp add: bind_m_def node_now_def)
  next
    case (Inr u)
    then have "x \<noteq> m" using r register_expired [OF assms(2,3)] by (metis prod.inject sum.distinct(1))
    then show ?thesis using Cons Inr r by (auto simp: bind_m_def node_now_def)
  qed
qed simp

text \<open>
  C32: A node that has issued one membership with an expiry cannot start once that membership has expired:
  \<open>open\<close> registers every membership of its file again and gives up at the first that is not valid now.
\<close>

theorem expired_membership_prevents_start:
  assumes "open_files E data ticks w = (Inr n, w')" "load_invitation E n = (Inr (), n1)"
    and "path_exists_n (in_issued_memberships_file n1) n1 = (True, n2)"
    and "read_bounded_file (in_issued_memberships_file n2) MAX_MEMBERSHIP_FILE_BYTES n2 = (Inr bytes, n3)"
    and "from_slice (sd_memberships E) bytes = Inr memberships"
    and "m \<in> set memberships" "mb_expires_at m = Some expiry" "\<forall>k. expiry \<le> ne_clock E k"
  shows "\<exists>e. node_open E data ticks w = Inl e"
proof -
  obtain e n' where "register_all E memberships n3 = (Inl e, n')"
    using register_all_expired [OF assms(6,7)] assms(8) by blast
  then have "\<exists>e n'. load_issued E n1 = (Inl e, n')"
    using assms(3-5) by (simp add: load_issued_def bind_m_def)
  then show ?thesis using assms(1,2) by (auto simp: node_open_def bind_m_def)
qed

definition demo_issuer_fs :: fs where
  "demo_issuer_fs = empty_fs\<lparr>fs_nodes := [([''d''], Dir), ([''d'', ''metadata''], Dir),
     ([''d'', ''metadata'', ''issued-memberships.json''], File [0, 0, 0, 0] None)]\<rparr>"

lemma demo_issuer_loads:
  "case open_files (demo_env [] [demo_certificate (Some 5)] (\<lambda>_. 9)) [''d''] 0 (demo_issuer_fs, in_metadata (demo_node None)) of
     (Inl _, _) \<Rightarrow> False
   | (Inr n, _) \<Rightarrow>
      (case load_invitation (demo_env [] [demo_certificate (Some 5)] (\<lambda>_. 9)) n of
         (Inl _, _) \<Rightarrow> False
       | (Inr _, n) \<Rightarrow> node_at (in_fs n) (in_issued_memberships_file n) = Some (File [0, 0, 0, 0] None) \<and> fs_faults (in_fs n) = [])"
  by code_simp

theorem expired_membership_prevents_start_witness:
  "\<exists>e. node_open (demo_env [] [demo_certificate (Some 5)] (\<lambda>_. 9)) [''d''] 0 (demo_issuer_fs, in_metadata (demo_node None)) = Inl e"
proof -
  let ?E = "demo_env [] [demo_certificate (Some 5)] (\<lambda>_. 9)"
  obtain r w' where o0: "open_files ?E [''d''] 0 (demo_issuer_fs, in_metadata (demo_node None)) = (r, w')" by (rule prod.exhaust)
  obtain n where r: "r = Inr n" using demo_issuer_loads by (cases r) (simp_all add: o0)
  obtain q n1 where l0: "load_invitation ?E n = (q, n1)" by (rule prod.exhaust)
  have q: "q = Inr ()" using demo_issuer_loads by (cases q) (simp_all add: o0 r l0)
  note o = o0 [unfolded r] and l = l0 [unfolded q]
  have f: "node_at (in_fs n1) (in_issued_memberships_file n1) = Some (File [0, 0, 0, 0] None)" "fs_faults (in_fs n1) = []"
    using demo_issuer_loads by (simp_all add: o l)
  have p: "path_exists_n (in_issued_memberships_file n1) n1 = (True, n1)"
    using f by (simp add: path_exists_n_def path_exists_def syscall_def ret_io_def)
  have r: "read_bounded_file (in_issued_memberships_file n1) MAX_MEMBERSHIP_FILE_BYTES n1 = (Inr [0, 0, 0, 0], n1)"
    using f by (simp add: read_bounded_file_def on_fs_def read_limited_def bind_io_def read_file_def syscall_def ret_io_def
      MAX_MEMBERSHIP_FILE_BYTES_def)
  have d: "from_slice (sd_memberships ?E) [0, 0, 0, 0] = Inr [demo_certificate (Some 5)]" by code_simp
  show ?thesis
    by (rule expired_membership_prevents_start [OF o l p r d, of "demo_certificate (Some 5)" 5])
       (simp_all add: demo_certificate_def demo_env_def)
qed

section \<open>Two networks in one ledger\<close>

text \<open>
  C33: A node writes its executions to its ledger as blocks of the network \<open>local\<close>. If the ledger holds
  blocks of another network, the first such block is accepted and written, and the node can
  never open its ledger again.
\<close>

theorem completed_task_prevents_reopening:
  assumes "pretty_ok (ne_lib E)" "ledger_open (ne_lib E) base s0 = (Inr (in_ledger n), in_fs n)"
    and "lg_blocks (in_ledger n) \<noteq> []" "length (lg_blocks (in_ledger n)) < 2 ^ 64" "fs_faults (in_fs n) = []"
    and "cp_network_id (bk_consensus (last (lg_blocks (in_ledger n)))) \<noteq> ''local''"
    and "append_ledger_event E event n = (Inr (), n')"
  shows "\<exists>e. ledger_open (ne_lib E) base (in_fs n') = (Inl e, in_fs n')"
proof (rule append_ledger_event_cases [of E event n])
  fix sev c b k r lg s
  assume b: "cp_network_id (bk_consensus b) = ''local''"
    and a: "ledger_append (ne_lib E) (quorum_verify (ne_lib E) c) b (in_ledger n, in_fs n) = (r, lg, s)"
    and run: "append_ledger_event E event n = (map_err NdLedger (map_sum id (\<lambda>_. ()) r), n\<lparr>in_ticks := k\<rparr>\<lparr>in_ledger := lg, in_fs := s\<rparr>)"
  obtain h where r: "r = Inr h" using run assms(7) by (cases r) auto
  have s: "in_fs n' = s" using run assms(7) by auto
  show ?thesis unfolding s
    by (rule network_change_prevents_reopening [OF assms(1-4) a [unfolded r] ledger_append_quiet [OF a assms(5)]])
       (use b assms(6) in simp)
qed (use assms(7) in simp)

definition demo_worker :: inner where
  "demo_worker = (demo_node None)\<lparr>in_ledger := demo_ledger [demo_genesis], in_fs := demo_fs1\<rparr>"

lemma demo_worker_block:
  "event_seal demo_lib (TaskCreated ''t'') (identity_of demo_lib (Keypair [1])) = Inr (demo_event 1)"
  "quorum_new ''local'' {ni_node_id (identity_of demo_lib (Keypair [1]))} 1 = Inr (demo_quorum ''local'')"
  "next_block demo_lib (demo_ledger [demo_genesis]) [demo_event 1] 5 ''local''
     = Inr (demo_local\<lparr>bk_consensus := \<lparr>cp_network_id = ''local'', cp_signatures = []\<rparr>\<rparr>)"
  "quorum_finalize demo_lib (demo_quorum ''local'') (demo_local\<lparr>bk_consensus := \<lparr>cp_network_id = ''local'', cp_signatures = []\<rparr>\<rparr>)
     [identity_of demo_lib (Keypair [1])] = (Inr (), demo_local)"
  "append_check demo_lib (quorum_verify demo_lib (demo_quorum ''local'')) [demo_genesis] demo_local = Inr ()"
  "block_hash demo_lib demo_local = Inr (example_sha [0, 0, 0, 2])" "to_vec_pretty demo_lib demo_local = Inr [0, 0, 0, 2]"
  by code_simp+

lemma demo_worker_append:
  "\<exists>s n'. ledger_append demo_lib (quorum_verify demo_lib (demo_quorum ''local'')) demo_local (demo_ledger [demo_genesis], demo_fs1)
       = (Inr (example_sha [0, 0, 0, 2]), demo_ledger [demo_genesis, demo_local], s)
     \<and> append_ledger_event (demo_env [] [] (\<lambda>_. 5)) (TaskCreated ''t'') demo_worker = (Inr (), n')"
proof -
  obtain s where a: "ledger_append demo_lib (quorum_verify demo_lib (demo_quorum ''local'')) demo_local (demo_ledger [demo_genesis], demo_fs1)
       = (Inr (example_sha [0, 0, 0, 2]), demo_ledger [demo_genesis, demo_local], s)"
    using ledger_append_succeeds [OF demo_stored _ _ _ demo_worker_block(6,7)] demo_worker_block(5)
    by (simp add: demo_fs1_nodes MAX_BLOCK_BYTES_def)
  note w = demo_worker_block [unfolded One_nat_def]
  show ?thesis
    by (simp add: a append_ledger_event_def Let_def bind_m_def node_now_def on_ledger_def demo_worker_def demo_node_def demo_env_def w)
qed

theorem completed_task_prevents_reopening_witness:
  "\<exists>n' e. append_ledger_event (demo_env [] [] (\<lambda>_. 5)) (TaskCreated ''t'') demo_worker = (Inr (), n')
     \<and> ledger_open demo_lib [''l''] (in_fs n') = (Inl e, in_fs n')"
proof -
  let ?E = "demo_env [] [] (\<lambda>_. 5)"
  obtain n' where a: "append_ledger_event ?E (TaskCreated ''t'') demo_worker = (Inr (), n')" using demo_worker_append by blast
  have E: "ne_lib ?E = demo_lib" by (simp add: demo_env_def)
  have n: "in_ledger demo_worker = demo_ledger [demo_genesis]" "in_fs demo_worker = demo_fs1" by (simp_all add: demo_worker_def)
  have op: "ledger_open (ne_lib ?E) [''l''] demo_fs1 = (Inr (in_ledger demo_worker), in_fs demo_worker)"
    unfolding E n using ledger_open_of_stored [OF demo_stored] by simp
  have "\<exists>e. ledger_open (ne_lib ?E) [''l''] (in_fs n') = (Inl e, in_fs n')"
    by (rule completed_task_prevents_reopening [OF _ op _ _ _ _ a]) (simp_all add: E n demo_pretty demo_stored demo_genesis_def)
  then show ?thesis using a unfolding E by blast
qed

end
