(* ===== verification/Node_Tasks.thy ===== *)
theory Node_Tasks
  imports Node_Props
begin

text \<open>
  The single task slot of a node while requests interleave. A commit is served in two steps, between
  which the task runs and other requests are answered.
\<close>

section \<open>Interleaved requests\<close>

text \<open>
  The tasks that run are the second part of the state. \<open>serve\<close> is any request that is not a commit;
  \<open>begin_commit\<close> and \<open>refuse_commit\<close> are a commit that passed the budget and the policy, at the clock \<open>k\<close>
  and with the budget \<open>b\<close> these leave; \<open>finish\<close> is the end of a run, whatever its outcome; \<open>observe\<close> is a
  call of \<open>capability\<close>. Commits keep to their lease: none is repeated for a running task after its
  lease or deadline.
\<close>

type_synonym flight = "string \<times> task \<times> node_id"

definition within_lease :: "('h, 's, 'd, 'o) node_env \<Rightarrow> string \<Rightarrow> inner \<Rightarrow> bool" where
  "within_lease E tid n =
     (case map_of (in_pending n) tid of
        None \<Rightarrow> True
      | Some p \<Rightarrow> pt_running p \<longrightarrow> pt_lease_expires_at p > ne_clock E (in_ticks n)
          \<and> (case task_deadline (pt_task p) of None \<Rightarrow> True | Some d \<Rightarrow> d > ne_clock E (in_ticks n + 1)))"

inductive task_step :: "('h, 's, 'd, 'o) node_env \<Rightarrow> inner \<times> flight list \<Rightarrow> inner \<times> flight list \<Rightarrow> bool" for E where
  serve: "open_with_signer (ne_lib E) (sd_message E) envelope = Inr (m, signer) \<Longrightarrow> (\<forall>tid. m \<noteq> TaskCommit tid) \<Longrightarrow>
     task_step E (n, fl) (handle_step E n envelope, fl)"
| observe: "task_step E (n, fl) (snd (node_capability_of E n), fl)"
| begin_commit: "execute_begin E tid signer (n\<lparr>in_ticks := k, in_request_budget := b\<rparr>) = (Inr (Inr t), n') \<Longrightarrow>
     task_step E (n, fl) (n', (tid, t, signer) # fl)"
| refuse_commit: "execute_begin E tid signer (n\<lparr>in_ticks := k, in_request_budget := b\<rparr>) = (r, n') \<Longrightarrow>
     (\<forall>t. r \<noteq> Inr (Inr t)) \<Longrightarrow> within_lease E tid (n\<lparr>in_ticks := k, in_request_budget := b\<rparr>) \<Longrightarrow> task_step E (n, fl) (n', fl)"
| finish: "(tid, t, signer) \<in> set fl \<Longrightarrow> execute_run E tid t signer n = (r, n') \<Longrightarrow>
     task_step E (n, fl) (execute_end tid n', remove1 (tid, t, signer) fl)"

section \<open>The invariant of the slot\<close>

definition slot_ok :: "inner \<times> flight list \<Rightarrow> bool" where
  "slot_ok s \<longleftrightarrow> length (in_pending (fst s)) \<le> MAX_CONCURRENT_TASKS \<and> distinct (map fst (snd s))
     \<and> (\<forall>tid \<in> fst ` set (snd s). \<exists>p. map_of (in_pending (fst s)) tid = Some p \<and> pt_running p)"

text \<open>A pending list of one task has one key.\<close>

lemma slot_wf: "length m \<le> MAX_CONCURRENT_TASKS \<Longrightarrow> hm_wf m"
  by (cases m) (auto simp: MAX_CONCURRENT_TASKS_def hm_wf_def)

lemma slot_ok_bound:
  assumes "slot_ok (n, fl)"
  shows "length fl \<le> MAX_CONCURRENT_TASKS"
proof -
  have "set (map fst fl) \<subseteq> fst ` set (in_pending n)"
    using assms by (force simp: slot_ok_def dest: map_of_SomeD)
  then have "card (set (map fst fl)) \<le> card (fst ` set (in_pending n))" by (intro card_mono) simp_all
  also have "\<dots> \<le> length (in_pending n)" using card_length [of "map fst (in_pending n)"] by simp
  finally show ?thesis using assms distinct_card [of "map fst fl"] by (simp add: slot_ok_def)
qed

text \<open>A step on the reservations that keeps the slot: it holds at most one, and running ones stay.\<close>

definition keeps_slot :: "(string, pending_task) hmap \<Rightarrow> (string, pending_task) hmap \<Rightarrow> bool" where
  "keeps_slot m m' \<longleftrightarrow> (length m \<le> MAX_CONCURRENT_TASKS \<longrightarrow> length m' \<le> MAX_CONCURRENT_TASKS
     \<and> (\<forall>tid p. map_of m tid = Some p \<and> pt_running p \<longrightarrow> (\<exists>p. map_of m' tid = Some p \<and> pt_running p)))"

lemma keeps_slot_ok: "slot_ok (n, fl) \<Longrightarrow> keeps_slot (in_pending n) (in_pending n') \<Longrightarrow> slot_ok (n', fl)"
  unfolding slot_ok_def keeps_slot_def by fastforce

lemma keeps_slot_refl [simp]: "keeps_slot m m"
  by (simp add: keeps_slot_def)

lemma capability_slot: "keeps_slot (in_pending n) (in_pending (snd (node_capability_of E n)))"
proof -
  have "length (hm_retain p (in_pending n)) \<le> length (in_pending n)" for p by (simp add: hm_retain_def)
  then show ?thesis
    by (auto simp: node_capability_of_def Let_def keeps_slot_def map_of_retain slot_wf unexpired_def intro: le_trans)
qed

lemma new_reservation_slot:
  assumes "keeps_slot m m'" "\<not> length m' \<ge> MAX_CONCURRENT_TASKS"
  shows "keeps_slot m (AList.update i p m')"
proof -
  have "m' = []" using assms(2) by (cases m') (simp_all add: MAX_CONCURRENT_TASKS_def)
  then show ?thesis using assms(1) by (auto simp: keeps_slot_def MAX_CONCURRENT_TASKS_def)
qed

lemma accept_offer_slot: "keeps_slot (in_pending n) (in_pending (snd (accept_offer E t q e signer n)))"
proof -
  obtain valid m where v: "structurally_valid E t q e signer n = (valid, m)" by fastforce
  have m: "in_pending m = in_pending n" using structurally_valid_frame [of in_pending E t q e signer n] by (simp add: v)
  obtain c n2 where c: "node_capability_of E (m\<lparr>in_ticks := Suc (in_ticks m)\<rparr>) = (c, n2)" by fastforce
  have k: "keeps_slot (in_pending n) (in_pending n2)"
    using capability_slot [of "m\<lparr>in_ticks := Suc (in_ticks m)\<rparr>" E] by (simp add: c m)
  have new: "keeps_slot (in_pending n) (AList.update (task_id t) p (in_pending n2))" if "\<not> length (in_pending n2) \<ge> MAX_CONCURRENT_TASKS" for p
    by (rule new_reservation_slot [OF k that])
  show ?thesis
    using m k new
    by (auto simp: accept_offer_def v c Let_def bind_m_def modify_n_def node_now_def on_db_def
        split: bool.splits option.splits sum.splits prod.splits)
qed

lemma task_cancel_slot: "keeps_slot (in_pending n) (in_pending (snd (task_cancel tid signer n)))"
proof -
  have "length (AList.delete tid (in_pending n)) \<le> length (in_pending n)" by (rule length_delete_le)
  then show ?thesis by (auto simp: task_cancel_def keeps_slot_def split: option.splits)
qed

lemma respond_slot:
  assumes "\<forall>tid. m \<noteq> TaskCommit tid"
  shows "keeps_slot (in_pending n) (in_pending (snd (respond E signer m n)))"
proof (cases m)
  case (TaskOffer t q e)
  then show ?thesis using accept_offer_slot by (simp add: respond_def)
next
  case (TaskCancel tid)
  then show ?thesis using task_cancel_slot [of n tid signer] by (simp add: respond_def case_prod_unfold)
next
  case (CheckContent i)
  then show ?thesis using cas_contains_n_frame [of in_pending "ne_lib E" i n] by (simp add: respond_def Let_def case_prod_unfold)
next
  case (ContentComplete i)
  then show ?thesis
    by (auto simp: respond_def content_complete_def Let_def bind_m_def on_fs_def split: option.splits sum.splits prod.splits)
qed (use assms in \<open>auto simp: respond_def Let_def bind_m_def on_fs_def public_capability_def node_now_def split: sum.splits prod.splits\<close>)

lemma handle_slot:
  assumes "open_with_signer (ne_lib E) (sd_message E) envelope = Inr (m, signer)" "\<forall>tid. m \<noteq> TaskCommit tid"
  shows "keeps_slot (in_pending n) (in_pending (handle_step E n envelope))"
proof (cases rule: handle_cases [of E envelope n])
  case (Served m' signer' b k)
  then show ?thesis
    using respond_slot [OF assms(2), of "n\<lparr>in_ticks := k, in_request_budget := b\<rparr>" E signer] assms(1)
    by (simp add: handle_step_def respond_seal_state)
qed (simp_all add: handle_step_def)

lemma execute_begin_started:
  assumes "execute_begin E tid signer n = (Inr (Inr t), n')"
  obtains p where "map_of (in_pending n) tid = Some p" "\<not> pt_running p"
    "in_pending n' = AList.update tid (p\<lparr>pt_running := True\<rparr>) (in_pending n)"
  using assms by (auto simp: execute_begin_def Let_def split: option.splits if_splits)

lemma begin_slot:
  assumes "slot_ok (n, fl)" "execute_begin E tid signer n = (Inr (Inr t), n')"
  shows "slot_ok (n', (tid, t, signer) # fl)"
proof -
  obtain p where p: "map_of (in_pending n) tid = Some p" "\<not> pt_running p"
    "in_pending n' = AList.update tid (p\<lparr>pt_running := True\<rparr>) (in_pending n)"
    by (rule execute_begin_started [OF assms(2)])
  have "tid \<notin> fst ` set fl" using assms(1) p(1,2) by (auto simp: slot_ok_def)
  moreover have "length (in_pending n') = length (in_pending n)"
    using p(1) by (simp add: p(3) length_update hm_contains_def)
  ultimately show ?thesis using assms(1) by (auto simp: slot_ok_def p(3))
qed

lemma refuse_slot:
  assumes "execute_begin E tid signer n = (r, n')" "\<forall>t. r \<noteq> Inr (Inr t)" "within_lease E tid n"
  shows "keeps_slot (in_pending n) (in_pending n')"
proof -
  have "length (AList.delete tid (in_pending n)) \<le> length (in_pending n)" by (rule length_delete_le)
  then have "keeps_slot (in_pending n) (AList.delete tid (in_pending n))"
    if "\<forall>p. map_of (in_pending n) tid = Some p \<longrightarrow> \<not> pt_running p"
    using that by (auto simp: keeps_slot_def)
  then show ?thesis
    using assms by (auto simp: execute_begin_def within_lease_def Let_def split: option.splits if_splits)
qed

lemma finish_slot:
  assumes "slot_ok (n, fl)" "(tid, t, signer) \<in> set fl" "in_pending n' = in_pending n"
  shows "slot_ok (execute_end tid n', remove1 (tid, t, signer) fl)"
proof -
  have d: "distinct (map fst fl)" using assms(1) by (simp add: slot_ok_def)
  then have df: "distinct fl" by (simp add: distinct_map)
  have "tid \<notin> fst ` set (remove1 (tid, t, signer) fl)"
  proof
    assume "tid \<in> fst ` set (remove1 (tid, t, signer) fl)"
    then obtain x where "x \<in> set fl" "fst x = tid" "x \<noteq> (tid, t, signer)" using df by auto
    then show False using d assms(2) by (auto simp: distinct_map inj_on_def)
  qed
  moreover have "distinct (map fst (remove1 (tid, t, signer) fl))"
    using d df by (auto simp: distinct_map intro: inj_on_subset)
  moreover have "length (AList.delete tid (in_pending n)) \<le> length (in_pending n)" by (rule length_delete_le)
  ultimately show ?thesis
    using assms(1,3) df by (auto simp: slot_ok_def execute_end_def)
qed

lemma task_step_ok: "task_step E s s' \<Longrightarrow> slot_ok s \<Longrightarrow> slot_ok s'"
proof (induction rule: task_step.induct)
  case (serve envelope m signer n fl)
  then show ?case by (blast intro: keeps_slot_ok handle_slot)
next
  case (observe n fl)
  then show ?case by (blast intro: keeps_slot_ok capability_slot)
next
  case (begin_commit tid signer b k n t n' fl)
  then show ?case using begin_slot [of "n\<lparr>in_ticks := k, in_request_budget := b\<rparr>" fl E tid signer t n'] by (simp add: slot_ok_def)
next
  case (refuse_commit tid signer b k n r n' fl)
  then have "keeps_slot (in_pending n) (in_pending n')"
    using refuse_slot [OF refuse_commit(1-3)] by simp
  then show ?case using refuse_commit by (blast intro: keeps_slot_ok)
next
  case (finish tid t signer fl n r n')
  have "frame in_pending (execute_run E tid t signer)"
    by (rule execute_run_frame) (simp_all add: append_ledger_event_frame)
  from frameD [OF this finish(2)] finish show ?case by (blast intro: finish_slot)
qed

lemma task_run_ok: "(task_step E)\<^sup>*\<^sup>* s s' \<Longrightarrow> slot_ok s \<Longrightarrow> slot_ok s'"
  by (induction rule: rtranclp_induct) (blast intro: task_step_ok)+

text \<open>
  C34: One task at a time. However requests, commits, cancellations and ends of runs interleave, at most
  \<open>MAX_CONCURRENT_TASKS\<close> tasks run, provided that no commit is repeated for a running task after its lease.
\<close>

theorem one_task_at_a_time:
  assumes "length (in_pending n0) \<le> MAX_CONCURRENT_TASKS" "(task_step E)\<^sup>*\<^sup>* (n0, []) (n, fl)"
  shows "length fl \<le> MAX_CONCURRENT_TASKS \<and> length (in_pending n) \<le> MAX_CONCURRENT_TASKS"
proof -
  have ok: "slot_ok (n, fl)" by (rule task_run_ok [OF assms(2)]) (use assms(1) in \<open>simp add: slot_ok_def\<close>)
  then show ?thesis using slot_ok_bound by (simp add: slot_ok_def)
qed

section \<open>A repeated commit after the lease\<close>

text \<open>
  \<open>execute\<close> looks at the lease before it looks whether the task is running. A commit repeated after
  the lease removes the reservation of the task that still runs: the node, which had no free slot,
  offers one again beside it.
\<close>

theorem late_commit_frees_running_slot:
  assumes "in_pending n = [(tid, p)]" "pt_running p" "pt_requester p = signer" "map_of (in_completed n) tid = None"
    and "pt_lease_expires_at p \<le> ne_clock E (in_ticks n)"
  shows "\<exists>e n'. execute_begin E tid signer n = (Inl e, n') \<and> in_pending n' = []
    \<and> task_slots (fst (node_capability_of E n)) = 0 \<and> task_slots (fst (node_capability_of E n')) = 1"
  using assms by (simp add: execute_begin_def Let_def node_capability_of_def hm_retain_def unexpired_def MAX_CONCURRENT_TASKS_def)

definition demo_reserved :: "bool \<Rightarrow> inner" where
  "demo_reserved running = (demo_node None)\<lparr>in_pending := [(''t'', \<lparr>pt_task = demo_task, pt_requester = NodeId [7],
     pt_lease_expires_at = 9, pt_running = running\<rparr>)]\<rparr>"

theorem one_task_at_a_time_witness:
  "\<exists>n. (task_step (demo_env [] [] (\<lambda>_. 5)))\<^sup>*\<^sup>* (demo_reserved False, []) (n, [(''t'', demo_task, NodeId [7])])
     \<and> length [(''t'', demo_task, NodeId [7])] \<le> MAX_CONCURRENT_TASKS"
proof -
  let ?E = "demo_env [] [] (\<lambda>_. 5)" and ?n = "demo_reserved False"
  have d: "task_deadline demo_task = None" by (simp add: demo_task_def)
  obtain n' where "execute_begin ?E ''t'' (NodeId [7]) (?n\<lparr>in_ticks := 1, in_request_budget := fresh_budget 0\<rparr>) = (Inr (Inr demo_task), n')"
    by (simp add: execute_begin_def demo_reserved_def demo_node_def demo_env_def Let_def d)
  then have run: "(task_step ?E)\<^sup>*\<^sup>* (?n, []) (n', [(''t'', demo_task, NodeId [7])])"
    by (intro r_into_rtranclp task_step.begin_commit)
  have "length (in_pending ?n) \<le> MAX_CONCURRENT_TASKS" by (simp add: demo_reserved_def MAX_CONCURRENT_TASKS_def)
  from one_task_at_a_time [OF this run] run show ?thesis by blast
qed

theorem late_commit_frees_running_slot_witness:
  "\<exists>e n'. execute_begin (demo_env [] [] (\<lambda>_. 20)) ''t'' (NodeId [7]) (demo_reserved True) = (Inl e, n') \<and> in_pending n' = []
    \<and> task_slots (fst (node_capability_of (demo_env [] [] (\<lambda>_. 20)) (demo_reserved True))) = 0
    \<and> task_slots (fst (node_capability_of (demo_env [] [] (\<lambda>_. 20)) n')) = 1"
  by (rule late_commit_frees_running_slot) (simp_all add: demo_reserved_def demo_node_def demo_env_def, simp_all)

end
