(* ===== verification/Node_Client.thy ===== *)
theory Node_Client
  imports Node_Handle
begin

text \<open>
  The requesting side of \<open>crates/peerless-node/src/lib.rs\<close>: exchanges, content transfer, remote, verified
  and sharded execution, replication and gossip. An action works on the node's own state and on the
  world beyond it; a network is the record of the operations of \<open>P2pRpc\<close> that the node calls. Shards of
  a wave run on threads; they talk to different peers and are taken in the order they are joined.
\<close>

section \<open>Exchanges\<close>

type_synonym ('w, 'a) clientm = "(inner \<times> 'w, node_error, 'a) action"
type_synonym 'w exchanger = "signed_envelope \<Rightarrow> ('w, signed_envelope) clientm"

record 'w network =
  net_request :: "peer_id \<Rightarrow> signed_envelope \<Rightarrow> ('w, string, signed_envelope) action"
  net_peers :: "'w \<Rightarrow> peer_id list"
  net_find_providers :: "string \<Rightarrow> ('w, string, peer_id list) action"
  net_provide :: "string \<Rightarrow> ('w, string, unit) action"
  net_publish :: "string \<Rightarrow> bytes \<Rightarrow> ('w, string, unit) action"
  net_drain :: "'w \<Rightarrow> (string \<times> peer_id \<times> bytes) list \<times> 'w"

definition on_self :: "'a nodem \<Rightarrow> ('w, 'a) clientm" where
  "on_self m = (\<lambda>(n, w). case m n of (r, n) \<Rightarrow> (r, n, w))"

definition on_net :: "('w, string, 'a) action \<Rightarrow> ('w, 'a) clientm" where
  "on_net m = (\<lambda>(n, w). case m w of (r, w) \<Rightarrow> (map_err NdP2p r, n, w))"

definition ensure_peer_identity :: "('h, 's, 'd, 'o) node_env \<Rightarrow> signed_envelope \<Rightarrow> peer_id \<Rightarrow> node_error + unit" where
  "ensure_peer_identity E response peer =
     bind_r (map_err NdP2p (try_decode_protobuf (ne_lib E) (env_public_key response))) (\<lambda>public.
     if to_peer_id E public \<noteq> peer then Inl (NdP2p ''signed response identity differs from connected peer'') else Inr ())"

definition p2p_exchanger :: "('h, 's, 'd, 'o) node_env \<Rightarrow> 'w network \<Rightarrow> peer_id \<Rightarrow> 'w exchanger" where
  "p2p_exchanger E net peer envelope =
     bind_m (on_net (net_request net peer envelope)) (\<lambda>response.
     bind_m (pure_m (ensure_peer_identity E response peer)) (\<lambda>_. pure_m (Inr response)))"

definition local_exchanger :: "('h, 's, 'd, 'o) node_env \<Rightarrow> 'w exchanger" where
  "local_exchanger E envelope = on_self (handle E envelope)"

definition exchange :: "('h, 's, 'd, 'o) node_env \<Rightarrow> 'w exchanger \<Rightarrow> message \<Rightarrow> ('w, message) clientm" where
  "exchange E x m =
     bind_m (on_self (seal_m E m)) (\<lambda>envelope.
     bind_m (x envelope) (\<lambda>response.
     pure_m (map_err NdProtocol (envelope_open (ne_lib E) (sd_message E) response))))"

definition send_p2p :: "('h, 's, 'd, 'o) node_env \<Rightarrow> 'w network \<Rightarrow> peer_id \<Rightarrow> message \<Rightarrow> ('w, message) clientm" where
  "send_p2p E net peer m = exchange E (p2p_exchanger E net peer) m"

section \<open>Content transfer\<close>

definition expect_content :: "content_id \<Rightarrow> message \<Rightarrow> node_error + unit" where
  "expect_content i m =
     (case m of
        HasContent found \<Rightarrow> if found = i then Inr () else Inl NdUnexpectedResponse
      | TaskError _ reason \<Rightarrow> Inl (NdRejected reason)
      | TaskReject _ reason \<Rightarrow> Inl (NdRejected reason)
      | _ \<Rightarrow> Inl NdUnexpectedResponse)"

fun send_chunks ::
  "('h, 's, 'd, 'o) node_env \<Rightarrow> 'w exchanger \<Rightarrow> content_id \<Rightarrow> nat \<Rightarrow> bytes list \<Rightarrow> ('w, unit) clientm" where
  "send_chunks E x i index [] = pure_m (Inr ())"
| "send_chunks E x i index (chunk # rest) =
     (let chunk_hash = content_of (ne_lib E) chunk in
      bind_m (exchange E x (ContentChunk i (of_nat index) chunk chunk_hash)) (\<lambda>answer.
      bind_m (pure_m (expect_content chunk_hash answer)) (\<lambda>_.
      send_chunks E x i (index + 1) rest)))"

definition transfer_content_via ::
  "('h, 's, 'd, 'o) node_env \<Rightarrow> 'w exchanger \<Rightarrow> content_id \<Rightarrow> bytes \<Rightarrow> ('w, unit) clientm" where
  "transfer_content_via E x i bytes =
     (if \<not> content_verify (ne_lib E) i bytes
      then pure_m (Inl (NdRejected ''local content does not match task ContentId''))
      else if length bytes \<le> CONTENT_CHUNK_SIZE then
        bind_m (exchange E x (Content i bytes)) (\<lambda>answer. pure_m (expect_content i answer))
      else
        bind_m (exchange E x (ContentStart i (of_nat (length bytes)) (of_nat CONTENT_CHUNK_SIZE))) (\<lambda>answer.
        bind_m (pure_m (if answer = HasContent i then Inr () else Inl NdUnexpectedResponse)) (\<lambda>_.
        bind_m (send_chunks E x i 0 (chunks CONTENT_CHUNK_SIZE bytes)) (\<lambda>_.
        bind_m (exchange E x (ContentComplete i)) (\<lambda>answer.
        pure_m (expect_content i answer))))))"

section \<open>Remote execution\<close>

definition expect_accept :: "string \<Rightarrow> message \<Rightarrow> node_error + unit" where
  "expect_accept tid m =
     (case m of
        TaskAccept i \<Rightarrow> if i = tid then Inr () else Inl NdUnexpectedResponse
      | TaskReject _ reason \<Rightarrow> Inl (NdRejected reason)
      | _ \<Rightarrow> Inl NdUnexpectedResponse)"

definition expect_result :: "('h, 's, 'd, 'o) node_env \<Rightarrow> task \<Rightarrow> message \<Rightarrow> node_error + execution_record" where
  "expect_result E t m =
     (case m of
        TaskResult v \<Rightarrow>
          bind_r (map_err NdProtocol (ser_verify (ne_lib E) (sd_record E) v)) (\<lambda>ok.
          if ok \<and> er_task_id (ser_record v) = task_id t \<and> er_component (ser_record v) = task_component t
             \<and> er_input (ser_record v) = task_input t
          then Inr (ser_record v) else Inl (NdRejected ''invalid execution record signature''))
      | TaskReject _ reason \<Rightarrow> Inl (NdRejected reason)
      | _ \<Rightarrow> Inl NdUnexpectedResponse)"

definition expect_output :: "'z hash_lib_scheme \<Rightarrow> content_id \<Rightarrow> message \<Rightarrow> node_error + bytes" where
  "expect_output L output m =
     (case m of
        Content i bytes \<Rightarrow> if i = output \<and> content_verify L i bytes then Inr bytes else Inl NdUnexpectedResponse
      | _ \<Rightarrow> Inl NdUnexpectedResponse)"

definition remote_execute_bytes_via ::
  "('h, 's, 'd, 'o) node_env \<Rightarrow> 'w exchanger \<Rightarrow> task \<Rightarrow> bytes \<Rightarrow> bytes \<Rightarrow> ('w, execution_record \<times> bytes) clientm" where
  "remote_execute_bytes_via E x t component input =
     bind_m (transfer_content_via E x (task_component t) component) (\<lambda>_.
     bind_m (transfer_content_via E x (task_input t) input) (\<lambda>_.
     bind_m (on_self (node_now E)) (\<lambda>now nw.
     bind_m (exchange E x (TaskOffer t (self_id (fst nw)) (now + 30000))) (\<lambda>answer.
     bind_m (pure_m (expect_accept (task_id t) answer)) (\<lambda>_.
     bind_m (exchange E x (TaskCommit (task_id t))) (\<lambda>answer.
     bind_m (pure_m (expect_result E t answer)) (\<lambda>r.
     bind_m (exchange E x (GetContent (er_output r))) (\<lambda>answer.
     bind_m (pure_m (expect_output (ne_lib E) (er_output r) answer)) (\<lambda>bytes.
     pure_m (Inr (r, bytes)))))))) nw)))"

definition remote_execute_via ::
  "('h, 's, 'd, 'o) node_env \<Rightarrow> 'w exchanger \<Rightarrow> task \<Rightarrow> bytes \<Rightarrow> u32 \<Rightarrow> ('w, execution_record \<times> bytes) clientm" where
  "remote_execute_via E x t component input = remote_execute_bytes_via E x t component (i32_to_le_bytes input)"

definition remote_execute_bytes_p2p ::
  "('h, 's, 'd, 'o) node_env \<Rightarrow> 'w network \<Rightarrow> peer_id \<Rightarrow> task \<Rightarrow> bytes \<Rightarrow> bytes \<Rightarrow> ('w, execution_record \<times> bytes) clientm" where
  "remote_execute_bytes_p2p E net peer t component input =
     remote_execute_bytes_via E (p2p_exchanger E net peer) t component input"

definition execute_local ::
  "('h, 's, 'd, 'o) node_env \<Rightarrow> task \<Rightarrow> bytes \<Rightarrow> u32 \<Rightarrow> ('w, execution_record \<times> bytes) clientm" where
  "execute_local E t component input = remote_execute_via E (local_exchanger E) t component input"

definition execute_local_bytes ::
  "('h, 's, 'd, 'o) node_env \<Rightarrow> task \<Rightarrow> bytes \<Rightarrow> bytes \<Rightarrow> ('w, execution_record \<times> bytes) clientm" where
  "execute_local_bytes E t component input = remote_execute_bytes_via E (local_exchanger E) t component input"

fun peer_bytes :: "peer_id \<Rightarrow> bytes" where
  "peer_bytes (PeerId b) = b"

definition private_peer_key :: "'z hash_lib_scheme \<Rightarrow> peer_id \<Rightarrow> node_id" where
  "private_peer_key L peer = node_derive L (peer_bytes peer)"

fun str_contains :: "string \<Rightarrow> string \<Rightarrow> bool" where
  "str_contains p [] \<longleftrightarrow> p = []"
| "str_contains p (c # cs) \<longleftrightarrow> take (length p) (c # cs) = p \<or> str_contains p cs"

definition remote_execute_p2p ::
  "('h, 's, 'd, 'o) node_env \<Rightarrow> 'w network \<Rightarrow> peer_id \<Rightarrow> task \<Rightarrow> bytes \<Rightarrow> u32 \<Rightarrow> ('w, execution_record \<times> bytes) clientm" where
  "remote_execute_p2p E net peer t component input = (\<lambda>nw.
     case remote_execute_via E (p2p_exchanger E net peer) t component input nw of (result, nw) \<Rightarrow>
       let private_peer = node_display (ne_lib E) (private_peer_key (ne_lib E) peer) in
       bind_m
         (case result of
            Inr _ \<Rightarrow> (\<lambda>nw. on_self (on_db (md_record_success private_peer (ne_elapsed_ms E (in_ticks (fst nw))))) nw)
          | Inl e \<Rightarrow>
              let text = ne_error_text E e in
              on_self (on_db (md_record_failure private_peer (str_contains ''invalid'' text) (str_contains ''timeout'' text))))
         (\<lambda>_. pure_m result) nw)"

section \<open>Choosing peers\<close>

definition assigned_to :: "'z hash_lib_scheme \<Rightarrow> inner \<Rightarrow> peer_id \<Rightarrow> u64" where
  "assigned_to L n peer = (case map_of (in_placement_counts n) (private_peer_key L peer) of None \<Rightarrow> 0 | Some c \<Rightarrow> c)"

text \<open>Ordered by assignments, then by the bytes of the identifier: two stable sorts.\<close>

definition ordered_remote_executors :: "'z hash_lib_scheme \<Rightarrow> 'w network \<Rightarrow> inner \<times> 'w \<Rightarrow> peer_id list" where
  "ordered_remote_executors L net = (\<lambda>(n, w). sort_key (assigned_to L n) (sort_key peer_bytes (net_peers net w)))"

definition record_private_assignment :: "'z hash_lib_scheme \<Rightarrow> peer_id \<Rightarrow> ('w, unit) clientm" where
  "record_private_assignment L peer = on_self (modify_n (\<lambda>n.
     n\<lparr>in_placement_counts := AList.update (private_peer_key L peer) (assigned_to L n peer + 1) (in_placement_counts n)\<rparr>))"

fun first_success :: "'z hash_lib_scheme \<Rightarrow> (peer_id \<Rightarrow> ('w, 'a) clientm) \<Rightarrow> ('w, 'a) clientm \<Rightarrow> peer_id list \<Rightarrow> ('w, 'a) clientm" where
  "first_success L run fallback [] = fallback"
| "first_success L run fallback (peer # peers) = (\<lambda>nw.
     case run peer nw of
       (Inr r, nw) \<Rightarrow> bind_m (record_private_assignment L peer) (\<lambda>_. pure_m (Inr r)) nw
     | (Inl _, nw) \<Rightarrow> first_success L run fallback peers nw)"

definition execute_best ::
  "('h, 's, 'd, 'o) node_env \<Rightarrow> 'w network \<Rightarrow> task \<Rightarrow> bytes \<Rightarrow> u32 \<Rightarrow> ('w, execution_record \<times> bytes) clientm" where
  "execute_best E net t component input = (\<lambda>nw.
     first_success (ne_lib E) (\<lambda>peer. remote_execute_p2p E net peer t component input)
       (execute_local E t component input) (ordered_remote_executors (ne_lib E) net nw) nw)"

definition execute_best_bytes ::
  "('h, 's, 'd, 'o) node_env \<Rightarrow> 'w network \<Rightarrow> task \<Rightarrow> bytes \<Rightarrow> bytes \<Rightarrow> ('w, execution_record \<times> bytes) clientm" where
  "execute_best_bytes E net t component input = (\<lambda>nw.
     first_success (ne_lib E) (\<lambda>peer. remote_execute_bytes_p2p E net peer t component input)
       (execute_local_bytes E t component input) (ordered_remote_executors (ne_lib E) net nw) nw)"

section \<open>Verified execution\<close>

record verified_execution =
  ve_accepted :: execution_record
  ve_output :: bytes
  ve_executions :: "execution_record list"

fun required_executions :: "verification_policy \<Rightarrow> nat" where
  "required_executions TrustExecutor = 1"
| "required_executions (Replicate count) = unat count"
| "required_executions (Quorum executions _) = unat executions"

fun gather_results ::
  "(peer_id \<Rightarrow> ('w, execution_record \<times> bytes) clientm) \<Rightarrow> nat \<Rightarrow> node_id set \<Rightarrow> (execution_record \<times> bytes) list \<Rightarrow>
     peer_id list \<Rightarrow> inner \<times> 'w \<Rightarrow> (execution_record \<times> bytes) list \<times> inner \<times> 'w" where
  "gather_results run required executors results [] nw = (results, nw)"
| "gather_results run required executors results (peer # peers) nw =
     (if length results \<ge> required then (results, nw)
      else
        case run peer nw of
          (Inr (r, bytes), nw) \<Rightarrow>
            if er_executor r \<notin> executors
            then gather_results run required (insert (er_executor r) executors) (results @ [(r, bytes)]) peers nw
            else gather_results run required executors results peers nw
        | (Inl _, nw) \<Rightarrow> gather_results run required executors results peers nw)"

fun verification_text :: "verification_error \<Rightarrow> string" where
  "verification_text InsufficientExecutions = ''not enough executions to satisfy verification policy''"
| "verification_text NoAgreement = ''execution outputs did not satisfy verification policy''"

definition execute_verified_p2p ::
  "('h, 's, 'd, 'o) node_env \<Rightarrow> 'w network \<Rightarrow> peer_id list \<Rightarrow> task \<Rightarrow> bytes \<Rightarrow> u32 \<Rightarrow> ('w, verified_execution) clientm" where
  "execute_verified_p2p E net peers t component input = (\<lambda>nw.
     let required = required_executions (task_verification t) in
     if required = 0 then (Inl (NdRejected ''verification requires at least one execution''), nw)
     else
       case gather_results (\<lambda>peer. remote_execute_p2p E net peer t component input) required {} [] peers nw of (results, nw) \<Rightarrow>
         (bind_r (map_err (\<lambda>e. NdRejected (verification_text e))
           (verify_outputs (ne_into_iter E) (task_verification t) (map (\<lambda>(r, _). er_output r) results))) (\<lambda>accepted_id.
         bind_r (ok_or NdUnexpectedResponse (find (\<lambda>(r, _). er_output r = accepted_id) results)) (\<lambda>(r, output).
         Inr \<lparr>ve_accepted = r, ve_output = output, ve_executions = map fst results\<rparr>)), nw))"

section \<open>Sharded execution\<close>

record distributed_execution =
  de_shards :: "execution_record list"
  de_outputs :: "bytes list"
  de_input_bytes :: nat
  de_peak_shard_bytes :: nat

definition shard_task :: "'z hash_lib_scheme \<Rightarrow> task \<Rightarrow> nat \<Rightarrow> bytes \<Rightarrow> task" where
  "shard_task L t index shard = t\<lparr>task_id := task_id t @ ''-shard-'' @ fmt_dec index, task_input := content_of L shard\<rparr>"

text \<open>One wave: every shard goes to the peer of its position.\<close>

fun start_wave ::
  "('h, 's, 'd, 'o) node_env \<Rightarrow> 'w network \<Rightarrow> peer_id list \<Rightarrow> task \<Rightarrow> bytes \<Rightarrow> nat \<Rightarrow> nat \<Rightarrow> bytes list \<Rightarrow> inner \<times> 'w \<Rightarrow>
     (peer_id \<times> task \<times> (node_error + execution_record \<times> bytes)) list \<times> inner \<times> 'w" where
  "start_wave E net peers t component base offset [] nw = ([], nw)"
| "start_wave E net peers t component base offset (shard # rest) nw =
     (let peer = peers ! offset; st = shard_task (ne_lib E) t (base + offset) shard in
      case remote_execute_bytes_p2p E net peer st component shard nw of (r, nw) \<Rightarrow>
      case start_wave E net peers t component base (offset + 1) rest nw of (rs, nw) \<Rightarrow>
        ((peer, st, r) # rs, nw))"

text \<open>A failed shard is tried on the other peers in turn.\<close>

fun recover_shard ::
  "('h, 's, 'd, 'o) node_env \<Rightarrow> 'w network \<Rightarrow> task \<Rightarrow> bytes \<Rightarrow> bytes \<Rightarrow> peer_id list \<Rightarrow> inner \<times> 'w \<Rightarrow>
     (execution_record \<times> bytes \<times> peer_id) option \<times> inner \<times> 'w" where
  "recover_shard E net st component shard [] nw = (None, nw)"
| "recover_shard E net st component shard (peer # peers) nw =
     (case remote_execute_bytes_p2p E net peer st component shard nw of
        (Inr (r, output), nw) \<Rightarrow> (Some (r, output, peer), nw)
      | (Inl _, nw) \<Rightarrow> recover_shard E net st component shard peers nw)"

fun finish_wave ::
  "('h, 's, 'd, 'o) node_env \<Rightarrow> 'w network \<Rightarrow> peer_id list \<Rightarrow> bytes \<Rightarrow>
     (peer_id \<times> task \<times> (node_error + execution_record \<times> bytes)) list \<Rightarrow> bytes list \<Rightarrow> ('w, (execution_record \<times> bytes) list) clientm" where
  "finish_wave E net peers component ((initial_peer, st, initial) # rest) (shard # shards) =
     bind_m
       (case initial of
          Inr (r, output) \<Rightarrow> pure_m (Inr (r, output, initial_peer))
        | Inl e \<Rightarrow> (\<lambda>nw.
            case recover_shard E net st component shard (filter (\<lambda>peer. peer \<noteq> initial_peer) peers) nw of (recovered, nw) \<Rightarrow>
              (ok_or e recovered, nw)))
       (\<lambda>(r, output, used_peer).
     bind_m (record_private_assignment (ne_lib E) used_peer) (\<lambda>_.
     bind_m (finish_wave E net peers component rest shards) (\<lambda>done.
     pure_m (Inr ((r, output) # done)))))"
| "finish_wave E net peers component _ _ = pure_m (Inr [])"

fun run_waves ::
  "('h, 's, 'd, 'o) node_env \<Rightarrow> 'w network \<Rightarrow> peer_id list \<Rightarrow> task \<Rightarrow> bytes \<Rightarrow> nat \<Rightarrow> bytes list list \<Rightarrow>
     ('w, (execution_record \<times> bytes) list) clientm" where
  "run_waves E net peers t component wave [] = pure_m (Inr [])"
| "run_waves E net peers t component wave (batch # batches) = (\<lambda>nw.
     case start_wave E net peers t component (wave * length peers) 0 batch nw of (results, nw) \<Rightarrow>
       bind_m (finish_wave E net peers component results batch) (\<lambda>done.
       bind_m (run_waves E net peers t component (wave + 1) batches) (\<lambda>later.
       pure_m (Inr (done @ later)))) nw)"

definition execute_sharded_bytes_p2p ::
  "('h, 's, 'd, 'o) node_env \<Rightarrow> 'w network \<Rightarrow> peer_id list \<Rightarrow> task \<Rightarrow> bytes \<Rightarrow> bytes \<Rightarrow> nat \<Rightarrow> ('w, distributed_execution) clientm" where
  "execute_sharded_bytes_p2p E net peers t component input shard_bytes =
     bind_m (pure_m (ok_or (NdRejected ''task memory limit is unsafe'') (task_memory_limit t))) (\<lambda>memory_limit.
     if shard_bytes = 0 \<or> shard_bytes > unat memory_limit
     then pure_m (Inl (NdRejected ''shard size must be non-zero and fit the per-node task memory limit''))
     else if content_of (ne_lib E) component \<noteq> task_component t
     then pure_m (Inl (NdRejected ''component bytes do not match the task ContentId''))
     else
       let peers = remdups_adj (sort_key peer_bytes peers) in
       if peers = [] then pure_m (Inl (NdRejected ''distributed execution requires at least one remote peer''))
       else
         let shards = (if input = [] then [input] else chunks shard_bytes input) in
         bind_m (run_waves E net peers t component 0 (chunks (length peers) shards)) (\<lambda>done.
         pure_m (Inr \<lparr>de_shards = map fst done, de_outputs = map snd done, de_input_bytes = length input,
           de_peak_shard_bytes = Max (insert 0 (set (map length shards)))\<rparr>)))"

section \<open>Content, replication and gossip\<close>

definition node_put :: "'z hash_lib_scheme \<Rightarrow> bytes \<Rightarrow> content_id nodem" where
  "node_put L bytes n = on_fs NdStorage (cas_put L (in_cas n) bytes) n"

definition put_and_provide :: "('h, 's, 'd, 'o) node_env \<Rightarrow> 'w network \<Rightarrow> bytes \<Rightarrow> ('w, content_id) clientm" where
  "put_and_provide E net bytes =
     bind_m (on_self (node_put (ne_lib E) bytes)) (\<lambda>i.
     bind_m (on_net (net_provide net (content_display (ne_lib E) i))) (\<lambda>_. pure_m (Inr i)))"

fun fetch_from ::
  "('h, 's, 'd, 'o) node_env \<Rightarrow> 'w network \<Rightarrow> content_id \<Rightarrow> peer_id list \<Rightarrow> ('w, bytes) clientm" where
  "fetch_from E net i [] = pure_m (Inl (NdStorage (CasNotFound i)))"
| "fetch_from E net i (peer # peers) = (\<lambda>nw.
     case send_p2p E net peer (GetContent i) nw of
       (Inr (Content found bytes), nw) \<Rightarrow>
         if found = i \<and> content_verify (ne_lib E) i bytes
         then bind_m (on_self (node_put (ne_lib E) bytes)) (\<lambda>_. pure_m (Inr bytes)) nw
         else fetch_from E net i peers nw
     | (_, nw) \<Rightarrow> fetch_from E net i peers nw)"

definition fetch_p2p :: "('h, 's, 'd, 'o) node_env \<Rightarrow> 'w network \<Rightarrow> content_id \<Rightarrow> ('w, bytes) clientm" where
  "fetch_p2p E net i = (\<lambda>nw.
     case on_self (\<lambda>n. on_fs NdStorage (cas_get (ne_lib E) (in_cas n) i) n) nw of
       (Inr bytes, nw) \<Rightarrow> (Inr bytes, nw)
     | (Inl _, nw) \<Rightarrow>
         bind_m (on_net (net_find_providers net (content_display (ne_lib E) i))) (\<lambda>peers. fetch_from E net i peers) nw)"

fun replicate_to ::
  "('h, 's, 'd, 'o) node_env \<Rightarrow> 'w network \<Rightarrow> content_id \<Rightarrow> bytes \<Rightarrow> nat \<Rightarrow> peer_id list \<Rightarrow> peer_id list \<Rightarrow> inner \<times> 'w \<Rightarrow>
     peer_id list \<times> inner \<times> 'w" where
  "replicate_to E net i bytes target replicas [] nw = (replicas, nw)"
| "replicate_to E net i bytes target replicas (peer # peers) nw =
     (if length replicas \<ge> target then (replicas, nw)
      else
        case send_p2p E net peer (Content i bytes) nw of (r, nw) \<Rightarrow>
          replicate_to E net i bytes target (if r = Inr (HasContent i) then replicas @ [peer] else replicas) peers nw)"

definition replicate_p2p ::
  "('h, 's, 'd, 'o) node_env \<Rightarrow> 'w network \<Rightarrow> peer_id list \<Rightarrow> content_id \<Rightarrow> replication_policy \<Rightarrow> ('w, peer_id list) clientm" where
  "replicate_p2p E net peers i policy =
     (if \<not> replication_validate policy then pure_m (Inl (NdInsufficientReplicas 0 (minimum_replicas policy)))
      else
        bind_m (on_self (\<lambda>n. on_fs NdStorage (cas_get (ne_lib E) (in_cas n) i) n)) (\<lambda>bytes nw.
        case replicate_to E net i bytes (unat (saturating_sub (target_replicas policy) 1)) [] peers nw of (replicas, nw) \<Rightarrow>
          let actual = length replicas + 1 in
          if actual < unat (minimum_replicas policy)
          then (Inl (NdInsufficientReplicas actual (minimum_replicas policy)), nw) else (Inr replicas, nw)))"

record replication_report =
  rr_content :: content_id
  rr_live_replicas :: "peer_id list"
  rr_repaired :: "peer_id list"

fun live_replicas :: "('h, 's, 'd, 'o) node_env \<Rightarrow> 'w network \<Rightarrow> content_id \<Rightarrow> peer_id list \<Rightarrow> inner \<times> 'w \<Rightarrow> peer_id list \<times> inner \<times> 'w" where
  "live_replicas E net i [] nw = ([], nw)"
| "live_replicas E net i (peer # peers) nw =
     (case send_p2p E net peer (CheckContent i) nw of (r, nw) \<Rightarrow>
      case live_replicas E net i peers nw of (live, nw) \<Rightarrow>
        (if r = Inr (HasContent i) then List.insert peer live else live, nw))"

fun repair_loop ::
  "('h, 's, 'd, 'o) node_env \<Rightarrow> 'w network \<Rightarrow> content_id \<Rightarrow> bytes \<Rightarrow> nat \<Rightarrow> peer_id list \<Rightarrow> peer_id list \<Rightarrow> peer_id list \<Rightarrow> inner \<times> 'w \<Rightarrow>
     (peer_id list \<times> peer_id list) \<times> inner \<times> 'w" where
  "repair_loop E net i bytes target live repaired [] nw = ((live, repaired), nw)"
| "repair_loop E net i bytes target live repaired (peer # peers) nw =
     (if length live \<ge> target then ((live, repaired), nw)
      else if peer \<in> set live then repair_loop E net i bytes target live repaired peers nw
      else
        case transfer_content_via E (p2p_exchanger E net peer) i bytes nw of
          (Inr _, nw) \<Rightarrow> repair_loop E net i bytes target (List.insert peer live) (repaired @ [peer]) peers nw
        | (Inl _, nw) \<Rightarrow> repair_loop E net i bytes target live repaired peers nw)"

text \<open>The set of known replicas is an argument and, updated, a result; on an error before the update it is kept.\<close>

definition repair_replication_p2p ::
  "('h, 's, 'd, 'o) node_env \<Rightarrow> 'w network \<Rightarrow> content_id \<Rightarrow> replication_policy \<Rightarrow> peer_id list \<Rightarrow> inner \<times> 'w \<Rightarrow>
     ((node_error + replication_report) \<times> peer_id list) \<times> inner \<times> 'w" where
  "repair_replication_p2p E net i policy known nw =
     (if \<not> replication_validate policy then ((Inl (NdInsufficientReplicas 0 (minimum_replicas policy)), known), nw)
      else
        case live_replicas E net i known nw of (live, nw) \<Rightarrow>
        (case on_self (\<lambda>n. on_fs NdStorage (cas_get (ne_lib E) (in_cas n) i) n) nw of
           (Inl e, nw) \<Rightarrow> ((Inl e, known), nw)
         | (Inr bytes, nw) \<Rightarrow>
             (case repair_loop E net i bytes (unat (saturating_sub (target_replicas policy) 1)) live [] (net_peers net (snd nw)) nw of
                ((live, repaired), nw) \<Rightarrow>
                  let actual = length live + 1 in
                  if actual < unat (minimum_replicas policy)
                  then ((Inl (NdInsufficientReplicas actual (minimum_replicas policy)), live), nw)
                  else ((Inr \<lparr>rr_content = i, rr_live_replicas = live, rr_repaired = repaired\<rparr>, live), nw))))"

text \<open>The signer of a gossip message must hold the permission of its topic when a policy is active.\<close>

definition gossip_allowed :: "('h, 's, 'd, 'o) node_env \<Rightarrow> string \<Rightarrow> node_id \<Rightarrow> bool nodem" where
  "gossip_allowed E permission signer = (\<lambda>n.
     case in_membership n of
       None \<Rightarrow> (Inr True, n)
     | Some policy \<Rightarrow>
         (case map_of (mp_permissions policy) signer of
            None \<Rightarrow> (Inr False, n)
          | Some access \<Rightarrow> bind_m (node_now E) (\<lambda>now. pure_m (Inr (allows access permission now))) n))"

fun merge_gossip ::
  "('h, 's, 'd, 'o) node_env \<Rightarrow> string \<Rightarrow> string \<Rightarrow> (message \<Rightarrow> bool nodem) \<Rightarrow> (string \<times> peer_id \<times> bytes) list \<Rightarrow> nat nodem" where
  "merge_gossip E wanted permission apply_message [] = pure_m (Inr 0)"
| "merge_gossip E wanted permission apply_message ((topic, _, bytes) # rest) =
     (if topic \<noteq> wanted then merge_gossip E wanted permission apply_message rest
      else
        bind_m (pure_m (map_err (NdProtocol \<circ> PeJson) (from_slice (sd_envelope E) bytes))) (\<lambda>envelope.
        bind_m (pure_m (map_err NdProtocol (open_with_signer (ne_lib E) (sd_message E) envelope))) (\<lambda>(m, signer).
        bind_m (gossip_allowed E permission signer) (\<lambda>allowed.
        if \<not> allowed then merge_gossip E wanted permission apply_message rest
        else
          bind_m (apply_message m) (\<lambda>applied.
          bind_m (merge_gossip E wanted permission apply_message rest) (\<lambda>count.
          pure_m (Inr (if applied then count + 1 else count))))))))"

definition apply_state_message :: "('h, 's, 'd, 'o) node_env \<Rightarrow> message \<Rightarrow> bool nodem" where
  "apply_state_message E m = (\<lambda>n.
     case m of
       StateSnapshot document snapshot \<Rightarrow>
         bind_m (on_fs NdState (store_merge_snapshot (ne_automerge E) (in_state n) document snapshot)) (\<lambda>_. pure_m (Inr True)) n
     | _ \<Rightarrow> (Inr False, n))"

definition merge_state_gossip :: "('h, 's, 'd, 'o) node_env \<Rightarrow> 'w network \<Rightarrow> ('w, nat) clientm" where
  "merge_state_gossip E net = (\<lambda>(n, w).
     case net_drain net w of (messages, w) \<Rightarrow>
       on_self (merge_gossip E ''peerless/state/v1'' ''state'' (apply_state_message E) messages) (n, w))"

definition apply_ledger_message ::
  "('h, 's, 'd, 'o) node_env \<Rightarrow> (block \<Rightarrow> ledger_error + bool) \<Rightarrow> message \<Rightarrow> bool nodem" where
  "apply_ledger_message E verifies m =
     (case m of
        LedgerBlock bytes \<Rightarrow>
          bind_m (pure_m (map_err (NdLedger \<circ> LeJson) (from_slice (sd_block (ne_lib E)) bytes))) (\<lambda>b.
          bind_m (append_ledger_block (ne_lib E) verifies b) (\<lambda>_. pure_m (Inr True)))
      | _ \<Rightarrow> pure_m (Inr False))"

definition merge_ledger_gossip ::
  "('h, 's, 'd, 'o) node_env \<Rightarrow> 'w network \<Rightarrow> (block \<Rightarrow> ledger_error + bool) \<Rightarrow> ('w, nat) clientm" where
  "merge_ledger_gossip E net verifies = (\<lambda>(n, w).
     case net_drain net w of (messages, w) \<Rightarrow>
       on_self (merge_gossip E ''peerless/ledger/v1'' ''ledger'' (apply_ledger_message E verifies) messages) (n, w))"

definition publish_message :: "('h, 's, 'd, 'o) node_env \<Rightarrow> 'w network \<Rightarrow> string \<Rightarrow> message \<Rightarrow> ('w, unit) clientm" where
  "publish_message E net topic m =
     bind_m (on_self (seal_m E m)) (\<lambda>envelope.
     bind_m (pure_m (map_err (NdProtocol \<circ> PeJson) (to_vec (sd_envelope E) envelope))) (\<lambda>bytes.
     on_net (net_publish net topic bytes)))"

definition publish_ledger_block :: "('h, 's, 'd, 'o) node_env \<Rightarrow> 'w network \<Rightarrow> block \<Rightarrow> ('w, unit) clientm" where
  "publish_ledger_block E net b =
     bind_m (pure_m (map_err (NdLedger \<circ> LeJson) (to_vec (sd_block (ne_lib E)) b))) (\<lambda>bytes.
     publish_message E net ''peerless/ledger/v1'' (LedgerBlock bytes))"

definition publish_state ::
  "('h, 's, 'd, 'o) node_env \<Rightarrow> 'w network \<Rightarrow> string \<Rightarrow> 'd state_document \<Rightarrow> inner \<times> 'w \<Rightarrow>
     ((node_error + unit) \<times> 'd state_document) \<times> inner \<times> 'w" where
  "publish_state E net document doc = (\<lambda>(n, w).
     case doc_snapshot (ne_automerge E) doc of (snapshot, doc) \<Rightarrow>
     (case doc_save (ne_automerge E) (doc, in_fs n) of (r, doc, s) \<Rightarrow>
        (case bind_m (pure_m (map_err NdState r)) (\<lambda>_.
            publish_message E net ''peerless/state/v1'' (StateSnapshot document snapshot)) (n\<lparr>in_fs := s\<rparr>, w) of
           (r, nw) \<Rightarrow> ((r, doc), nw))))"

end
