(* ===== verification/Node_Client_Props.thy ===== *)
theory Node_Client_Props
  imports Node_Client Node_Props
begin

text \<open>
  What a requester can rely on, whatever the other side answers: results are signed and belong to the
  task, accepted outputs are agreed on by different executors, shards cover the input in order.
\<close>

section \<open>Authentic results\<close>

text \<open>A record that an executor signed for this very task, with the bytes of its output.\<close>

definition authentic :: "('h, 's, 'd, 'o) node_env \<Rightarrow> task \<Rightarrow> execution_record \<times> bytes \<Rightarrow> bool" where
  "authentic E t = (\<lambda>(r, output). er_task_id r = task_id t \<and> er_component r = task_component t \<and> er_input r = task_input t
     \<and> content_verify (ne_lib E) (er_output r) output
     \<and> (\<exists>v. ser_record v = r \<and> ser_signer v = er_executor r \<and> ser_verify (ne_lib E) (sd_record E) v = Inr True))"

lemma pure_m_Inr_iff: "pure_m r s = (Inr y, s') \<longleftrightarrow> r = Inr y \<and> s' = s"
  by auto

lemma ser_verify_signer: "ser_verify L S v = Inr True \<Longrightarrow> ser_signer v = er_executor (ser_record v)"
  by (auto simp: ser_verify_def split: if_splits)

lemma expect_result_Inr:
  assumes "expect_result E t m = Inr r"
  shows "er_task_id r = task_id t \<and> er_component r = task_component t \<and> er_input r = task_input t
    \<and> (\<exists>v. ser_record v = r \<and> ser_signer v = er_executor r \<and> ser_verify (ne_lib E) (sd_record E) v = Inr True)"
proof (cases m)
  case (TaskResult v)
  then have "ser_verify (ne_lib E) (sd_record E) v = Inr True" "ser_record v = r" "er_task_id r = task_id t"
    "er_component r = task_component t" "er_input r = task_input t"
    using assms by (auto simp: expect_result_def result_simps split: if_splits)
  then show ?thesis using ser_verify_signer by blast
qed (use assms in \<open>simp_all add: expect_result_def\<close>)

lemma expect_output_Inr: "expect_output L i m = Inr bytes \<Longrightarrow> content_verify L i bytes"
  by (auto simp: expect_output_def split: message.splits if_splits)

lemma transfer_verified:
  "transfer_content_via E x i bytes nw = (Inr (), nw') \<Longrightarrow> content_verify (ne_lib E) i bytes"
  by (auto simp: transfer_content_via_def split: if_splits)

lemma remote_execute_authentic:
  assumes "remote_execute_bytes_via E x t component input nw = (Inr (r, bytes), nw')"
  shows "authentic E t (r, bytes) \<and> content_verify (ne_lib E) (task_component t) component \<and> content_verify (ne_lib E) (task_input t) input"
proof -
  obtain a b answer answer' where "transfer_content_via E x (task_component t) component nw = (Inr (), a)"
    "transfer_content_via E x (task_input t) input a = (Inr (), b)"
    and r: "expect_result E t answer = Inr r" "expect_output (ne_lib E) (er_output r) answer' = Inr bytes"
    using assms unfolding remote_execute_bytes_via_def bind_m_Inr_iff pure_m_Inr_iff by auto
  then have "content_verify (ne_lib E) (task_component t) component" "content_verify (ne_lib E) (task_input t) input"
    by (auto dest: transfer_verified)
  then show ?thesis using expect_result_Inr [OF r(1)] expect_output_Inr [OF r(2)] by (simp add: authentic_def)
qed

text \<open>
  C35: No answer of a peer is taken on trust. Whatever the other side or the transport does, a result
  that remote execution returns is a record signed by the executor it names, for this task, component
  and input, the output bytes hash to the output of the record, and the bytes sent hash to the task's identifiers.
\<close>

theorem remote_result_is_authentic:
  assumes "remote_execute_bytes_via E x t component input nw = (Inr (r, bytes), nw')"
  shows "er_task_id r = task_id t \<and> er_component r = content_of (ne_lib E) component
    \<and> er_input r = content_of (ne_lib E) input \<and> er_output r = content_of (ne_lib E) bytes
    \<and> (\<exists>v. ser_record v = r \<and> ser_signer v = er_executor r \<and> ser_verify (ne_lib E) (sd_record E) v = Inr True)"
  using remote_execute_authentic [OF assms] by (simp add: authentic_def content_verify_def)

section \<open>Asking several peers\<close>

text \<open>
  The interface between choosing peers and running a task on one of them: what a run returns is good.
\<close>

locale peer_runs =
  fixes run :: "peer_id \<Rightarrow> ('w, execution_record \<times> bytes) clientm"
    and good :: "execution_record \<times> bytes \<Rightarrow> bool"
  assumes run_good: "run peer nw = (Inr x, nw') \<Longrightarrow> good x"
begin

lemma gather_good:
  "gather_results run required executors results peers nw = (results', nw') \<Longrightarrow> list_all good results \<Longrightarrow> list_all good results'"
  by (induction peers arbitrary: executors results nw) (auto split: if_splits prod.splits sum.splits dest: run_good)

lemma gather_distinct:
  assumes "gather_results run required executors results peers nw = (results', nw')"
    and "distinct (map (er_executor \<circ> fst) results)" "set (map (er_executor \<circ> fst) results) = executors"
  shows "distinct (map (er_executor \<circ> fst) results')"
  using assms
  by (induction peers arbitrary: executors results nw) (auto split: if_splits prod.splits sum.splits)

lemma first_success_good:
  assumes "first_success L run fallback peers nw = (Inr x, nw')" "\<And>nw x nw'. fallback nw = (Inr x, nw') \<Longrightarrow> good x"
  shows "good x"
  using assms(1)
proof (induction peers arbitrary: nw)
  case Nil
  then show ?case using assms(2) by simp
next
  case (Cons peer peers)
  obtain r nw1 where r: "run peer nw = (r, nw1)" by (rule prod.exhaust)
  show ?case
  proof (cases r)
    case (Inl e)
    then show ?thesis using Cons r by simp
  next
    case (Inr y)
    then have "y = x" using Cons.prems r by (auto simp: result_simps)
    then show ?thesis using run_good r Inr by blast
  qed
qed

end

lemma remote_execute_p2p_authentic:
  assumes "remote_execute_p2p E net peer t component input nw = (Inr x, nw')"
  shows "authentic E t x"
proof -
  obtain result nw1 where r: "remote_execute_via E (p2p_exchanger E net peer) t component input nw = (result, nw1)" by (rule prod.exhaust)
  have "result = Inr x" using assms by (auto simp: remote_execute_p2p_def r Let_def result_simps)
  then show ?thesis using r remote_execute_authentic [of E "p2p_exchanger E net peer" t component "i32_to_le_bytes input" nw "fst x" "snd x"]
    by (simp add: remote_execute_via_def)
qed

interpretation remote_runs: peer_runs "\<lambda>peer. remote_execute_p2p E net peer t component input" "authentic E t"
  for E net t component input
  by unfold_locales (rule remote_execute_p2p_authentic)

interpretation remote_byte_runs: peer_runs "\<lambda>peer. remote_execute_bytes_p2p E net peer t component input" "authentic E t"
  for E net t component input
  by unfold_locales (use remote_execute_authentic in \<open>force simp: remote_execute_bytes_p2p_def\<close>)

text \<open>How many executions have to agree.\<close>

fun required_matches :: "verification_policy \<Rightarrow> nat" where
  "required_matches TrustExecutor = 1"
| "required_matches (Replicate count) = unat count"
| "required_matches (Quorum _ matches) = unat matches"

lemma count_list_take_le: "count_list (take n xs) x \<le> count_list xs x"
  by (metis append_take_drop_id count_list_append le_add1)

lemma count_list_replicate: "count_list (replicate n x) x = n"
  by (induction n) simp_all

lemma verify_outputs_matches:
  assumes "\<forall>m. set (into_iter m) = set m" "verify_outputs into_iter policy outputs = Inr v"
  shows "required_matches policy \<le> count_list outputs v"
proof (cases policy)
  case TrustExecutor
  then show ?thesis using assms(2) by (cases outputs) (auto simp: verify_outputs_def ok_or_def)
next
  case (Replicate n)
  then have "take (unat n) outputs = replicate (unat n) v" using agreement_facts(1) [OF assms(1)] assms(2) by blast
  then have "count_list (take (unat n) outputs) v = unat n" by (simp add: count_list_replicate)
  then show ?thesis using Replicate count_list_take_le by (metis required_matches.simps(2))
next
  case (Quorum n m)
  then have "unat m \<le> count_list (take (unat n) outputs) v" using agreement_facts(3) [OF assms(1)] assms(2) by blast
  then show ?thesis using Quorum count_list_take_le le_trans by (metis required_matches.simps(3))
qed

text \<open>
  C36: A verified output has the agreement that the task asks for. When verified execution returns, its executions
  are authentic records of different executors for this task, as many of them as the policy requires have the
  accepted output, and the bytes returned are that output.
\<close>

theorem verified_output_is_agreed:
  assumes "\<forall>m. set (ne_into_iter E m) = set m"
    and "execute_verified_p2p E net peers t component input nw = (Inr v, nw')"
  shows "distinct (map er_executor (ve_executions v))
    \<and> list_all (\<lambda>r. \<exists>output. authentic E t (r, output)) (ve_executions v)
    \<and> authentic E t (ve_accepted v, ve_output v) \<and> ve_accepted v \<in> set (ve_executions v)
    \<and> required_matches (task_verification t) \<le> count_list (map er_output (ve_executions v)) (er_output (ve_accepted v))"
proof -
  obtain results nw1 where g: "gather_results (\<lambda>peer. remote_execute_p2p E net peer t component input)
      (required_executions (task_verification t)) {} [] peers nw = (results, nw1)" by (rule prod.exhaust)
  obtain i r out where i: "verify_outputs (ne_into_iter E) (task_verification t) (map (\<lambda>(r, _). er_output r) results) = Inr i"
    and f: "find (\<lambda>(r, _). er_output r = i) results = Some (r, out)"
    and v: "v = \<lparr>ve_accepted = r, ve_output = out, ve_executions = map fst results\<rparr>"
    using assms(2) by (auto simp: execute_verified_p2p_def g Let_def result_simps split: if_splits prod.splits)
  have good: "list_all (authentic E t) results" using remote_runs.gather_good [OF g] by simp
  have mem: "(r, out) \<in> set results" "er_output r = i" using f by (force simp: find_Some_iff in_set_conv_nth)+
  have "distinct (map (er_executor \<circ> fst) results)" using remote_runs.gather_distinct [OF g] by simp
  moreover have "list_all (\<lambda>r. \<exists>output. authentic E t (r, output)) (map fst results)" using good by (auto simp: list_all_iff)
  moreover have "authentic E t (r, out)" using good mem(1) by (simp add: list_all_iff)
  moreover have "r \<in> set (map fst results)" using mem(1) by force
  moreover have "required_matches (task_verification t) \<le> count_list (map er_output (map fst results)) i"
    using verify_outputs_matches [OF assms(1) i] by (simp add: case_prod_unfold comp_def)
  ultimately show ?thesis using mem(2) unfolding v by simp
qed

text \<open>Trying peers in turn, and the node itself in the end, keeps the same promise.\<close>

lemma execute_best_authentic:
  assumes "execute_best_bytes E net t component input nw = (Inr x, nw')"
  shows "authentic E t x"
  using assms unfolding execute_best_bytes_def
  by (rule remote_byte_runs.first_success_good)
     (use remote_execute_authentic in \<open>force simp: execute_local_bytes_def\<close>)

section \<open>Sharded execution\<close>

text \<open>The shards with their numbers, and what each of them has to return.\<close>

definition shard_ok :: "('h, 's, 'd, 'o) node_env \<Rightarrow> task \<Rightarrow> nat \<times> bytes \<Rightarrow> execution_record \<times> bytes \<Rightarrow> bool" where
  "shard_ok E t = (\<lambda>(i, shard). authentic E (shard_task (ne_lib E) t i shard))"

definition started_ok :: "('h, 's, 'd, 'o) node_env \<Rightarrow> task \<Rightarrow> nat \<times> bytes \<Rightarrow>
    peer_id \<times> task \<times> (node_error + execution_record \<times> bytes) \<Rightarrow> bool" where
  "started_ok E t = (\<lambda>(i, shard) (_, st, r). st = shard_task (ne_lib E) t i shard \<and> (\<forall>x. r = Inr x \<longrightarrow> authentic E st x))"

lemma start_wave_ok:
  "start_wave E net peers t component base offset shards nw = (rs, nw') \<Longrightarrow>
     list_all2 (started_ok E t) (enumerate (base + offset) shards) rs"
proof (induction shards arbitrary: offset nw rs)
  case (Cons shard shards)
  let ?st = "shard_task (ne_lib E) t (base + offset) shard"
  obtain r nw1 where r: "remote_execute_bytes_p2p E net (peers ! offset) ?st component shard nw = (r, nw1)" by (rule prod.exhaust)
  obtain rs' nw2 where w: "start_wave E net peers t component base (offset + 1) shards nw1 = (rs', nw2)" by (rule prod.exhaust)
  have rs: "rs = (peers ! offset, ?st, r) # rs'" "nw2 = nw'" using Cons.prems w by (simp_all add: r Let_def)
  have "started_ok E t (base + offset, shard) (peers ! offset, ?st, r)"
    using r by (auto simp: started_ok_def dest: remote_byte_runs.run_good)
  then show ?case using Cons.IH [of "offset + 1" nw1 rs'] w by (simp add: rs)
qed simp

lemma recover_shard_ok: "recover_shard E net st component shard peers nw = (Some (r, out, peer), nw') \<Longrightarrow> authentic E st (r, out)"
  by (induction peers arbitrary: nw) (auto split: prod.splits sum.splits dest: remote_byte_runs.run_good)

lemma finish_wave_ok:
  assumes "list_all2 (started_ok E t) (enumerate base shards) rs"
    and "finish_wave E net peers component rs shards nw = (Inr res, nw')"
  shows "list_all2 (shard_ok E t) (enumerate base shards) res"
  using assms
proof (induction shards arbitrary: base rs nw nw' res)
  case (Cons shard shards)
  obtain peer st r rs' where rs: "rs = (peer, st, r) # rs'" "started_ok E t (base, shard) (peer, st, r)"
    "list_all2 (started_ok E t) (enumerate (Suc base) shards) rs'"
    using Cons.prems(1) by (auto simp: list_all2_Cons1)
  obtain x out used later nw1 nw2 where fw: "finish_wave E net peers component rs' shards nw1 = (Inr later, nw2)"
    and d: "res = (x, out) # later" and a: "authentic E st (x, out)"
    using Cons.prems(2) rs(1,2)
    by (cases r) (auto simp: result_simps started_ok_def ok_or_def split: prod.splits option.splits dest!: recover_shard_ok)
  show ?case using Cons.IH [OF rs(3) fw] a rs(2) d by (simp add: shard_ok_def started_ok_def)
qed simp

lemma run_waves_ok:
  assumes "run_waves E net peers t component wave (chunks (length peers) shards) nw = (Inr res, nw')" "peers \<noteq> []"
  shows "list_all2 (shard_ok E t) (enumerate (wave * length peers) shards) res"
  using assms
proof (induction "length peers" shards arbitrary: wave nw res rule: chunks.induct)
  case (1 ys)
  let ?p = "length peers"
  show ?case
  proof (cases "ys = []")
    case True
    then show ?thesis using 1(2) by simp
  next
    case False
    have p: "0 < ?p" "\<not> (?p = 0 \<or> ys = [])" using 1(3) False by auto
    obtain rs nw1 where s: "start_wave E net peers t component (wave * ?p) 0 (take ?p ys) nw = (rs, nw1)" by (rule prod.exhaust)
    obtain first later nw2 where f: "finish_wave E net peers component rs (take ?p ys) nw1 = (Inr first, nw2)"
      and l: "run_waves E net peers t component (wave + 1) (chunks ?p (drop ?p ys)) nw2 = (Inr later, nw')"
      and r: "res = first @ later"
      using 1(2) s by (simp add: chunks_step [OF p(1) False] result_simps) blast
    have "list_all2 (shard_ok E t) (enumerate (wave * ?p) (take ?p ys)) first"
      using finish_wave_ok [OF start_wave_ok [OF s] f] by simp
    moreover have "list_all2 (shard_ok E t) (enumerate ((wave + 1) * ?p) (drop ?p ys)) later" using 1(1) [OF p(2) l 1(3)] .
    moreover have "enumerate (wave * ?p) ys = enumerate (wave * ?p) (take ?p ys) @ enumerate ((wave + 1) * ?p) (drop ?p ys)"
    proof (cases "length ys \<le> ?p")
      case False
      then have "length (take ?p ys) = ?p" by simp
      then show ?thesis using enumerate_append_eq [of "wave * ?p" "take ?p ys" "drop ?p ys"] by (simp add: add.commute)
    qed simp
    ultimately show ?thesis unfolding r by (simp only: list_all2_appendI)
  qed
qed

lemma list_all2_enumerate:
  "list_all2 P (enumerate 0 xs) ys \<longleftrightarrow> length xs = length ys \<and> (\<forall>i < length xs. P (i, xs ! i) (ys ! i))"
  by (auto simp: list_all2_conv_all_nth nth_enumerate_eq)

text \<open>
  C37: Sharded execution loses and reorders nothing. When it returns, the input is the concatenation of
  shards of at most the requested size, and the \<open>i\<close>-th record and output are an authentic result for
  the \<open>i\<close>-th shard under the task identifier of that shard, whichever peers failed on the way.
\<close>

theorem sharded_execution_covers_input:
  assumes "execute_sharded_bytes_p2p E net peers t component input shard_bytes nw = (Inr d, nw')"
  shows "\<exists>shards. concat shards = input \<and> list_all (\<lambda>shard. length shard \<le> shard_bytes) shards
    \<and> length (de_shards d) = length shards \<and> length (de_outputs d) = length shards \<and> de_input_bytes d = length input
    \<and> de_peak_shard_bytes d \<le> shard_bytes
    \<and> (\<forall>i < length shards. authentic E (shard_task (ne_lib E) t i (shards ! i)) (de_shards d ! i, de_outputs d ! i))"
proof -
  define ps where "ps = remdups_adj (sort_key peer_bytes peers)"
  define shards where "shards = (if input = [] then [input] else chunks shard_bytes input)"
  obtain res where pos: "0 < shard_bytes" and ps: "ps \<noteq> []"
    and w: "run_waves E net ps t component 0 (chunks (length ps) shards) nw = (Inr res, nw')"
    and d: "d = \<lparr>de_shards = map fst res, de_outputs = map snd res, de_input_bytes = length input,
           de_peak_shard_bytes = Max (insert 0 (set (map length shards)))\<rparr>"
    using assms unfolding execute_sharded_bytes_p2p_def Let_def ps_def [symmetric] shards_def [symmetric]
    by (auto simp: result_simps split: if_splits)
  have ok: "length shards = length res" "i < length shards \<Longrightarrow> shard_ok E t (i, shards ! i) (res ! i)" for i
    using run_waves_ok [OF w ps] by (simp_all add: list_all2_enumerate)
  have len: "length shard \<le> shard_bytes" if "shard \<in> set shards" for shard
    using that pos by (auto simp: shards_def dest: chunks_sizes split: if_splits)
  have "concat shards = input" using pos by (simp add: shards_def concat_chunks)
  moreover have "list_all (\<lambda>shard. length shard \<le> shard_bytes) shards" using len by (simp add: list_all_iff)
  moreover have "Max (insert 0 (set (map length shards))) \<le> shard_bytes" using len by (intro Max.boundedI) auto
  moreover have "authentic E (shard_task (ne_lib E) t i (shards ! i)) (map fst res ! i, map snd res ! i)" if "i < length shards" for i
    using ok(2) [OF that] ok(1) that by (simp add: shard_ok_def)
  ultimately show ?thesis using ok(1) by (intro exI [of _ shards]) (simp add: d)
qed

section \<open>A concrete exchange\<close>

text \<open>A network with one peer that answers from a list; the world is the number of answers given.\<close>

definition demo_network :: "message list \<Rightarrow> message list \<Rightarrow> nat network" where
  "demo_network messages replies = \<lparr>net_request = (\<lambda>peer envelope w. (Inr (demo_envelope messages (replies ! w) 1), Suc w)),
     net_peers = (\<lambda>_. [PeerId [1]]), net_find_providers = (\<lambda>_ w. (Inr [], w)), net_provide = (\<lambda>_ w. (Inr (), w)),
     net_publish = (\<lambda>_ _ w. (Inr (), w)), net_drain = (\<lambda>w. ([], w))\<rparr>"

definition demo_record :: "task \<Rightarrow> execution_record" where
  "demo_record t = \<lparr>er_task_id = task_id t, er_executor = NodeId (example_sha [1]), er_component = task_component t,
     er_input = task_input t, er_output = content_of demo_lib [5], er_execution_hash = content_of demo_lib [],
     er_started_at = 0, er_completed_at = 1\<rparr>"

definition demo_signed :: "task \<Rightarrow> signed_execution_record" where
  "demo_signed t = \<lparr>ser_record = demo_record t, ser_signer = NodeId (example_sha [1]), ser_public_key = [1],
     ser_signature = [1, 0, 0, 0, 0]\<rparr>"

definition demo_replies :: "task \<Rightarrow> message list" where
  "demo_replies t = [HasContent (task_component t), HasContent (task_input t), TaskAccept (task_id t),
     TaskResult (demo_signed t), Content (content_of demo_lib [5]) [5]]"

definition demo_requests :: "task \<Rightarrow> bytes \<Rightarrow> message list" where
  "demo_requests t input = [Content (task_component t) [9], Content (task_input t) input,
     TaskOffer t (node_derive demo_lib [1]) 30000, TaskCommit (task_id t), GetContent (content_of demo_lib [5])]"

definition demo_messages :: "task \<Rightarrow> bytes \<Rightarrow> message list" where
  "demo_messages t input = demo_requests t input @ demo_replies t"

definition demo_client_env :: "task \<Rightarrow> bytes \<Rightarrow> (unit, nat \<times> bool \<times> bytes, bytes, unit) node_env" where
  "demo_client_env t input = (demo_env (demo_messages t input) [] (\<lambda>_. 0))\<lparr>sd_record := table_serde [demo_record t]\<rparr>"

lemma demo_client_env_simps [simp]:
  "ne_lib (demo_client_env t input) = demo_lib" "sd_message (demo_client_env t input) = table_serde (demo_messages t input)"
  "sd_record (demo_client_env t input) = table_serde [demo_record t]" "ne_clock (demo_client_env t input) k = 0"
  "to_peer_id (demo_client_env t input) = (\<lambda>k. PeerId (public_material k))" "ne_into_iter (demo_client_env t input) = id"
  by (simp_all add: demo_client_env_def demo_env_def)

lemma demo_lib_simps:
  "try_decode_protobuf demo_lib = (\<lambda>b. Inr (PublicKey b))" "public_verify demo_lib = (\<lambda>p m s. s = public_material p @ m)"
  "keypair_sign demo_lib = (\<lambda>k m. Inr (key_material k @ m))"
  by (simp_all add: demo_lib_def example_ledger_lib_def)

lemma demo_exchange:
  assumes "m \<in> set (demo_messages t input)" "replies ! w \<in> set (demo_messages t input)"
  shows "exchange (demo_client_env t input) (p2p_exchanger (demo_client_env t input) (demo_network (demo_messages t input) replies) (PeerId [1])) m (n, w)
    = (Inr (replies ! w), n, Suc w)"
proof -
  let ?S = "table_serde (demo_messages t input)"
  have small: "length (demo_messages t input) < 256 ^ 4" by (simp add: demo_messages_def demo_requests_def demo_replies_def)
  obtain b where b: "to_vec ?S m = Inr b" using serde_atE [OF table_serde_at [OF assms(1) small]] .
  obtain c where c: "to_vec ?S (replies ! w) = Inr c" "from_slice ?S c = Inr (replies ! w)"
    using serde_atE [OF table_serde_at [OF assms(2) small]] .
  have "envelope_open demo_lib ?S (demo_envelope (demo_messages t input) (replies ! w) 1) = Inr (replies ! w)"
    using c by (simp add: demo_envelope_def envelope_open_def open_with_signer_def verify_def demo_lib_simps ENVELOPE_VERSION_def)
  then show ?thesis
    using b by (simp add: exchange_def seal_m_def on_self_def bind_m_def envelope_seal_def identity_sign_def demo_lib_simps
      p2p_exchanger_def on_net_def demo_network_def ensure_peer_identity_def demo_envelope_def)
qed

lemma demo_signed_verifies: "ser_verify demo_lib (table_serde [demo_record t]) (demo_signed t) = Inr True"
proof -
  have "to_vec (table_serde [demo_record t]) (demo_record t) = Inr [0, 0, 0, 0]"
    by (simp add: table_serde_def) code_simp
  moreover have "node_derive demo_lib [1] = NodeId (example_sha [1])" by code_simp
  ultimately show ?thesis by (simp add: ser_verify_def demo_signed_def demo_record_def verify_def demo_lib_simps)
qed

lemma demo_remote_run:
  assumes "task_component t = content_of demo_lib [9]" "task_input t = content_of demo_lib input" "length input \<le> 65536"
    and "ni_node_id (in_identity n) = node_derive demo_lib [1]"
  shows "remote_execute_bytes_p2p (demo_client_env t input) (demo_network (demo_messages t input) (demo_replies t)) (PeerId [1]) t [9] input (n, 0)
    = (Inr (demo_record t, [5]), n\<lparr>in_ticks := in_ticks n + 1\<rparr>, Suc (Suc (Suc (Suc (Suc 0)))))"
proof -
  let ?E = "demo_client_env t input"
  define x where "x = p2p_exchanger ?E (demo_network (demo_messages t input) (demo_replies t)) (PeerId [1])"
  have mem: "set (demo_requests t input) \<subseteq> set (demo_messages t input)" "set (demo_replies t) \<subseteq> set (demo_messages t input)"
    by (simp_all add: demo_messages_def)
  have step: "exchange ?E x m (n', w) = (Inr (demo_replies t ! w), n', Suc w)"
    if "m \<in> set (demo_requests t input)" "demo_replies t ! w \<in> set (demo_replies t)" for m w n'
    unfolding x_def using that mem by (intro demo_exchange) auto
  have steps: "exchange ?E x (Content (task_component t) [9]) (n', 0) = (Inr (HasContent (task_component t)), n', Suc 0)"
    "exchange ?E x (Content (task_input t) input) (n', Suc 0) = (Inr (HasContent (task_input t)), n', Suc (Suc 0))"
    "exchange ?E x (TaskOffer t (node_derive demo_lib [1]) 30000) (n', Suc (Suc 0)) = (Inr (TaskAccept (task_id t)), n', Suc (Suc (Suc 0)))"
    "exchange ?E x (TaskCommit (task_id t)) (n', Suc (Suc (Suc 0))) = (Inr (TaskResult (demo_signed t)), n', Suc (Suc (Suc (Suc 0))))"
    "exchange ?E x (GetContent (content_of demo_lib [5])) (n', Suc (Suc (Suc (Suc 0))))
      = (Inr (Content (content_of demo_lib [5]) [5]), n', Suc (Suc (Suc (Suc (Suc 0)))))" for n'
    by (subst step; simp add: demo_requests_def demo_replies_def)+
  have v: "content_verify demo_lib (task_component t) [9]" "content_verify demo_lib (task_input t) input"
    "content_verify demo_lib (content_of demo_lib [5]) [5]" using assms(1,2) by (simp_all add: content_verify_def)
  have r: "expect_result ?E t (TaskResult (demo_signed t)) = Inr (demo_record t)" "er_output (demo_record t) = content_of demo_lib [5]"
    using demo_signed_verifies [of t] by (simp_all add: expect_result_def) (simp_all add: demo_signed_def demo_record_def)
  show ?thesis
    unfolding remote_execute_bytes_p2p_def x_def [symmetric]
    by (simp add: remote_execute_bytes_via_def transfer_content_via_def CONTENT_CHUNK_SIZE_def bind_m_def on_self_def node_now_def
      steps v r assms(3,4) expect_content_def expect_accept_def expect_output_def)
qed

definition demo_job :: "bytes \<Rightarrow> task" where
  "demo_job input = demo_task\<lparr>task_component := content_of demo_lib [9], task_input := content_of demo_lib input\<rparr>"

abbreviation demo_job_env :: "bytes \<Rightarrow> (unit, nat \<times> bool \<times> bytes, bytes, unit) node_env" where
  "demo_job_env input \<equiv> demo_client_env (demo_job input) input"

abbreviation demo_job_network :: "bytes \<Rightarrow> nat network" where
  "demo_job_network input \<equiv> demo_network (demo_messages (demo_job input) input) (demo_replies (demo_job input))"

lemma demo_job_simps [simp]:
  "task_component (demo_job input) = content_of demo_lib [9]" "task_input (demo_job input) = content_of demo_lib input"
  "task_id (demo_job input) = ''t''" "task_verification (demo_job input) = TrustExecutor"
  by (simp_all add: demo_job_def demo_task_def)

lemma demo_node_id: "ni_node_id (in_identity (demo_node None)) = node_derive demo_lib [1]"
  by (simp add: demo_node_def identity_of_def Let_def demo_lib_def example_ledger_lib_def)

lemma demo_job_run:
  assumes "length input \<le> 65536"
  shows "remote_execute_bytes_via (demo_job_env input) (p2p_exchanger (demo_job_env input) (demo_job_network input) (PeerId [1]))
      (demo_job input) [9] input (demo_node None, 0)
    = (Inr (demo_record (demo_job input), [5]), (demo_node None)\<lparr>in_ticks := in_ticks (demo_node None) + 1\<rparr>, Suc (Suc (Suc (Suc (Suc 0)))))"
  using demo_remote_run [OF demo_job_simps(1,2) assms demo_node_id] by (simp add: remote_execute_bytes_p2p_def)

theorem remote_result_is_authentic_witness:
  "fst (remote_execute_bytes_via (demo_job_env [8]) (p2p_exchanger (demo_job_env [8]) (demo_job_network [8]) (PeerId [1]))
      (demo_job [8]) [9] [8] (demo_node None, 0)) = Inr (demo_record (demo_job [8]), [5])
   \<and> er_output (demo_record (demo_job [8])) = content_of demo_lib [5]"
proof -
  have r: "remote_execute_bytes_via (demo_job_env [8]) (p2p_exchanger (demo_job_env [8]) (demo_job_network [8]) (PeerId [1]))
      (demo_job [8]) [9] [8] (demo_node None, 0) = (Inr (demo_record (demo_job [8]), [5]),
        (demo_node None)\<lparr>in_ticks := in_ticks (demo_node None) + 1\<rparr>, Suc (Suc (Suc (Suc (Suc 0)))))"
    by (rule demo_job_run) simp
  show ?thesis using remote_result_is_authentic [OF r] r by simp
qed

text \<open>The input of the verified run is the integer 8 in little-endian bytes.\<close>

lemma demo_p2p_run:
  "\<exists>nw. remote_execute_p2p (demo_job_env [8, 0, 0, 0]) (demo_job_network [8, 0, 0, 0]) (PeerId [1]) (demo_job [8, 0, 0, 0]) [9] 8
     (demo_node None, 0) = (Inr (demo_record (demo_job [8, 0, 0, 0]), [5]), nw)"
proof -
  have "i32_to_le_bytes 8 = [8, 0, 0, 0]" by code_simp
  then show ?thesis
    using demo_job_run [of "[8, 0, 0, 0]"]
    by (simp add: remote_execute_p2p_def remote_execute_via_def Let_def bind_m_def on_self_def on_db_def md_record_success_def
      sql_def demo_node_def)
qed

theorem verified_output_is_agreed_witness:
  "\<exists>v nw. execute_verified_p2p (demo_job_env [8, 0, 0, 0]) (demo_job_network [8, 0, 0, 0]) [PeerId [1]] (demo_job [8, 0, 0, 0]) [9] 8
      (demo_node None, 0) = (Inr v, nw)
    \<and> 1 \<le> count_list (map er_output (ve_executions v)) (er_output (ve_accepted v))"
proof -
  obtain nw where r: "remote_execute_p2p (demo_job_env [8, 0, 0, 0]) (demo_job_network [8, 0, 0, 0]) (PeerId [1]) (demo_job [8, 0, 0, 0]) [9] 8
     (demo_node None, 0) = (Inr (demo_record (demo_job [8, 0, 0, 0]), [5]), nw)" using demo_p2p_run by blast
  then obtain v where v: "execute_verified_p2p (demo_job_env [8, 0, 0, 0]) (demo_job_network [8, 0, 0, 0]) [PeerId [1]] (demo_job [8, 0, 0, 0])
      [9] 8 (demo_node None, 0) = (Inr v, nw)"
    by (simp add: execute_verified_p2p_def Let_def verify_outputs_def ok_or_def)
  have "\<forall>m. set (ne_into_iter (demo_job_env [8, 0, 0, 0]) m) = set m" by simp
  from verified_output_is_agreed [OF this v] v show ?thesis by auto
qed

text \<open>One shard: the job of the shard is the job under another identifier.\<close>

abbreviation demo_shard :: task where
  "demo_shard \<equiv> shard_task demo_lib (demo_job [8]) 0 [8]"

abbreviation demo_shard_network :: "nat network" where
  "demo_shard_network \<equiv> demo_network (demo_messages demo_shard [8]) (demo_replies demo_shard)"

lemma demo_shard_run:
  "\<exists>nw. remote_execute_bytes_p2p (demo_client_env demo_shard [8]) demo_shard_network (PeerId [1]) demo_shard [9] [8] (demo_node None, 0)
     = (Inr (demo_record demo_shard, [5]), nw)"
proof -
  have "task_component demo_shard = content_of demo_lib [9]" "task_input demo_shard = content_of demo_lib [8]" "length [8 :: u8] \<le> 65536"
    by (simp_all add: shard_task_def)
  from demo_remote_run [OF this demo_node_id] show ?thesis by blast
qed

theorem sharded_execution_covers_input_witness:
  "\<exists>d nw shards. execute_sharded_bytes_p2p (demo_client_env demo_shard [8]) demo_shard_network [PeerId [1]] (demo_job [8]) [9] [8] 1
      (demo_node None, 0) = (Inr d, nw) \<and> concat shards = [8 :: u8] \<and> length (de_outputs d) = length shards"
proof -
  obtain nw where r: "remote_execute_bytes_p2p (demo_client_env demo_shard [8]) demo_shard_network (PeerId [1]) demo_shard [9] [8] (demo_node None, 0)
     = (Inr (demo_record demo_shard, [5]), nw)" using demo_shard_run by blast
  have m: "task_memory_limit (demo_job [8]) = Some DEFAULT_TASK_MEMORY_LIMIT" by code_simp
  have s: "Suc 0 \<le> unat DEFAULT_TASK_MEMORY_LIMIT" by (simp add: DEFAULT_TASK_MEMORY_LIMIT_def)
  obtain d nw' where d: "execute_sharded_bytes_p2p (demo_client_env demo_shard [8]) demo_shard_network [PeerId [1]] (demo_job [8]) [9] [8] 1
      (demo_node None, 0) = (Inr d, nw')"
    using r s by (cases nw) (simp add: execute_sharded_bytes_p2p_def m chunks_step Let_def bind_m_def record_private_assignment_def on_self_def modify_n_def)
  from sharded_execution_covers_input [OF d] d show ?thesis by blast
qed

end
