(* ===== verification/Node_Transfer.thy ===== *)
theory Node_Transfer
  imports Node_Client_Props
begin

text \<open>
  Both ends of a content transfer: a requester that calls \<open>transfer_content_via\<close> and a node that serves
  the envelopes with \<open>handle\<close>. The world of the requester is the state of that node.
\<close>

definition remote_exchanger :: "('h, 's, 'd, 'o) node_env \<Rightarrow> inner exchanger" where
  "remote_exchanger E envelope = (\<lambda>(n, w). case handle E envelope w of (r, w) \<Rightarrow> (r, n, w))"

section \<open>Requests that are served\<close>

definition budget_room :: "node_id \<Rightarrow> nat \<Rightarrow> request_budget \<Rightarrow> bool" where
  "budget_room who c b \<longleftrightarrow> used_by b who + c \<le> unat MAX_REQUESTS_PER_IDENTITY_PER_WINDOW
     \<and> unat (rb_global b) + c \<le> unat MAX_REQUESTS_GLOBAL_PER_WINDOW"

lemma consume_room_inside:
  assumes "budget_room who (Suc c) b" "saturating_sub now (window_started_at b) < REQUEST_WINDOW_MILLIS"
  shows "\<exists>b'. consume_request_budget who now b = (True, b') \<and> budget_room who c b'"
proof -
  obtain served b' where r: "consume_request_budget who now b = (served, b')" by (rule prod.exhaust)
  have "served"
    using assms r by (auto simp: consume_request_budget_def Let_def budget_room_def used_by_def word_le_nat_alt not_le split: if_splits)
  then show ?thesis using consume_inside(2) [OF r assms(2)] assms(1) r by (simp add: budget_room_def)
qed

lemma consume_room:
  assumes "budget_room who (Suc c) b"
  shows "\<exists>b'. consume_request_budget who now b = (True, b') \<and> budget_room who c b'"
proof (cases "saturating_sub now (window_started_at b) < REQUEST_WINDOW_MILLIS")
  case False
  have "budget_room who (Suc c) (fresh_budget now)"
    using assms by (simp add: budget_room_def fresh_budget_def used_by_def)
  moreover have "saturating_sub now (window_started_at (fresh_budget now)) < REQUEST_WINDOW_MILLIS"
    by (simp add: fresh_budget_def saturating_sub_def REQUEST_WINDOW_MILLIS_def)
  ultimately show ?thesis using False consume_room_inside consume_reset by (metis not_le)
qed (use assms consume_room_inside in blast)

text \<open>The signer may transfer content whenever it asks.\<close>

definition may_transfer :: "('h, 's, 'd, 'o) node_env \<Rightarrow> node_id \<Rightarrow> inner \<Rightarrow> bool" where
  "may_transfer E who w \<longleftrightarrow>
     (case in_membership w of None \<Rightarrow> True
      | Some policy \<Rightarrow> (case map_of (mp_permissions policy) who of None \<Rightarrow> False
          | Some access \<Rightarrow> \<forall>k. allows access ''content'' (ne_clock E k)))"

abbreviation served :: "inner \<Rightarrow> nat \<Rightarrow> request_budget \<Rightarrow> uploads \<Rightarrow> inner" where
  "served w k b u \<equiv> w\<lparr>in_ticks := k, in_request_budget := b, in_uploads := u\<rparr>"

lemma handle_permitted:
  assumes "open_with_signer (ne_lib E) (sd_message E) envelope = Inr (m, who)" "permission_for m = ''content''"
    and "may_transfer E who w" "budget_room who (Suc c) b"
  shows "\<exists>k' b'. budget_room who c b' \<and>
    handle E envelope (served w k b u) = bind_m (respond E who m) (\<lambda>response. seal_m E response) (served w k' b' u)"
proof -
  let ?w = "served w k b u"
  obtain b' where b': "consume_request_budget who (ne_clock E (in_ticks ?w)) (in_request_budget ?w) = (True, b')" "budget_room who c b'"
    using consume_room [OF assms(4), of "ne_clock E (in_ticks ?w)"] by auto
  let ?w1 = "?w\<lparr>in_ticks := in_ticks ?w + 1, in_request_budget := b'\<rparr>"
  obtain d k' where a: "authorize E who m ?w1 = (Inr d, ?w1\<lparr>in_ticks := k'\<rparr>)"
    and d: "d = None \<longleftrightarrow> (case in_membership ?w1 of None \<Rightarrow> True | Some policy \<Rightarrow>
       (case map_of (mp_permissions policy) who of None \<Rightarrow> False
        | Some access \<Rightarrow> allows access (permission_for m) (ne_clock E (in_ticks ?w1))))"
    by (rule authorize_state)
  have none: "d = None" using d assms(2,3) by (auto simp: may_transfer_def split: option.splits)
  have eq: "?w1\<lparr>in_ticks := k'\<rparr> = served w k' b' u" by (cases w) simp
  have "handle E envelope ?w = bind_m (respond E who m) (\<lambda>response. seal_m E response) (served w k' b' u)"
    using handle_run [OF assms(1) b'(1) a] unfolding none eq by (simp only: not_True_eq_False if_False option.case)
  then show ?thesis using b'(2) by blast
qed

text \<open>One exchange with the node: it answers what \<open>respond\<close> answers.\<close>

lemma remote_exchange:
  assumes "sign_ok (ne_lib E)" "identity_wf (ne_lib E) (in_identity n)" "identity_wf (ne_lib E) (in_identity w)"
    and "serde_at (sd_message E) m" "serde_at (sd_message E) answer" "permission_for m = ''content''"
    and "may_transfer E (self_id n) w" "budget_room (self_id n) (Suc c) b"
    and "\<And>k b. respond E (self_id n) m (served w k b u) = (Inr answer, f (served w k b u))"
    and "\<And>w. in_identity (f w) = in_identity w"
  shows "\<exists>k' b'. budget_room (self_id n) c b'
    \<and> exchange E (remote_exchanger E) m (n, served w k b u) = (Inr answer, n, f (served w k' b' u))"
proof -
  obtain e where e: "envelope_seal (ne_lib E) (sd_message E) m (in_identity n) = Inr e"
    "open_with_signer (ne_lib E) (sd_message E) e = Inr (m, self_id n)" using envelope_round_trip [OF assms(1,4,2)] .
  obtain a where a: "envelope_seal (ne_lib E) (sd_message E) answer (in_identity w) = Inr a"
    "open_with_signer (ne_lib E) (sd_message E) a = Inr (answer, self_id w)" using envelope_round_trip [OF assms(1,5,3)] .
  obtain k' b' where h: "budget_room (self_id n) c b'"
    "handle E e (served w k b u) = bind_m (respond E (self_id n) m) (\<lambda>response. seal_m E response) (served w k' b' u)"
    using handle_permitted [OF e(2) assms(6-8)] by blast
  have "handle E e (served w k b u) = (Inr a, f (served w k' b' u))"
    using a(1) assms(10) by (simp add: h(2) bind_m_def assms(9) seal_m_def)
  then have "exchange E (remote_exchanger E) m (n, served w k b u) = (Inr answer, n, f (served w k' b' u))"
    using e(1) a(2) by (simp add: exchange_def bind_m_def on_self_def seal_m_def remote_exchanger_def envelope_open_def)
  with h(1) show ?thesis by (intro exI conjI)
qed

section \<open>The chunks of an upload\<close>

lemma chunk_answer:
  assumes "map_of u (who, i) = Some s" "us_chunk_size s = 65536" "us_chunks s = map Some pre @ replicate (Suc r) None"
    and "length pre < 2 ^ 32" "length c \<le> 65536"
  shows "content_chunk L who i (of_nat (length pre)) c (content_of L c) u
    = (HasContent (content_of L c), AList.update (who, i) (s\<lparr>us_chunks := map Some (pre @ [c]) @ replicate r None\<rparr>) u)"
proof -
  have "unat (of_nat (length pre) :: u32) = length pre" using assms(4) by (simp add: unat_of_nat)
  then show ?thesis using assms by (simp add: content_chunk_def content_verify_def Let_def list_update_append)
qed

definition chunk_messages :: "'z hash_lib_scheme \<Rightarrow> content_id \<Rightarrow> nat \<Rightarrow> bytes list \<Rightarrow> message list" where
  "chunk_messages L i j cs = concat (map (\<lambda>(j, c). [ContentChunk i (of_nat j) c (content_of L c), HasContent (content_of L c)]) (enumerate j cs))"

lemma chunk_messages_simps [simp]:
  "chunk_messages L i j [] = []"
  "chunk_messages L i j (c # cs) = ContentChunk i (of_nat j) c (content_of L c) # HasContent (content_of L c) # chunk_messages L i (Suc j) cs"
  by (simp_all add: chunk_messages_def)

lemma send_chunks_remote:
  assumes "sign_ok (ne_lib E)" "identity_wf (ne_lib E) (in_identity n)" "identity_wf (ne_lib E) (in_identity w)"
    and "may_transfer E (self_id n) w"
    and "list_all (serde_at (sd_message E)) (chunk_messages (ne_lib E) i (length pre) cs)"
    and "budget_room (self_id n) (c + length cs) b" "list_all (\<lambda>c. length c \<le> 65536) cs" "length pre + length cs \<le> 2 ^ 32"
    and "map_of u (self_id n, i) = Some s" "us_chunk_size s = 65536" "us_chunks s = map Some pre @ replicate (length cs) None"
  shows "\<exists>k' b' u'. send_chunks E (remote_exchanger E) i (length pre) cs (n, served w k b u) = (Inr (), n, served w k' b' u')
    \<and> budget_room (self_id n) c b' \<and> map_of u' (self_id n, i) = Some (s\<lparr>us_chunks := map Some (pre @ cs)\<rparr>)"
  using assms(5-11)
proof (induction cs arbitrary: pre k b u s)
  case Nil
  then have "s\<lparr>us_chunks := map Some (pre @ [])\<rparr> = s" by simp
  then show ?case using Nil by (intro exI [of _ k] exI [of _ b] exI [of _ u]) simp
next
  case (Cons d cs)
  let ?who = "self_id n" and ?h = "content_of (ne_lib E) d"
  let ?s = "s\<lparr>us_chunks := map Some (pre @ [d]) @ replicate (length cs) None\<rparr>"
  let ?u = "AList.update (?who, i) ?s u" and ?m = "ContentChunk i (of_nat (length pre)) d ?h"
  have r: "respond E ?who ?m (served w k b u) = (Inr (HasContent ?h), (served w k b u)\<lparr>in_uploads := ?u\<rparr>)" for k b
    using chunk_answer [OF Cons.prems(5,6), of pre "length cs" d "ne_lib E"] Cons.prems(3,4,7) by (simp add: respond_def Let_def)
  have s: "serde_at (sd_message E) ?m" "serde_at (sd_message E) (HasContent ?h)" using Cons.prems(1) by simp_all
  have "budget_room ?who (Suc (c + length cs)) b" using Cons.prems(2) by simp
  from remote_exchange [where f = "\<lambda>w. w\<lparr>in_uploads := ?u\<rparr>" and k = k, OF assms(1-3) s _ assms(4) this r]
  obtain k1 b1 where b1: "budget_room ?who (c + length cs) b1"
    and x: "exchange E (remote_exchanger E) ?m (n, served w k b u) = (Inr (HasContent ?h), n, (served w k1 b1 u)\<lparr>in_uploads := ?u\<rparr>)"
    by auto
  have u: "(served w k1 b1 u)\<lparr>in_uploads := ?u\<rparr> = served w k1 b1 ?u" by simp
  obtain k' b' u' where i: "send_chunks E (remote_exchanger E) i (length (pre @ [d])) cs (n, served w k1 b1 ?u) = (Inr (), n, served w k' b' u')"
    "budget_room ?who c b'" "map_of u' (?who, i) = Some (?s\<lparr>us_chunks := map Some ((pre @ [d]) @ cs)\<rparr>)"
    using Cons.IH [of "pre @ [d]" b1 ?u ?s k1] b1 Cons.prems(1-6) by auto
  have "send_chunks E (remote_exchanger E) i (length pre) (d # cs) (n, served w k b u) = (Inr (), n, served w k' b' u')"
    using i(1) by (simp add: bind_m_def Let_def expect_content_def x [unfolded u])
  then show ?case using i(2,3) by (intro exI conjI) simp_all
qed

section \<open>Beginning and end of an upload\<close>

lemma map_filter_Some: "List.map_filter id (map Some xs) = xs"
  by (induction xs) (simp_all add: map_filter_simps)

definition upload_room :: "nat \<Rightarrow> uploads \<Rightarrow> bool" where
  "upload_room len u \<longleftrightarrow> len \<le> unat MAX_CONTENT_SIZE \<and> length u < MAX_ACTIVE_UPLOADS
     \<and> reserved_bytes u + len \<le> unat MAX_IN_FLIGHT_UPLOAD_BYTES"

lemma start_answer:
  assumes "upload_room len u"
  shows "content_start L who i (of_nat len) (of_nat CONTENT_CHUNK_SIZE) u = (HasContent i, AList.update (who, i)
    \<lparr>us_total_size = of_nat len, us_chunk_size = 65536, us_chunks = replicate (div_ceil len 65536) None\<rparr> u)"
proof -
  have "sum_list (map (\<lambda>(_, s). unat (us_total_size s)) (filter P u)) \<le> reserved_bytes u" for P
    by (induction u) (auto simp: reserved_bytes_def)
  then have r: "sum_list (map (\<lambda>(_, s). unat (us_total_size s)) (filter P u)) + len \<le> 536870912" for P
    using assms by (auto simp: upload_room_def MAX_IN_FLIGHT_UPLOAD_BYTES_def intro: le_trans add_right_mono)
  have s: "unat (of_nat len :: u64) = len"
    using assms by (simp add: upload_room_def MAX_CONTENT_SIZE_def unat_of_nat)
  have "of_nat len \<le> MAX_CONTENT_SIZE" using assms by (simp add: upload_room_def word_le_nat_alt s)
  then show ?thesis
    using r [of "\<lambda>(e, _). e \<noteq> (who, i)"] assms
    by (simp add: content_start_def Let_def s upload_room_def CONTENT_CHUNK_SIZE_def MAX_IN_FLIGHT_UPLOAD_BYTES_def)
qed

lemma complete_answer:
  assumes "map_of u (who, i) = Some s" "us_chunks s = map Some cs" "unat (us_total_size s) = length (concat cs)"
    and "i = content_of L (concat cs)" "cas_put L (in_cas w) (concat cs) (in_fs w) = (Inr j, s')"
  shows "content_complete L who i (served w k b u)
    = (Inr (HasContent i), (served w k b u)\<lparr>in_uploads := AList.delete (who, i) u, in_fs := s'\<rparr>)"
  using assms by (simp add: content_complete_def Let_def map_filter_Some list_all_iff content_verify_def bind_m_def on_fs_def)

section \<open>The whole transfer\<close>

definition transfer_messages :: "'z hash_lib_scheme \<Rightarrow> bytes \<Rightarrow> message list" where
  "transfer_messages L bytes =
     (let i = content_of L bytes in
      if length bytes \<le> CONTENT_CHUNK_SIZE then [Content i bytes, HasContent i]
      else [ContentStart i (of_nat (length bytes)) (of_nat CONTENT_CHUNK_SIZE), ContentComplete i, HasContent i]
        @ chunk_messages L i 0 (chunks CONTENT_CHUNK_SIZE bytes))"

definition transfer_requests :: "bytes \<Rightarrow> nat" where
  "transfer_requests bytes = (if length bytes \<le> CONTENT_CHUNK_SIZE then 1 else div_ceil (length bytes) CONTENT_CHUNK_SIZE + 2)"

text \<open>What both ends bring along: keys that sign, JSON for the messages, permission, budget and a disk that takes the content.\<close>

definition transfer_ready :: "('h, 's, 'd, 'o) node_env \<Rightarrow> inner \<Rightarrow> inner \<Rightarrow> bytes \<Rightarrow> fs \<Rightarrow> bool" where
  "transfer_ready E n w bytes s \<longleftrightarrow> sign_ok (ne_lib E)
     \<and> identity_wf (ne_lib E) (in_identity n) \<and> identity_wf (ne_lib E) (in_identity w)
     \<and> list_all (serde_at (sd_message E)) (transfer_messages (ne_lib E) bytes)
     \<and> may_transfer E (self_id n) w \<and> budget_room (self_id n) (transfer_requests bytes) (in_request_budget w)
     \<and> upload_room (length bytes) (in_uploads w)
     \<and> cas_put (ne_lib E) (in_cas w) bytes (in_fs w) = (Inr (content_of (ne_lib E) bytes), s)"

lemma served_same: "served w (in_ticks w) (in_request_budget w) (in_uploads w) = w"
  by (cases w) simp

lemma transfer_small:
  assumes "transfer_ready E n w bytes s" "length bytes \<le> CONTENT_CHUNK_SIZE"
  shows "\<exists>w'. transfer_content_via E (remote_exchanger E) (content_of (ne_lib E) bytes) bytes (n, w) = (Inr (), n, w')
    \<and> in_fs w' = s \<and> in_cas w' = in_cas w"
proof -
  let ?i = "content_of (ne_lib E) bytes" and ?u = "in_uploads w"
  note r = assms(1) [unfolded transfer_ready_def]
  have m: "serde_at (sd_message E) (Content ?i bytes)" "serde_at (sd_message E) (HasContent ?i)"
    using r assms(2) by (simp_all add: transfer_messages_def Let_def)
  have a: "respond E (self_id n) (Content ?i bytes) (served w k b ?u) = (Inr (HasContent ?i), (served w k b ?u)\<lparr>in_fs := s\<rparr>)" for k b
    using r by (simp add: respond_def Let_def content_verify_def bind_m_def on_fs_def)
  have b: "budget_room (self_id n) (Suc 0) (in_request_budget w)" using r assms(2) by (simp add: transfer_requests_def)
  from remote_exchange [where f = "\<lambda>w. w\<lparr>in_fs := s\<rparr>" and k = "in_ticks w", OF _ _ _ m _ _ b a] r
  obtain k' b' where "exchange E (remote_exchanger E) (Content ?i bytes) (n, w) = (Inr (HasContent ?i), n, (served w k' b' ?u)\<lparr>in_fs := s\<rparr>)"
    by (auto simp: served_same)
  then have "transfer_content_via E (remote_exchanger E) ?i bytes (n, w) = (Inr (), n, (served w k' b' ?u)\<lparr>in_fs := s\<rparr>)"
    using assms(2) by (simp add: transfer_content_via_def content_verify_def bind_m_def expect_content_def)
  then show ?thesis by simp
qed

lemma transfer_large:
  assumes "transfer_ready E n w bytes s" "\<not> length bytes \<le> CONTENT_CHUNK_SIZE"
  shows "\<exists>w'. transfer_content_via E (remote_exchanger E) (content_of (ne_lib E) bytes) bytes (n, w) = (Inr (), n, w')
    \<and> in_fs w' = s \<and> in_cas w' = in_cas w"
proof -
  let ?x = "remote_exchanger E" and ?who = "self_id n" and ?L = "ne_lib E"
  let ?i = "content_of ?L bytes" and ?cs = "chunks CONTENT_CHUNK_SIZE bytes"
  let ?m = "ContentStart ?i (of_nat (length bytes)) (of_nat CONTENT_CHUNK_SIZE)"
  let ?s = "\<lparr>us_total_size = of_nat (length bytes), us_chunk_size = 65536, us_chunks = replicate (div_ceil (length bytes) 65536) None\<rparr>"
  let ?u = "AList.update (?who, ?i) ?s (in_uploads w)"
  note r = assms(1) [unfolded transfer_ready_def]
  have ids: "sign_ok ?L" "identity_wf ?L (in_identity n)" "identity_wf ?L (in_identity w)" and may: "may_transfer E ?who w" using r by simp_all
  have m: "serde_at (sd_message E) ?m" "serde_at (sd_message E) (ContentComplete ?i)" "serde_at (sd_message E) (HasContent ?i)"
    and mc: "list_all (serde_at (sd_message E)) (chunk_messages ?L ?i (length []) ?cs)"
    using r assms(2) by (simp_all add: transfer_messages_def Let_def)
  have cs: "length ?cs = div_ceil (length bytes) 65536" "concat ?cs = bytes" "list_all (\<lambda>c. length c \<le> 65536) ?cs"
    by (auto simp: length_chunks concat_chunks list_all_iff CONTENT_CHUNK_SIZE_def dest: chunks_sizes [rotated])
  have up: "upload_room (length bytes) (in_uploads w)" using r by simp
  have b: "budget_room ?who (Suc (Suc 0 + length ?cs)) (in_request_budget w)"
    using r assms(2) cs(1) by (simp add: transfer_requests_def CONTENT_CHUNK_SIZE_def)
  have "respond E ?who ?m (served w k b (in_uploads w)) = (Inr (HasContent ?i), (served w k b (in_uploads w))\<lparr>in_uploads := ?u\<rparr>)" for k b
    by (simp add: respond_def Let_def start_answer [OF up])
  from remote_exchange [where f = "\<lambda>w. w\<lparr>in_uploads := ?u\<rparr>" and k = "in_ticks w", OF ids m(1,3) _ may b this]
  obtain k1 b1 where x1: "exchange E ?x ?m (n, w) = (Inr (HasContent ?i), n, served w k1 b1 ?u)" and b1: "budget_room ?who (Suc 0 + length ?cs) b1"
    by (auto simp: served_same)
  have small: "length [] + length ?cs \<le> 2 ^ 32"
    using up div_ceil_times [of "length bytes" 65536] by (simp add: cs(1) upload_room_def MAX_CONTENT_SIZE_def)
  obtain k2 b2 u2 where x2: "send_chunks E ?x ?i (length []) ?cs (n, served w k1 b1 ?u) = (Inr (), n, served w k2 b2 u2)"
    and b2: "budget_room ?who (Suc 0) b2" and u2: "map_of u2 (?who, ?i) = Some (?s\<lparr>us_chunks := map Some ([] @ ?cs)\<rparr>)"
    using send_chunks_remote [OF ids may mc b1 cs(3) small, of ?u ?s k1] cs(1) by auto
  have put: "cas_put ?L (in_cas w) (concat ?cs) (in_fs w) = (Inr ?i, s)" using r cs(2) by simp
  have len: "unat (us_total_size (?s\<lparr>us_chunks := map Some ?cs\<rparr>)) = length (concat ?cs)"
    using up cs(2) by (simp add: upload_room_def MAX_CONTENT_SIZE_def unat_of_nat)
  have "respond E ?who (ContentComplete ?i) (served w k b u2)
      = (Inr (HasContent ?i), (served w k b u2)\<lparr>in_uploads := AList.delete (?who, ?i) u2, in_fs := s\<rparr>)" for k b
    using complete_answer [OF u2 [unfolded append_Nil] _ len _ put] cs(2) by (simp add: respond_def Let_def)
  from remote_exchange [where f = "\<lambda>w. w\<lparr>in_uploads := AList.delete (?who, ?i) u2, in_fs := s\<rparr>" and k = k2, OF ids m(2,3) _ may b2 this]
  obtain k3 b3 where x3: "exchange E ?x (ContentComplete ?i) (n, served w k2 b2 u2)
      = (Inr (HasContent ?i), n, (served w k3 b3 u2)\<lparr>in_uploads := AList.delete (?who, ?i) u2, in_fs := s\<rparr>)" by auto
  have "transfer_content_via E ?x ?i bytes (n, w)
      = (Inr (), n, (served w k3 b3 u2)\<lparr>in_uploads := AList.delete (?who, ?i) u2, in_fs := s\<rparr>)"
    using assms(2) x2 by (simp add: transfer_content_via_def content_verify_def bind_m_def expect_content_def x1 x3)
  then show ?thesis by simp
qed

text \<open>
  C38: Content arrives. Between a requester and a node that are ready for it, a transfer of any size up
  to the limits succeeds, in one message or in chunks, and afterwards the node's store returns these bytes
  for their identifier, or others with the same hash.
\<close>

theorem transferred_content_is_stored:
  assumes "transfer_ready E n w bytes s" "fs_faults (in_fs w) = []"
  shows "\<exists>w' b. transfer_content_via E (remote_exchanger E) (content_of (ne_lib E) bytes) bytes (n, w) = (Inr (), n, w')
    \<and> fst (cas_get (ne_lib E) (in_cas w') (content_of (ne_lib E) bytes) (in_fs w')) = Inr b
    \<and> (b = bytes \<or> b \<noteq> bytes \<and> sha256 (ne_lib E) b = sha256 (ne_lib E) bytes)"
proof -
  obtain w' where w: "transfer_content_via E (remote_exchanger E) (content_of (ne_lib E) bytes) bytes (n, w) = (Inr (), n, w')"
    "in_fs w' = s" "in_cas w' = in_cas w"
    using transfer_small [OF assms(1)] transfer_large [OF assms(1)] by blast
  have "cas_put (ne_lib E) (in_cas w) bytes (in_fs w) = (Inr (content_of (ne_lib E) bytes), s)" using assms(1) by (simp add: transfer_ready_def)
  from cas.put_get_exact [OF this assms(2)] show ?thesis using w by (auto simp: content_of_def)
qed

definition demo_transfer_env :: "(unit, nat \<times> bool \<times> bytes, bytes, unit) node_env" where
  "demo_transfer_env = demo_env (transfer_messages demo_lib [5]) [] (\<lambda>_. 0)"

lemma demo_transfer_put:
  "fst (cas_put demo_lib [''cas''] [5] (in_fs (demo_node None))) = Inr (content_of demo_lib [5])"
  by code_simp

lemma demo_transfer_ready:
  "transfer_ready demo_transfer_env (demo_node None) (demo_node None) [5] (snd (cas_put demo_lib [''cas''] [5] (in_fs (demo_node None))))"
proof -
  have "list_all (serde_at (table_serde (transfer_messages demo_lib [5]))) (transfer_messages demo_lib [5])"
    unfolding list_all_iff using table_serde_at [of _ "transfer_messages demo_lib [5]"]
    by (simp add: transfer_messages_def Let_def CONTENT_CHUNK_SIZE_def)
  moreover have "cas_put demo_lib [''cas''] [5] (in_fs (demo_node None))
      = (Inr (content_of demo_lib [5]), snd (cas_put demo_lib [''cas''] [5] (in_fs (demo_node None))))"
    using demo_transfer_put by (metis prod.collapse)
  moreover have "sign_ok demo_lib" by (simp add: demo_lib_def example_ledger_lib_ok)
  moreover have "in_cas (demo_node None) = [''cas'']" "identity_wf demo_lib (in_identity (demo_node None))"
    "in_membership (demo_node None) = None" "in_request_budget (demo_node None) = fresh_budget 0" "in_uploads (demo_node None) = []"
    by (simp_all add: demo_node_def)
  ultimately show ?thesis
    by (simp add: transfer_ready_def demo_transfer_env_def demo_env_def may_transfer_def budget_room_def upload_room_def used_by_def
      fresh_budget_def transfer_requests_def CONTENT_CHUNK_SIZE_def MAX_REQUESTS_PER_IDENTITY_PER_WINDOW_def
      MAX_REQUESTS_GLOBAL_PER_WINDOW_def MAX_CONTENT_SIZE_def MAX_ACTIVE_UPLOADS_def MAX_IN_FLIGHT_UPLOAD_BYTES_def)
qed

theorem transferred_content_is_stored_witness:
  "\<exists>w' b. transfer_content_via demo_transfer_env (remote_exchanger demo_transfer_env) (content_of demo_lib [5]) [5] (demo_node None, demo_node None)
      = (Inr (), demo_node None, w')
    \<and> fst (cas_get demo_lib (in_cas w') (content_of demo_lib [5]) (in_fs w')) = Inr b"
proof -
  have E: "ne_lib demo_transfer_env = demo_lib" by (simp add: demo_transfer_env_def demo_env_def)
  have "fs_faults (in_fs (demo_node None)) = []" by (simp add: demo_node_def empty_fs_def)
  from transferred_content_is_stored [OF demo_transfer_ready this] show ?thesis unfolding E by blast
qed

end
