(* ===== verification/P2p.thy ===== *)
theory P2p
  imports Protocol
begin

text \<open>
  \<open>crates/peerless-network/src/p2p.rs\<close>: multiaddresses, the peer cache and the endpoint \<open>P2pRpc\<close>. The
  endpoint is a background loop that owns a libp2p swarm and serves a queue of commands; each
  method puts a command into the queue and waits for its reply. The swarm is a parameter
  (\<open>swarm_lib\<close>). A wait takes the next entry of a schedule, which is part of the state: the moves of the
  loop and of other threads until the wait ends, so a statement about all states is one about
  all interleavings.
\<close>

section \<open>Addresses\<close>

text \<open>A \<open>Multiaddr\<close> as the sequence of its protocols, as \<open>iter()\<close> gives it.\<close>

datatype protocol_part =
    Ip4 u32
  | Ip6 u128
  | P2pPeer peer_id
  | P2pCircuit
  | OtherPart string

type_synonym multiaddr = "protocol_part list"

definition has_circuit :: "multiaddr \<Rightarrow> bool" where
  "has_circuit address = list_ex (\<lambda>p. p = P2pCircuit) address"

fun circuit_relay_from :: "peer_id option \<Rightarrow> multiaddr \<Rightarrow> peer_id option" where
  "circuit_relay_from preceding_peer [] = None"
| "circuit_relay_from preceding_peer (p # address) =
     (case p of
        P2pPeer peer \<Rightarrow> circuit_relay_from (Some peer) address
      | P2pCircuit \<Rightarrow> preceding_peer
      | _ \<Rightarrow> circuit_relay_from preceding_peer address)"

definition circuit_relay :: "multiaddr \<Rightarrow> peer_id option" where
  "circuit_relay address = circuit_relay_from None address"

text \<open>\<open>Ipv4Addr::is_loopback\<close> is 127.0.0.0/8, \<open>Ipv6Addr::is_loopback\<close> is ::1.\<close>

definition is_loopback :: "multiaddr \<Rightarrow> bool" where
  "is_loopback address =
     (case address of
        Ip4 ip # _ \<Rightarrow> drop_bit 24 ip = 127
      | Ip6 ip # _ \<Rightarrow> ip = 1
      | _ \<Rightarrow> False)"

definition terminal_peer :: "multiaddr \<Rightarrow> peer_id option" where
  "terminal_peer address =
     (if address = [] then None else case last address of P2pPeer peer \<Rightarrow> Some peer | _ \<Rightarrow> None)"

section \<open>The swarm\<close>

record toggles =
  identify_on :: bool
  autonat_on :: bool
  dcutr_on :: bool

record 'w swarm_lib =
  sw_new :: "toggles \<Rightarrow> 'w"
  sw_listen_on :: "multiaddr \<Rightarrow> ('w, string, unit) action"
  sw_dial :: "multiaddr \<Rightarrow> ('w, string, unit) action"
  sw_add_peer_address :: "peer_id \<Rightarrow> multiaddr \<Rightarrow> 'w \<Rightarrow> 'w"
  kad_add_address :: "peer_id \<Rightarrow> multiaddr \<Rightarrow> 'w \<Rightarrow> 'w"
  kad_start_providing :: "bytes \<Rightarrow> ('w, string, nat) action"
  kad_get_providers :: "bytes \<Rightarrow> 'w \<Rightarrow> nat \<times> 'w"
  rpc_send_request :: "peer_id \<Rightarrow> signed_envelope \<Rightarrow> 'w \<Rightarrow> nat \<times> 'w"
  rpc_send_response :: "nat \<Rightarrow> signed_envelope \<Rightarrow> 'w \<Rightarrow> 'w"
  gossip_subscribe :: "string \<Rightarrow> ('w, string, unit) action"
  gossip_publish :: "string \<Rightarrow> bytes \<Rightarrow> ('w, string, unit) action"

datatype nat_status = NatPublic | NatPrivate | NatUnknown

datatype swarm_event =
    NewListenAddr multiaddr
  | RpcRequest peer_id signed_envelope nat
  | RpcResponse nat signed_envelope
  | RpcOutboundFailure nat string
  | FoundProviders nat "peer_id list"
  | FinishedWithNoAdditionalRecord nat
  | GetProvidersError nat string
  | StartProviding nat "string + unit"
  | GossipReceived string peer_id bytes
  | IdentifyReceived peer_id "multiaddr list"
  | ReservationReqAccepted
  | CircuitEstablished
  | DcutrEvent bool
  | NatStatusChanged nat_status
  | ListenerError
  | ConnectionEstablished
  | OutgoingConnectionError string
  | OtherEvent

section \<open>The endpoint\<close>

text \<open>
  The \<open>std_mpsc::Sender\<close> of a command is the number of its channel; what has been sent into channels is
  kept in \<open>p_replies\<close>. A set of providers is the list of its elements.
\<close>

datatype command =
    CmdShutdown
  | CmdListen multiaddr nat
  | CmdDial multiaddr nat
  | CmdAddPeer peer_id multiaddr nat
  | CmdRequest peer_id signed_envelope nat
  | CmdProvide bytes nat
  | CmdFindProviders bytes nat
  | CmdSubscribe string nat
  | CmdPublish string bytes nat

datatype reply =
    UnitReply "string + unit"
  | EnvelopeReply "string + signed_envelope"
  | ProvidersReply "string + peer_id list"

record connectivity_stats =
  cs_relay_reservations :: u64
  cs_relay_circuits :: u64
  cs_hole_punch_successes :: u64
  cs_hole_punch_failures :: u64
  cs_listener_failures :: u64
  cs_connections :: u64
  cs_outgoing_connection_failures :: u64
  cs_relay_server_reservations :: u64
  cs_relay_server_denials :: u64
  cs_nat_public_transitions :: u64
  cs_nat_private_transitions :: u64

definition connectivity_default :: connectivity_stats where
  "connectivity_default = \<lparr>cs_relay_reservations = 0, cs_relay_circuits = 0, cs_hole_punch_successes = 0,
     cs_hole_punch_failures = 0, cs_listener_failures = 0, cs_connections = 0, cs_outgoing_connection_failures = 0,
     cs_relay_server_reservations = 0, cs_relay_server_denials = 0, cs_nat_public_transitions = 0,
     cs_nat_private_transitions = 0\<rparr>"

text \<open>What a method asks for, and a move of the loop or of another thread that holds the endpoint.\<close>

datatype call =
    ListenOn multiaddr
  | DialTo multiaddr
  | AddPeer peer_id multiaddr
  | ConfigurePrivacyRelay multiaddr
  | Provide bytes
  | FindProviders bytes
  | Subscribe string
  | Publish string bytes
  | RequestTo peer_id signed_envelope
  | DropEndpoint

datatype move =
    TakeCommand
  | Occurs swarm_event
  | Begins call

record ('w, 'n) p2p =
  p_peer_id :: peer_id
  p_listen_address :: multiaddr
  p_relay_private :: bool
  p_autonat_enabled :: bool
  p_privacy_relays :: "peer_id set"
  p_peers :: "(peer_id, multiaddr list) hmap"
  p_gossip_messages :: "(string \<times> peer_id \<times> bytes) list"
  p_listen_addresses :: "multiaddr list"
  p_connectivity :: connectivity_stats
  p_connection_errors :: "string list"
  p_running :: bool
  p_commands :: "command list"
  p_swarm :: 'w
  p_pending :: "(nat, nat) hmap"
  p_provider_queries :: "(nat, nat) hmap"
  p_providing_queries :: "(nat, nat) hmap"
  p_replies :: "(nat \<times> reply) list"
  p_channels :: nat
  p_node :: 'n
  p_schedule :: "move list list"

text \<open>The handler of incoming requests works on the state of the node; it may panic (\<open>None\<close>).\<close>

type_synonym 'n rpc_handler = "peer_id \<Rightarrow> signed_envelope \<Rightarrow> 'n \<Rightarrow> signed_envelope option \<times> 'n"

definition send_reply :: "nat \<Rightarrow> reply \<Rightarrow> ('w, 'n) p2p \<Rightarrow> ('w, 'n) p2p" where
  "send_reply ch r s = s\<lparr>p_replies := p_replies s @ [(ch, r)]\<rparr>"

text \<open>\<open>entry(peer).or_default().push(address)\<close>.\<close>

definition push_address :: "peer_id \<Rightarrow> multiaddr \<Rightarrow> (peer_id, multiaddr list) hmap \<Rightarrow> (peer_id, multiaddr list) hmap" where
  "push_address peer address m =
     AList.update peer ((case map_of m peer of None \<Rightarrow> [] | Some as \<Rightarrow> as) @ [address]) m"

fun handle_command :: "'w swarm_lib \<Rightarrow> command \<Rightarrow> ('w, 'n) p2p \<Rightarrow> ('w, 'n) p2p" where
  "handle_command L CmdShutdown s = s\<lparr>p_running := False\<rparr>"
| "handle_command L (CmdListen address response) s =
     (case sw_listen_on L address (p_swarm s) of (r, w) \<Rightarrow> send_reply response (UnitReply r) (s\<lparr>p_swarm := w\<rparr>))"
| "handle_command L (CmdDial address response) s =
     (case sw_dial L address (p_swarm s) of (r, w) \<Rightarrow> send_reply response (UnitReply r) (s\<lparr>p_swarm := w\<rparr>))"
| "handle_command L (CmdAddPeer peer address response) s =
     send_reply response (UnitReply (Inr ()))
       (s\<lparr>p_swarm := kad_add_address L peer address (sw_add_peer_address L peer address (p_swarm s)),
         p_peers := push_address peer address (p_peers s)\<rparr>)"
| "handle_command L (CmdRequest peer envelope response) s =
     (case rpc_send_request L peer envelope (p_swarm s) of (i, w) \<Rightarrow>
        s\<lparr>p_swarm := w, p_pending := AList.update i response (p_pending s)\<rparr>)"
| "handle_command L (CmdProvide key response) s =
     (case kad_start_providing L key (p_swarm s) of
        (Inr query, w) \<Rightarrow> s\<lparr>p_swarm := w, p_providing_queries := AList.update query response (p_providing_queries s)\<rparr>
      | (Inl e, w) \<Rightarrow> send_reply response (UnitReply (Inl e)) (s\<lparr>p_swarm := w\<rparr>))"
| "handle_command L (CmdFindProviders key response) s =
     (case kad_get_providers L key (p_swarm s) of (query, w) \<Rightarrow>
        s\<lparr>p_swarm := w, p_provider_queries := AList.update query response (p_provider_queries s)\<rparr>)"
| "handle_command L (CmdSubscribe topic response) s =
     (case gossip_subscribe L topic (p_swarm s) of (r, w) \<Rightarrow> send_reply response (UnitReply r) (s\<lparr>p_swarm := w\<rparr>))"
| "handle_command L (CmdPublish topic bytes response) s =
     (case gossip_publish L topic bytes (p_swarm s) of (r, w) \<Rightarrow> send_reply response (UnitReply r) (s\<lparr>p_swarm := w\<rparr>))"

text \<open>\<open>if let Some(sender) = map.remove(&id) { let _ = sender.send(..); }\<close> for each of the three tables.\<close>

definition answer_pending :: "nat \<Rightarrow> reply \<Rightarrow> ('w, 'n) p2p \<Rightarrow> ('w, 'n) p2p" where
  "answer_pending i r s =
     (case map_of (p_pending s) i of
        None \<Rightarrow> s
      | Some sender \<Rightarrow> send_reply sender r (s\<lparr>p_pending := AList.delete i (p_pending s)\<rparr>))"

definition answer_provider_query :: "nat \<Rightarrow> reply \<Rightarrow> ('w, 'n) p2p \<Rightarrow> ('w, 'n) p2p" where
  "answer_provider_query i r s =
     (case map_of (p_provider_queries s) i of
        None \<Rightarrow> s
      | Some sender \<Rightarrow> send_reply sender r (s\<lparr>p_provider_queries := AList.delete i (p_provider_queries s)\<rparr>))"

definition answer_providing_query :: "nat \<Rightarrow> reply \<Rightarrow> ('w, 'n) p2p \<Rightarrow> ('w, 'n) p2p" where
  "answer_providing_query i r s =
     (case map_of (p_providing_queries s) i of
        None \<Rightarrow> s
      | Some sender \<Rightarrow> send_reply sender r (s\<lparr>p_providing_queries := AList.delete i (p_providing_queries s)\<rparr>))"

definition count_event :: "(connectivity_stats \<Rightarrow> connectivity_stats) \<Rightarrow> ('w, 'n) p2p \<Rightarrow> ('w, 'n) p2p" where
  "count_event f s = s\<lparr>p_connectivity := f (p_connectivity s)\<rparr>"

fun handle_event :: "'w swarm_lib \<Rightarrow> 'n rpc_handler \<Rightarrow> swarm_event \<Rightarrow> ('w, 'n) p2p \<Rightarrow> ('w, 'n) p2p" where
  "handle_event L h (NewListenAddr address) s = s\<lparr>p_listen_addresses := p_listen_addresses s @ [address]\<rparr>"
| "handle_event L h (RpcRequest peer request channel) s =
     (case h peer request (p_node s) of
        (None, n) \<Rightarrow> s\<lparr>p_node := n, p_running := False\<rparr>
      | (Some response, n) \<Rightarrow> s\<lparr>p_node := n, p_swarm := rpc_send_response L channel response (p_swarm s)\<rparr>)"
| "handle_event L h (RpcResponse i response) s = answer_pending i (EnvelopeReply (Inr response)) s"
| "handle_event L h (RpcOutboundFailure i e) s = answer_pending i (EnvelopeReply (Inl e)) s"
| "handle_event L h (FoundProviders i providers) s =
     (if providers \<noteq> [] then answer_provider_query i (ProvidersReply (Inr providers)) s else s)"
| "handle_event L h (FinishedWithNoAdditionalRecord i) s = answer_provider_query i (ProvidersReply (Inr [])) s"
| "handle_event L h (GetProvidersError i e) s = answer_provider_query i (ProvidersReply (Inl e)) s"
| "handle_event L h (StartProviding i r) s = answer_providing_query i (UnitReply r) s"
| "handle_event L h (GossipReceived topic source data) s =
     s\<lparr>p_gossip_messages := p_gossip_messages s @ [(topic, source, data)]\<rparr>"
| "handle_event L h (IdentifyReceived peer addresses) s =
     s\<lparr>p_swarm := foldl (\<lambda>w a. kad_add_address L peer a w) (p_swarm s) addresses\<rparr>"
| "handle_event L h ReservationReqAccepted s =
     count_event (\<lambda>c. c\<lparr>cs_relay_reservations := cs_relay_reservations c + 1\<rparr>) s"
| "handle_event L h CircuitEstablished s = count_event (\<lambda>c. c\<lparr>cs_relay_circuits := cs_relay_circuits c + 1\<rparr>) s"
| "handle_event L h (DcutrEvent ok) s =
     count_event (\<lambda>c. if ok then c\<lparr>cs_hole_punch_successes := cs_hole_punch_successes c + 1\<rparr>
       else c\<lparr>cs_hole_punch_failures := cs_hole_punch_failures c + 1\<rparr>) s"
| "handle_event L h (NatStatusChanged new) s =
     count_event (\<lambda>c. case new of
         NatPublic \<Rightarrow> c\<lparr>cs_nat_public_transitions := cs_nat_public_transitions c + 1\<rparr>
       | NatPrivate \<Rightarrow> c\<lparr>cs_nat_private_transitions := cs_nat_private_transitions c + 1\<rparr>
       | NatUnknown \<Rightarrow> c) s"
| "handle_event L h ListenerError s = count_event (\<lambda>c. c\<lparr>cs_listener_failures := cs_listener_failures c + 1\<rparr>) s"
| "handle_event L h ConnectionEstablished s = count_event (\<lambda>c. c\<lparr>cs_connections := cs_connections c + 1\<rparr>) s"
| "handle_event L h (OutgoingConnectionError e) s =
     (count_event (\<lambda>c. c\<lparr>cs_outgoing_connection_failures := cs_outgoing_connection_failures c + 1\<rparr>) s)
       \<lparr>p_connection_errors := p_connection_errors s @ [e]\<rparr>"
| "handle_event L h OtherEvent s = s"

section \<open>Methods\<close>

definition uses_configured_circuit :: "('w, 'n) p2p \<Rightarrow> multiaddr \<Rightarrow> bool" where
  "uses_configured_circuit s address =
     (case circuit_relay address of None \<Rightarrow> False | Some peer \<Rightarrow> peer \<in> p_privacy_relays s)"

definition dial_allowed :: "('w, 'n) p2p \<Rightarrow> multiaddr \<Rightarrow> bool" where
  "dial_allowed s address \<longleftrightarrow>
     (case circuit_relay address of None \<Rightarrow> False | Some peer \<Rightarrow> peer \<in> p_privacy_relays s)
     \<or> (\<not> has_circuit address
        \<and> (case terminal_peer address of None \<Rightarrow> False | Some peer \<Rightarrow> peer \<in> p_privacy_relays s))"

text \<open>\<open>let (tx, rx) = channel(); self.command.send(..)\<close>: the queue is closed once the loop has ended.\<close>

definition send_command :: "(nat \<Rightarrow> command) \<Rightarrow> (('w, 'n) p2p, string, nat) action" where
  "send_command c s =
     (let ch = p_channels s; s = s\<lparr>p_channels := ch + 1\<rparr> in
      if p_running s then (Inr ch, s\<lparr>p_commands := p_commands s @ [c ch]\<rparr>) else (Inl ''channel closed'', s))"

text \<open>Each method up to the point where it waits for the reply.\<close>

fun begin_call :: "call \<Rightarrow> (('w, 'n) p2p, string, nat) action" where
  "begin_call (ListenOn address) s =
     (if p_relay_private s \<and> \<not> uses_configured_circuit s address
      then (Inl ''relay-private mode accepts listeners only through configured relays'', s)
      else send_command (CmdListen address) s)"
| "begin_call (DialTo address) s =
     (if p_relay_private s \<and> \<not> dial_allowed s address
      then (Inl ''relay-private mode rejects direct peer dials'', s)
      else send_command (CmdDial address) s)"
| "begin_call (AddPeer peer address) s =
     (if p_relay_private s \<and> \<not> uses_configured_circuit s address
      then (Inl ''relay-private mode accepts peer addresses only through configured relays'', s)
      else send_command (CmdAddPeer peer address) s)"
| "begin_call (ConfigurePrivacyRelay address) s =
     (if \<not> p_relay_private s then (Inl ''privacy relay can only be configured in relay-private mode'', s)
      else if has_circuit address then (Inl ''privacy relay address must be a direct relay multiaddr'', s)
      else case terminal_peer address of
        None \<Rightarrow> (Inl ''privacy relay address must end in /p2p/PEER_ID'', s)
      | Some peer \<Rightarrow> send_command (CmdDial address) (s\<lparr>p_privacy_relays := insert peer (p_privacy_relays s)\<rparr>))"
| "begin_call (Provide key) s = send_command (CmdProvide key) s"
| "begin_call (FindProviders key) s = send_command (CmdFindProviders key) s"
| "begin_call (Subscribe topic) s = send_command (CmdSubscribe topic) s"
| "begin_call (Publish topic bytes) s = send_command (CmdPublish topic bytes) s"
| "begin_call (RequestTo peer envelope) s = send_command (CmdRequest peer envelope) s"
| "begin_call DropEndpoint s = send_command (\<lambda>_. CmdShutdown) s"

text \<open>Which behaviours the swarm is built with; a disabled one (\<open>Toggle::from(None)\<close>) emits no event.\<close>

definition toggles_of :: "bool \<Rightarrow> bool \<Rightarrow> toggles" where
  "toggles_of autonat_enabled relay_private =
     \<lparr>identify_on = (\<not> relay_private), autonat_on = (autonat_enabled \<and> \<not> relay_private), dcutr_on = (\<not> relay_private)\<rparr>"

fun emitted :: "toggles \<Rightarrow> swarm_event \<Rightarrow> bool" where
  "emitted t (IdentifyReceived _ _) = identify_on t"
| "emitted t (NatStatusChanged _) = autonat_on t"
| "emitted t (DcutrEvent _) = dcutr_on t"
| "emitted t _ = True"

text \<open>One turn of \<open>tokio::select!\<close>, or the beginning of a call on another thread.\<close>

fun make_move :: "'w swarm_lib \<Rightarrow> 'n rpc_handler \<Rightarrow> ('w, 'n) p2p \<Rightarrow> move \<Rightarrow> ('w, 'n) p2p" where
  "make_move L h s TakeCommand =
     (case p_commands s of
        [] \<Rightarrow> s
      | c # rest \<Rightarrow> if p_running s then handle_command L c (s\<lparr>p_commands := rest\<rparr>) else s)"
| "make_move L h s (Occurs e) =
     (if p_running s \<and> emitted (toggles_of (p_autonat_enabled s) (p_relay_private s)) e
      then handle_event L h e s else s)"
| "make_move L h s (Begins c) = snd (begin_call c s)"

definition take_schedule :: "(move \<Rightarrow> bool) \<Rightarrow> 'w swarm_lib \<Rightarrow> 'n rpc_handler \<Rightarrow> ('w, 'n) p2p \<Rightarrow> ('w, 'n) p2p" where
  "take_schedule p L h s =
     (case p_schedule s of
        [] \<Rightarrow> s
      | ms # rest \<Rightarrow> foldl (make_move L h) (s\<lparr>p_schedule := rest\<rparr>) (filter p ms))"

fun command_channel :: "command \<Rightarrow> nat option" where
  "command_channel CmdShutdown = None"
| "command_channel (CmdListen _ ch) = Some ch"
| "command_channel (CmdDial _ ch) = Some ch"
| "command_channel (CmdAddPeer _ _ ch) = Some ch"
| "command_channel (CmdRequest _ _ ch) = Some ch"
| "command_channel (CmdProvide _ ch) = Some ch"
| "command_channel (CmdFindProviders _ ch) = Some ch"
| "command_channel (CmdSubscribe _ ch) = Some ch"
| "command_channel (CmdPublish _ _ ch) = Some ch"

definition open_channels :: "('w, 'n) p2p \<Rightarrow> nat list" where
  "open_channels s = List.map_filter command_channel (p_commands s) @ map snd (p_pending s)
     @ map snd (p_provider_queries s) @ map snd (p_providing_queries s)"

definition recv_error :: "bool \<Rightarrow> string" where
  "recv_error alive = (if alive then ''timed out waiting on channel'' else ''channel is empty and sending half is closed'')"

text \<open>\<open>rx.recv_timeout(..)\<close>: the reply that arrived during the wait, or the error of an empty channel.\<close>

definition recv_timeout :: "'w swarm_lib \<Rightarrow> 'n rpc_handler \<Rightarrow> nat \<Rightarrow> (('w, 'n) p2p, string, reply) action" where
  "recv_timeout L h ch s =
     (let s = take_schedule (\<lambda>_. True) L h s in
      case map_of (p_replies s) ch of
        Some r \<Rightarrow> (Inr r, s)
      | None \<Rightarrow> (Inl (recv_error (p_running s \<and> ch \<in> set (open_channels s))), s))"

fun unit_reply :: "reply \<Rightarrow> string + unit" where
  "unit_reply (UnitReply r) = r"
| "unit_reply _ = Inl ''''"

fun envelope_reply :: "reply \<Rightarrow> string + signed_envelope" where
  "envelope_reply (EnvelopeReply r) = r"
| "envelope_reply _ = Inl ''''"

fun providers_reply :: "reply \<Rightarrow> string + peer_id list" where
  "providers_reply (ProvidersReply r) = r"
| "providers_reply _ = Inl ''''"

definition finish_call ::
  "'w swarm_lib \<Rightarrow> 'n rpc_handler \<Rightarrow> (reply \<Rightarrow> string + 'a) \<Rightarrow> call \<Rightarrow> (('w, 'n) p2p, string, 'a) action" where
  "finish_call L h f c = bind_m (begin_call c) (\<lambda>ch. bind_m (recv_timeout L h ch) (\<lambda>r. pure_m (f r)))"

definition listen_on :: "'w swarm_lib \<Rightarrow> 'n rpc_handler \<Rightarrow> multiaddr \<Rightarrow> (('w, 'n) p2p, string, unit) action" where
  "listen_on L h address = finish_call L h unit_reply (ListenOn address)"

definition dial :: "'w swarm_lib \<Rightarrow> 'n rpc_handler \<Rightarrow> multiaddr \<Rightarrow> (('w, 'n) p2p, string, unit) action" where
  "dial L h address = finish_call L h unit_reply (DialTo address)"

definition add_peer :: "'w swarm_lib \<Rightarrow> 'n rpc_handler \<Rightarrow> peer_id \<Rightarrow> multiaddr \<Rightarrow> (('w, 'n) p2p, string, unit) action" where
  "add_peer L h peer address = finish_call L h unit_reply (AddPeer peer address)"

definition configure_privacy_relay :: "'w swarm_lib \<Rightarrow> 'n rpc_handler \<Rightarrow> multiaddr \<Rightarrow> (('w, 'n) p2p, string, unit) action" where
  "configure_privacy_relay L h address = finish_call L h unit_reply (ConfigurePrivacyRelay address)"

definition provide :: "'w swarm_lib \<Rightarrow> 'n rpc_handler \<Rightarrow> bytes \<Rightarrow> (('w, 'n) p2p, string, unit) action" where
  "provide L h key = finish_call L h unit_reply (Provide key)"

definition find_providers :: "'w swarm_lib \<Rightarrow> 'n rpc_handler \<Rightarrow> bytes \<Rightarrow> (('w, 'n) p2p, string, peer_id list) action" where
  "find_providers L h key = finish_call L h providers_reply (FindProviders key)"

definition subscribe :: "'w swarm_lib \<Rightarrow> 'n rpc_handler \<Rightarrow> string \<Rightarrow> (('w, 'n) p2p, string, unit) action" where
  "subscribe L h topic = finish_call L h unit_reply (Subscribe topic)"

definition publish :: "'w swarm_lib \<Rightarrow> 'n rpc_handler \<Rightarrow> string \<Rightarrow> bytes \<Rightarrow> (('w, 'n) p2p, string, unit) action" where
  "publish L h topic bytes = finish_call L h unit_reply (Publish topic bytes)"

definition p2p_request ::
  "'w swarm_lib \<Rightarrow> 'n rpc_handler \<Rightarrow> peer_id \<Rightarrow> signed_envelope \<Rightarrow> (('w, 'n) p2p, string, signed_envelope) action" where
  "p2p_request L h peer envelope = finish_call L h envelope_reply (RequestTo peer envelope)"

definition drain_gossip_messages :: "('w, 'n) p2p \<Rightarrow> (string \<times> peer_id \<times> bytes) list \<times> ('w, 'n) p2p" where
  "drain_gossip_messages s = (p_gossip_messages s, s\<lparr>p_gossip_messages := []\<rparr>)"

record privacy_profile =
  pf_relay_only :: bool
  pf_mdns_enabled :: bool
  pf_identify_enabled :: bool
  pf_autonat_enabled :: bool
  pf_dcutr_enabled :: bool
  pf_direct_peer_addresses_disclosed :: bool
  pf_persistent_peer_id_disclosed :: bool
  pf_exact_capability_metrics_disclosed :: bool

definition profile_of :: "('w, 'n) p2p \<Rightarrow> privacy_profile" where
  "profile_of s =
     \<lparr>pf_relay_only = p_relay_private s, pf_mdns_enabled = False, pf_identify_enabled = (\<not> p_relay_private s),
      pf_autonat_enabled = (p_autonat_enabled s \<and> \<not> p_relay_private s), pf_dcutr_enabled = (\<not> p_relay_private s),
      pf_direct_peer_addresses_disclosed = (\<not> p_relay_private s), pf_persistent_peer_id_disclosed = True,
      pf_exact_capability_metrics_disclosed = False\<rparr>"

section \<open>Starting\<close>

text \<open>
  The endpoint of a node whose state is \<open>n\<close>. A swarm that cannot listen panics the new thread, which
  closes the channel the start waits on. No other thread holds the endpoint yet, so only the
  loop moves; when no address is announced in time the start fails and the loop goes on.
\<close>

fun loop_move :: "move \<Rightarrow> bool" where
  "loop_move (Begins _) = False"
| "loop_move _ = True"

definition new_endpoint :: "peer_id \<Rightarrow> bool \<Rightarrow> bool \<Rightarrow> 'w \<Rightarrow> 'n \<Rightarrow> move list list \<Rightarrow> ('w, 'n) p2p" where
  "new_endpoint peer autonat_enabled relay_private w n schedule =
     \<lparr>p_peer_id = peer, p_listen_address = [], p_relay_private = relay_private, p_autonat_enabled = autonat_enabled,
      p_privacy_relays = {}, p_peers = [], p_gossip_messages = [], p_listen_addresses = [],
      p_connectivity = connectivity_default, p_connection_errors = [], p_running = True, p_commands = [], p_swarm = w,
      p_pending = [], p_provider_queries = [], p_providing_queries = [], p_replies = [], p_channels = 0, p_node = n,
      p_schedule = schedule\<rparr>"

definition start_client ::
  "'w swarm_lib \<Rightarrow> 'n rpc_handler \<Rightarrow> peer_id \<Rightarrow> multiaddr \<Rightarrow> bool \<Rightarrow> bool \<Rightarrow> 'n \<Rightarrow> move list list \<Rightarrow>
     (string + unit) \<times> ('w, 'n) p2p" where
  "start_client L h peer listen_address autonat_enabled relay_private n schedule =
     (case sw_listen_on L listen_address (sw_new L (toggles_of autonat_enabled relay_private)) of
        (Inl e, w) \<Rightarrow> (Inl (recv_error False), (new_endpoint peer autonat_enabled relay_private w n schedule)\<lparr>p_running := False\<rparr>)
      | (Inr _, w) \<Rightarrow>
          let s = take_schedule loop_move L h (new_endpoint peer autonat_enabled relay_private w n schedule) in
          case p_listen_addresses s of
            [] \<Rightarrow> (Inl (recv_error (p_running s)), s)
          | address # _ \<Rightarrow> (Inr (), s\<lparr>p_listen_address := address\<rparr>))"

definition start_bound ::
  "'w swarm_lib \<Rightarrow> 'n rpc_handler \<Rightarrow> peer_id \<Rightarrow> multiaddr \<Rightarrow> 'n \<Rightarrow> move list list \<Rightarrow> (string + unit) \<times> ('w, 'n) p2p" where
  "start_bound L h peer listen_address = start_client L h peer listen_address True False"

definition start_private ::
  "'w swarm_lib \<Rightarrow> (signed_envelope \<Rightarrow> 'n \<Rightarrow> signed_envelope option \<times> 'n) \<Rightarrow> peer_id \<Rightarrow> multiaddr \<Rightarrow> 'n \<Rightarrow> move list list \<Rightarrow>
     (string + unit) \<times> ('w, 'n) p2p" where
  "start_private L h peer listen_address = start_client L (\<lambda>_. h) peer listen_address False False"

text \<open>\<open>None\<close> in the second component: no endpoint has been made.\<close>

definition start_relay_private_bound ::
  "'w swarm_lib \<Rightarrow> 'n rpc_handler \<Rightarrow> peer_id \<Rightarrow> multiaddr \<Rightarrow> 'n \<Rightarrow> move list list \<Rightarrow>
     (string + unit) \<times> ('w, 'n) p2p option" where
  "start_relay_private_bound L h peer listen_address n schedule =
     (if \<not> is_loopback listen_address then (Inl ''relay-private mode requires a loopback-only base listener'', None)
      else map_prod id Some (start_client L h peer listen_address False True n schedule))"

section \<open>The peer cache\<close>

definition MAX_PEER_CACHE_BYTES :: nat where "MAX_PEER_CACHE_BYTES = 4 * 1024 * 1024"
definition MAX_PEER_CACHE_ENTRIES :: nat where "MAX_PEER_CACHE_ENTRIES = 4096"

text \<open>
  Text of peer identifiers and addresses, and the JSON of the cache: \<open>cache_elements\<close> is what a
  \<open>SeqAccess\<close> yields (the elements, then the error it stops with), \<open>cache_end\<close> the check for trailing
  bytes, \<open>custom_error\<close> the text of an error raised by the visitor.
\<close>

record p2p_text =
  peer_to_string :: "peer_id \<Rightarrow> string"
  peer_parse :: "string \<Rightarrow> string + peer_id"
  addr_to_string :: "multiaddr \<Rightarrow> string"
  addr_parse :: "string \<Rightarrow> string + multiaddr"
  cache_elements :: "bytes \<Rightarrow> string + (string \<times> string) list \<times> string option"
  cache_end :: "bytes \<Rightarrow> string + unit"
  cache_to_vec_pretty :: "(string \<times> string) list \<Rightarrow> string + bytes"
  custom_error :: "bytes \<Rightarrow> string \<Rightarrow> string"
  io_error_text :: "io_error \<Rightarrow> string"

fun visit_seq ::
  "(string \<Rightarrow> string) \<Rightarrow> (string \<times> string) list \<Rightarrow> (string \<times> string) list \<Rightarrow> string option \<Rightarrow> string + (string \<times> string) list" where
  "visit_seq custom entries [] None = Inr entries"
| "visit_seq custom entries [] (Some e) = Inl e"
| "visit_seq custom entries (entry # elements) stop =
     (if length entries = MAX_PEER_CACHE_ENTRIES then Inl (custom ''peer cache exceeds entry limit'')
      else visit_seq custom (entries @ [entry]) elements stop)"

definition parse_peer_cache :: "p2p_text \<Rightarrow> bytes \<Rightarrow> string + (string \<times> string) list" where
  "parse_peer_cache T bytes =
     bind_r (cache_elements T bytes) (\<lambda>(elements, stop).
     bind_r (visit_seq (custom_error T bytes) [] elements stop) (\<lambda>entries.
     bind_r (cache_end T bytes) (\<lambda>_. Inr entries)))"

text \<open>The bytes of the cache file, \<open>None\<close> when there is no file.\<close>

definition read_peer_cache :: "p2p_text \<Rightarrow> path \<Rightarrow> (fs, string, bytes option) action" where
  "read_peer_cache T path s =
     (case path_exists path s of (there, s) \<Rightarrow>
        if \<not> there then (Inr None, s)
        else case read_limited path MAX_PEER_CACHE_BYTES s of (r, s) \<Rightarrow> (bind_r (map_err (io_error_text T) r) (Inr \<circ> Some), s))"

fun add_entries ::
  "p2p_text \<Rightarrow> 'w swarm_lib \<Rightarrow> 'n rpc_handler \<Rightarrow> nat \<Rightarrow> (string \<times> string) list \<Rightarrow> (('w, 'n) p2p, string, nat) action" where
  "add_entries T L h loaded [] = pure_m (Inr loaded)"
| "add_entries T L h loaded ((peer, address) # entries) =
     bind_m (pure_m (peer_parse T peer)) (\<lambda>peer.
     bind_m (pure_m (addr_parse T address)) (\<lambda>address.
     bind_m (add_peer L h peer address) (\<lambda>_.
     add_entries T L h (loaded + 1) entries)))"

text \<open>The file system is part of the node's state; \<open>get\<close> and \<open>put\<close> say which.\<close>

definition on_node_fs ::
  "('n \<Rightarrow> fs) \<Rightarrow> (fs \<Rightarrow> 'n \<Rightarrow> 'n) \<Rightarrow> (fs, string, 'a) action \<Rightarrow> (('w, 'n) p2p, string, 'a) action" where
  "on_node_fs get put m s = (case m (get (p_node s)) of (r, f) \<Rightarrow> (r, s\<lparr>p_node := put f (p_node s)\<rparr>))"

definition load_peer_cache ::
  "('n \<Rightarrow> fs) \<Rightarrow> (fs \<Rightarrow> 'n \<Rightarrow> 'n) \<Rightarrow> p2p_text \<Rightarrow> 'w swarm_lib \<Rightarrow> 'n rpc_handler \<Rightarrow> path \<Rightarrow> (('w, 'n) p2p, string, nat) action" where
  "load_peer_cache get put T L h path =
     bind_m (on_node_fs get put (read_peer_cache T path)) (\<lambda>content.
     case content of
       None \<Rightarrow> pure_m (Inr 0)
     | Some bytes \<Rightarrow>
         bind_m (pure_m (parse_peer_cache T bytes)) (\<lambda>entries.
         add_entries T L h 0 entries))"

definition cache_entries :: "p2p_text \<Rightarrow> (peer_id, multiaddr list) hmap \<Rightarrow> (string \<times> string) list" where
  "cache_entries T peers =
     concat (map (\<lambda>(peer, addresses). map (\<lambda>a. (peer_to_string T peer, addr_to_string T a)) addresses) peers)"

definition write_peer_cache :: "p2p_text \<Rightarrow> path \<Rightarrow> (string \<times> string) list \<Rightarrow> (fs, string, unit) action" where
  "write_peer_cache T path entries =
     bind_m (case path_parent path of
               None \<Rightarrow> pure_m (Inr ())
             | Some parent \<Rightarrow> from_m (io_error_text T) (create_dir_all parent)) (\<lambda>_.
     if length entries > MAX_PEER_CACHE_ENTRIES then pure_m (Inl ''peer cache exceeds entry limit'')
     else
       bind_m (pure_m (cache_to_vec_pretty T entries)) (\<lambda>bytes.
       if length bytes > MAX_PEER_CACHE_BYTES then pure_m (Inl ''peer cache exceeds size limit'')
       else from_m (io_error_text T) (atomic_replace path bytes (Some (6 * 8 * 8)))))"

text \<open>\<open>HashMap::into_iter\<close> visits the peers in the order of the list.\<close>

definition save_peer_cache ::
  "('n \<Rightarrow> fs) \<Rightarrow> (fs \<Rightarrow> 'n \<Rightarrow> 'n) \<Rightarrow> p2p_text \<Rightarrow> path \<Rightarrow> (('w, 'n) p2p, string, unit) action" where
  "save_peer_cache get put T path s = on_node_fs get put (write_peer_cache T path (cache_entries T (p_peers s))) s"

end
