(* ===== verification/P2p_Props.thy ===== *)
theory P2p_Props
  imports P2p "HOL-Library.Multiset"
begin

text \<open>
  What the endpoint of \<open>crates/peerless-network/src/p2p.rs\<close> keeps to: in relay-private mode the swarm is
  only ever pointed at configured relays, a channel gets at most one reply, and the peer cache
  gives back the peers it was written from.
\<close>

section \<open>Calls into the swarm\<close>

text \<open>Any swarm library, made to keep the addresses it is called with.\<close>

datatype swarm_call =
    SwListen multiaddr
  | SwDial multiaddr
  | SwAddress peer_id multiaddr
  | KadAddress peer_id multiaddr

definition recording :: "'w swarm_lib \<Rightarrow> ('w \<times> swarm_call list) swarm_lib" where
  "recording L =
     \<lparr>sw_new = (\<lambda>t. (sw_new L t, [])),
      sw_listen_on = (\<lambda>a (w, cs). case sw_listen_on L a w of (r, w) \<Rightarrow> (r, w, cs @ [SwListen a])),
      sw_dial = (\<lambda>a (w, cs). case sw_dial L a w of (r, w) \<Rightarrow> (r, w, cs @ [SwDial a])),
      sw_add_peer_address = (\<lambda>p a (w, cs). (sw_add_peer_address L p a w, cs @ [SwAddress p a])),
      kad_add_address = (\<lambda>p a (w, cs). (kad_add_address L p a w, cs @ [KadAddress p a])),
      kad_start_providing = (\<lambda>k (w, cs). case kad_start_providing L k w of (r, w) \<Rightarrow> (r, w, cs)),
      kad_get_providers = (\<lambda>k (w, cs). case kad_get_providers L k w of (i, w) \<Rightarrow> (i, w, cs)),
      rpc_send_request = (\<lambda>p e (w, cs). case rpc_send_request L p e w of (i, w) \<Rightarrow> (i, w, cs)),
      rpc_send_response = (\<lambda>c e (w, cs). (rpc_send_response L c e w, cs)),
      gossip_subscribe = (\<lambda>t (w, cs). case gossip_subscribe L t w of (r, w) \<Rightarrow> (r, w, cs)),
      gossip_publish = (\<lambda>t b (w, cs). case gossip_publish L t b w of (r, w) \<Rightarrow> (r, w, cs))\<rparr>"

definition via :: "peer_id set \<Rightarrow> multiaddr \<Rightarrow> bool" where
  "via relays address \<longleftrightarrow> (\<exists>relay \<in> relays. circuit_relay address = Some relay)"

definition direct_to :: "peer_id set \<Rightarrow> multiaddr \<Rightarrow> bool" where
  "direct_to relays address \<longleftrightarrow> \<not> has_circuit address \<and> (\<exists>relay \<in> relays. terminal_peer address = Some relay)"

fun behind_relays :: "multiaddr \<Rightarrow> peer_id set \<Rightarrow> swarm_call \<Rightarrow> bool" where
  "behind_relays base relays (SwListen a) \<longleftrightarrow> a = base \<or> via relays a"
| "behind_relays base relays (SwDial a) \<longleftrightarrow> via relays a \<or> direct_to relays a"
| "behind_relays base relays (SwAddress _ a) \<longleftrightarrow> via relays a"
| "behind_relays base relays (KadAddress _ a) \<longleftrightarrow> via relays a"

fun command_behind :: "peer_id set \<Rightarrow> command \<Rightarrow> bool" where
  "command_behind relays (CmdListen a _) \<longleftrightarrow> via relays a"
| "command_behind relays (CmdDial a _) \<longleftrightarrow> via relays a \<or> direct_to relays a"
| "command_behind relays (CmdAddPeer _ a _) \<longleftrightarrow> via relays a"
| "command_behind relays _ \<longleftrightarrow> True"

definition relay_inv :: "multiaddr \<Rightarrow> ('w \<times> swarm_call list, 'n) p2p \<Rightarrow> bool" where
  "relay_inv base s \<longleftrightarrow> p_relay_private s
     \<and> list_all (command_behind (p_privacy_relays s)) (p_commands s)
     \<and> list_all (behind_relays base (p_privacy_relays s)) (snd (p_swarm s))
     \<and> (\<forall>(peer, addresses) \<in> set (p_peers s). list_all (via (p_privacy_relays s)) addresses)"

lemma configured_via: "uses_configured_circuit s a \<longleftrightarrow> via (p_privacy_relays s) a"
  by (auto simp: uses_configured_circuit_def via_def split: option.splits)

lemma dial_allowed_iff: "dial_allowed s a \<longleftrightarrow> via (p_privacy_relays s) a \<or> direct_to (p_privacy_relays s) a"
  by (auto simp: dial_allowed_def via_def direct_to_def split: option.splits)

lemma more_relays:
  assumes "relays \<subseteq> relays'"
  shows "via relays a \<Longrightarrow> via relays' a" "direct_to relays a \<Longrightarrow> direct_to relays' a"
    "command_behind relays c \<Longrightarrow> command_behind relays' c" "behind_relays base relays sc \<Longrightarrow> behind_relays base relays' sc"
  using assms by (cases c; cases sc; auto simp: via_def direct_to_def)+

lemma relay_inv_more:
  assumes "relay_inv base s" "p_privacy_relays s \<subseteq> relays"
  shows "relay_inv base (s\<lparr>p_privacy_relays := relays\<rparr>)"
  using assms(1) more_relays [OF assms(2)]
  by (auto simp: relay_inv_def list_all_iff)

lemma set_push_address:
  assumes "(peer, as) \<in> set (push_address p a m)"
  shows "(peer, as) \<in> set m \<or> (\<exists>as0. as = as0 @ [a] \<and> (as0 = [] \<or> (p, as0) \<in> set m))"
proof -
  have "(peer, as) \<in> set m \<or> as = (case map_of m p of None \<Rightarrow> [] | Some as \<Rightarrow> as) @ [a]"
    using assms unfolding push_address_def
    by (induction m arbitrary: rule: list.induct) (auto split: if_splits option.splits)
  then show ?thesis by (auto split: option.splits dest: map_of_SomeD)
qed

lemma send_command_inv:
  assumes "relay_inv base s" "\<And>ch. command_behind (p_privacy_relays s) (c ch)"
  shows "relay_inv base (snd (send_command c s))"
  using assms by (simp add: send_command_def relay_inv_def Let_def)

lemma begin_call_inv:
  assumes "relay_inv base s"
  shows "relay_inv base (snd (begin_call c s))"
proof (cases c)
  case (ConfigurePrivacyRelay a)
  show ?thesis
  proof (cases "terminal_peer a")
    case (Some relay)
    let ?s = "s\<lparr>p_privacy_relays := insert relay (p_privacy_relays s)\<rparr>"
    have "relay_inv base ?s" by (rule relay_inv_more [OF assms]) auto
    moreover have "\<not> has_circuit a \<Longrightarrow> direct_to (p_privacy_relays ?s) a" using Some by (simp add: direct_to_def)
    ultimately show ?thesis using assms Some ConfigurePrivacyRelay by (auto intro: send_command_inv)
  qed (use assms ConfigurePrivacyRelay in simp)
qed (use assms in \<open>auto simp: configured_via dial_allowed_iff relay_inv_def [THEN iffD1, THEN conjunct1] intro!: send_command_inv\<close>)

lemma relay_inv_waiting [simp]: "relay_inv base (s\<lparr>p_schedule := ms\<rparr>) = relay_inv base s"
  by (simp add: relay_inv_def)

lemma handle_command_inv:
  assumes "relay_inv base s" "command_behind (p_privacy_relays s) c"
  shows "relay_inv base (handle_command (recording L) c s)"
proof -
  obtain w cs where w: "p_swarm s = (w, cs)" by (rule prod.exhaust)
  show ?thesis
  proof (cases c)
    case (CmdAddPeer p a ch)
    have "list_all (via (p_privacy_relays s)) as" if "(peer, as) \<in> set (push_address p a (p_peers s))" for peer as
      using set_push_address [OF that] assms CmdAddPeer by (auto simp: relay_inv_def)
    then show ?thesis using assms CmdAddPeer w by (auto simp: relay_inv_def recording_def send_reply_def)
  qed (use assms w in \<open>auto simp: relay_inv_def recording_def send_reply_def split: prod.splits sum.splits\<close>)
qed

lemma handle_event_inv:
  assumes "relay_inv base s" "emitted (toggles_of (p_autonat_enabled s) (p_relay_private s)) e"
  shows "relay_inv base (handle_event (recording L) h e s)"
proof -
  obtain w cs where w: "p_swarm s = (w, cs)" by (rule prod.exhaust)
  show ?thesis
    using assms w
    by (cases e) (auto simp: relay_inv_def recording_def toggles_of_def answer_pending_def answer_provider_query_def
      answer_providing_query_def send_reply_def count_event_def split: prod.splits option.splits)
qed

lemma make_move_inv:
  assumes "relay_inv base s"
  shows "relay_inv base (make_move (recording L) h s m)"
proof (cases m)
  case TakeCommand
  show ?thesis
  proof (cases "p_commands s")
    case (Cons c rest)
    have "relay_inv base (s\<lparr>p_commands := rest\<rparr>)" "command_behind (p_privacy_relays s) c"
      using assms Cons by (auto simp: relay_inv_def)
    then show ?thesis using handle_command_inv [of base "s\<lparr>p_commands := rest\<rparr>" c L] assms TakeCommand Cons by simp
  qed (use assms TakeCommand in simp)
qed (use assms handle_event_inv begin_call_inv in auto)

definition fresh_private :: "multiaddr \<Rightarrow> ('w \<times> swarm_call list, 'n) p2p \<Rightarrow> bool" where
  "fresh_private base s \<longleftrightarrow> p_relay_private s \<and> p_commands s = [] \<and> p_peers s = [] \<and> snd (p_swarm s) = [SwListen base]"

interpretation relay_mode: state_machine "make_move (recording L) h" "fresh_private base" "relay_inv base" for L h base
  by unfold_locales (simp add: fresh_private_def relay_inv_def, rule make_move_inv)

lemma schedule_inv: "relay_inv base s \<Longrightarrow> relay_inv base (take_schedule p (recording L) h s)"
  unfolding take_schedule_def
  by (cases "p_schedule s") (auto intro!: relay_mode.run_inv)

lemma started_private_inv:
  assumes "start_relay_private_bound (recording L) h peer base n schedule = (r, Some s)"
  shows "relay_inv base s" "is_loopback base"
proof -
  show "is_loopback base" using assms by (simp add: start_relay_private_bound_def split: if_splits)
  let ?t = "toggles_of False True"
  obtain r1 w cs where l: "sw_listen_on (recording L) base (sw_new (recording L) ?t) = (r1, w, cs)" by (rule prod_cases3)
  then have cs: "cs = [SwListen base]" by (auto simp: recording_def split: prod.splits)
  let ?s = "new_endpoint peer False True (w, cs) n schedule"
  have i: "relay_inv base ?s" by (rule relay_mode.init_inv) (simp add: fresh_private_def new_endpoint_def cs)
  have off: "relay_inv base (?s\<lparr>p_running := False\<rparr>)" using i by (simp add: relay_inv_def)
  have on: "relay_inv base (take_schedule loop_move (recording L) h ?s)" by (rule schedule_inv) (rule i)
  have "s = ?s\<lparr>p_running := False\<rparr> \<or> s = take_schedule loop_move (recording L) h ?s
      \<or> (\<exists>a. s = (take_schedule loop_move (recording L) h ?s)\<lparr>p_listen_address := a\<rparr>)"
    using assms l by (auto simp: start_relay_private_bound_def start_client_def Let_def split: if_splits sum.splits list.splits)
  then show "relay_inv base s"
  proof (elim disjE exE)
    fix a assume "s = (take_schedule loop_move (recording L) h ?s)\<lparr>p_listen_address := a\<rparr>"
    then show ?thesis using on by (simp add: relay_inv_def)
  qed (simp_all only: off on)
qed


section \<open>Replies\<close>

text \<open>Every channel number that is still held somewhere or has been replied to.\<close>

definition channels :: "('w, 'n) p2p \<Rightarrow> nat multiset" where
  "channels s = mset (open_channels s) + mset (map fst (p_replies s))"

definition channels_inv :: "('w, 'n) p2p \<Rightarrow> bool" where
  "channels_inv s \<longleftrightarrow> (\<forall>ch. count (channels s) ch \<le> (if ch < p_channels s then 1 else 0))"

lemma update_values: "mset (map snd (AList.update k v m)) \<subseteq># add_mset v (mset (map snd m))"
  by (induction m) (auto simp: add_mset_commute)

lemma delete_values: "mset (map snd (AList.delete k m)) \<subseteq># mset (map snd m)"
  by (induction m) (auto intro: subset_mset.order_trans)

lemma delete_known_value:
  "map_of m k = Some v \<Longrightarrow> add_mset v (mset (map snd (AList.delete k m))) \<subseteq># mset (map snd m)"
  by (induction m) (auto simp: delete_values [simplified] add_mset_commute split: if_splits)

lemma channels_invD:
  assumes "channels_inv s"
  shows "count (channels s) ch \<le> 1" "\<not> ch < p_channels s \<Longrightarrow> count (channels s) ch = 0"
proof -
  have "count (channels s) ch \<le> (if ch < p_channels s then 1 else 0)" using assms by (simp only: channels_inv_def)
  then show "count (channels s) ch \<le> 1" "\<not> ch < p_channels s \<Longrightarrow> count (channels s) ch = 0" by (simp_all split: if_splits)
qed

lemma channels_inv_updates [simp]:
  "channels_inv (s\<lparr>p_privacy_relays := R\<rparr>) = channels_inv s" "channels_inv (s\<lparr>p_node := n\<rparr>) = channels_inv s"
  "channels_inv (s\<lparr>p_running := b\<rparr>) = channels_inv s" "channels_inv (s\<lparr>p_listen_address := a\<rparr>) = channels_inv s"
  "channels_inv (s\<lparr>p_schedule := ms\<rparr>) = channels_inv s"
  by (simp_all add: channels_inv_def channels_def open_channels_def)

lemma finish_call_run:
  assumes "begin_call c s = (Inr ch, s1)"
  shows "finish_call L h f c s = (case recv_timeout L h ch s1 of (Inl e, t) \<Rightarrow> (Inl e, t) | (Inr r, t) \<Rightarrow> (f r, t))"
  using assms by (simp add: finish_call_def bind_m_def split: prod.splits sum.splits)

lemma channels_inv_mono:
  assumes "channels_inv s" "channels t \<subseteq># channels s" "p_channels s \<le> p_channels t"
  shows "channels_inv t"
  unfolding channels_inv_def
proof
  fix ch
  have "count (channels t) ch \<le> count (channels s) ch" by (rule mset_subset_eq_count) (rule assms(2))
  also have "\<dots> \<le> (if ch < p_channels s then 1 else 0)" using assms(1) by (simp add: channels_inv_def)
  finally show "count (channels t) ch \<le> (if ch < p_channels t then 1 else 0)" using assms(3) by (simp split: if_splits)
qed

lemmas channel_defs = channels_def open_channels_def send_reply_def

lemma handle_command_channels:
  assumes "p_commands s = c # rest"
  shows "channels (handle_command L c (s\<lparr>p_commands := rest\<rparr>)) \<subseteq># channels s"
    "p_channels (handle_command L c (s\<lparr>p_commands := rest\<rparr>)) = p_channels s"
  using assms update_values [of _ _ "p_pending s"] update_values [of _ _ "p_provider_queries s"]
    update_values [of _ _ "p_providing_queries s"]
  by (cases c; auto simp: channel_defs map_filter_simps split: prod.splits sum.splits)+


lemma answer_channels:
  "channels (answer_pending i r s) \<subseteq># channels s" "channels (answer_provider_query i r s) \<subseteq># channels s"
  "channels (answer_providing_query i r s) \<subseteq># channels s"
  using delete_known_value [of "p_pending s" i] delete_known_value [of "p_provider_queries s" i]
    delete_known_value [of "p_providing_queries s" i]
  by (auto simp: answer_pending_def answer_provider_query_def answer_providing_query_def channel_defs split: option.splits)

lemma answer_keeps:
  "p_channels (answer_pending i r s) = p_channels s" "p_channels (answer_provider_query i r s) = p_channels s"
  "p_channels (answer_providing_query i r s) = p_channels s"
  by (auto simp: answer_pending_def answer_provider_query_def answer_providing_query_def send_reply_def split: option.splits)

lemma handle_event_channels:
  "channels (handle_event L h e s) \<subseteq># channels s" "p_channels (handle_event L h e s) = p_channels s"
  by (cases e; auto simp: answer_channels answer_keeps count_event_def split: prod.splits option.splits;
      simp add: channels_def open_channels_def)+

lemma send_command_channels:
  assumes "channels_inv s" "\<And>ch. command_channel (c ch) = Some ch \<or> command_channel (c ch) = None"
  shows "channels_inv (snd (send_command c s))"
proof -
  have new: "count (channels s) (p_channels s) = 0" using channels_invD(2) [OF assms(1)] by simp
  have "channels (snd (send_command c s)) \<subseteq># add_mset (p_channels s) (channels s)"
    using assms(2) [of "p_channels s"]
    by (auto simp: send_command_def channel_defs Let_def map_filter_def)
  then have "count (channels (snd (send_command c s))) ch \<le> count (add_mset (p_channels s) (channels s)) ch" for ch
    by (rule mset_subset_eq_count)
  moreover have "count (add_mset (p_channels s) (channels s)) ch \<le> (if ch < Suc (p_channels s) then 1 else 0)" for ch
    using assms(1) new by (cases "ch = p_channels s") (simp_all add: channels_inv_def less_Suc_eq)
  moreover have "p_channels (snd (send_command c s)) = Suc (p_channels s)" by (simp add: send_command_def Let_def)
  ultimately show ?thesis unfolding channels_inv_def by (metis order_trans)
qed

lemma begin_call_channels: "channels_inv s \<Longrightarrow> channels_inv (snd (begin_call c s))"
  by (cases c) (auto intro!: send_command_channels split: option.splits)

lemma make_move_channels:
  assumes "channels_inv s"
  shows "channels_inv (make_move L h s m)"
proof (cases m)
  case TakeCommand
  show ?thesis
  proof (cases "p_commands s")
    case (Cons c rest)
    have "channels_inv (handle_command L c (s\<lparr>p_commands := rest\<rparr>))"
      by (rule channels_inv_mono [OF assms handle_command_channels(1) [OF Cons]]) (simp only: handle_command_channels(2) [OF Cons])
    then show ?thesis using assms TakeCommand Cons by simp
  qed (use assms TakeCommand in simp)
next
  case (Occurs e)
  have "channels_inv (handle_event L h e s)"
    by (rule channels_inv_mono [OF assms handle_event_channels(1)]) (simp only: handle_event_channels(2))
  then show ?thesis using assms Occurs by simp
qed (simp add: begin_call_channels assms)

definition fresh_channels :: "('w, 'n) p2p \<Rightarrow> bool" where
  "fresh_channels s \<longleftrightarrow> open_channels s = [] \<and> p_replies s = []"

interpretation reply_once: state_machine "make_move L h" fresh_channels channels_inv for L h
  by unfold_locales (simp add: fresh_channels_def channels_inv_def channels_def, rule make_move_channels)

lemma channels_inv_distinct:
  assumes "channels_inv s"
  shows "distinct (open_channels s @ map fst (p_replies s))"
proof -
  have "count (mset (open_channels s @ map fst (p_replies s))) ch \<le> 1" for ch
    using channels_invD(1) [OF assms, of ch] by (simp add: channels_def)
  then show ?thesis by (auto simp: distinct_count_atmost_1 count_eq_zero_iff not_in_iff le_Suc_eq)
qed


text \<open>What holds of a new endpoint and is kept by every move holds once the endpoint is started.\<close>

lemma start_client_induct:
  assumes "start_client L h peer listen autonat private n schedule = (r, s)"
    and new: "\<And>w. P (new_endpoint peer autonat private w n schedule)"
    and move: "\<And>t m. P t \<Longrightarrow> P (make_move L h t m)"
    and same: "\<And>t b. P t \<Longrightarrow> P (t\<lparr>p_running := b\<rparr>)" "\<And>t a. P t \<Longrightarrow> P (t\<lparr>p_listen_address := a\<rparr>)"
      "\<And>t ms. P t \<Longrightarrow> P (t\<lparr>p_schedule := ms\<rparr>)"
  shows "P s"
proof -
  obtain r1 w where l: "sw_listen_on L listen (sw_new L (toggles_of autonat private)) = (r1, w)" by (rule prod.exhaust)
  let ?s = "new_endpoint peer autonat private w n schedule"
  have "P t \<Longrightarrow> P (foldl (make_move L h) t ms)" for t ms by (induction ms arbitrary: t) (simp_all add: move)
  then have "P (take_schedule loop_move L h ?s)"
    unfolding take_schedule_def by (cases "p_schedule ?s") (simp_all add: new same)
  then show ?thesis using assms(1) l new same by (auto simp: start_client_def Let_def split: sum.splits list.splits)
qed

lemma started_channels:
  assumes "start_client L h peer listen autonat private n schedule = (r, s)"
  shows "channels_inv s"
proof (rule start_client_induct [OF assms, where P = channels_inv])
  show "channels_inv (new_endpoint peer autonat private w n schedule)" for w
    by (rule reply_once.init_inv) (simp add: fresh_channels_def open_channels_def map_filter_def new_endpoint_def)
qed (auto intro: make_move_channels)

text \<open>Requests that other threads and events leave alone.\<close>

fun unrelated :: "nat \<Rightarrow> swarm_event \<Rightarrow> bool" where
  "unrelated i (RpcResponse j _) \<longleftrightarrow> j \<noteq> i"
| "unrelated i (RpcOutboundFailure j _) \<longleftrightarrow> j \<noteq> i"
| "unrelated i _ \<longleftrightarrow> True"

lemma unrelated_keeps:
  assumes "\<And>p q n. fst (h p q n) \<noteq> None" "unrelated i e" "p_running s"
  shows "p_running (handle_event L h e s) \<and> map_of (p_pending (handle_event L h e s)) i = map_of (p_pending s) i"
proof (cases e)
  case (RpcRequest p q ch)
  then show ?thesis using assms(1) [of p q "p_node s"] assms(3) by (auto split: prod.splits option.splits)
qed (use assms in \<open>auto simp: answer_pending_def answer_provider_query_def answer_providing_query_def send_reply_def
      count_event_def split: option.splits\<close>)

lemma unrelated_moves_keep:
  assumes "\<And>p q n. fst (h p q n) \<noteq> None" "list_all (unrelated i) es" "p_running s"
  shows "p_running (foldl (make_move L h) s (map Occurs es))
    \<and> map_of (p_pending (foldl (make_move L h) s (map Occurs es))) i = map_of (p_pending s) i"
  using assms(2,3)
proof (induction es arbitrary: s)
  case (Cons e es)
  have "p_running (make_move L h s (Occurs e)) \<and> map_of (p_pending (make_move L h s (Occurs e))) i = map_of (p_pending s) i"
    using unrelated_keeps [OF assms(1), of i e s L] Cons.prems by simp
  then show ?case using Cons by simp
qed simp


lemma request_answered:
  assumes "channels_inv s" "p_running s" "p_commands s = []" "\<And>p q n. fst (h p q n) \<noteq> None"
    and sent: "rpc_send_request L peer envelope (p_swarm s) = (i, w)"
    and sched: "p_schedule s = (TakeCommand # map Occurs es @ [Occurs (RpcResponse i response)]) # rest"
    and es: "list_all (unrelated i) es"
  shows "fst (p2p_request L h peer envelope s) = Inr response"
proof -
  let ?ch = "p_channels s" and ?go = "foldl (make_move L h)"
  define s1 where "s1 = snd (begin_call (RequestTo peer envelope) s)"
  define s2 where "s2 = make_move L h (s1\<lparr>p_schedule := rest\<rparr>) TakeCommand"
  define s3 where "s3 = ?go s2 (map Occurs es)"
  have b: "begin_call (RequestTo peer envelope) s = (Inr ?ch, s1)"
    using assms(2) by (simp add: s1_def send_command_def Let_def)
  have "channels_inv s1" unfolding s1_def by (rule begin_call_channels) (rule assms(1))
  then have "channels_inv (s1\<lparr>p_schedule := rest\<rparr>)" by simp
  then have i3: "channels_inv s3" unfolding s3_def s2_def by (intro reply_once.run_inv make_move_channels)
  have "p_running s2" "map_of (p_pending s2) i = Some ?ch"
    using assms(2,3) sent by (simp_all add: s2_def s1_def send_command_def Let_def)
  then have p3: "p_running s3" "map_of (p_pending s3) i = Some ?ch"
    using unrelated_moves_keep [OF assms(4) es, of s2 L] by (simp_all add: s3_def)
  then have "?ch \<in> set (open_channels s3)" by (force simp: open_channels_def dest: map_of_SomeD)
  then have "map_of (p_replies s3) ?ch = None"
    using channels_inv_distinct [OF i3] by (auto simp: map_of_eq_None_iff)
  then have "map_of (p_replies (make_move L h s3 (Occurs (RpcResponse i response)))) ?ch = Some (EnvelopeReply (Inr response))"
    using p3 by (simp add: answer_pending_def send_reply_def map_add_def)
  moreover have "take_schedule (\<lambda>_. True) L h s1 = make_move L h s3 (Occurs (RpcResponse i response))"
    using sched assms(2) by (simp add: take_schedule_def s1_def s2_def s3_def send_command_def Let_def)
  ultimately show ?thesis
    by (simp add: p2p_request_def finish_call_run [OF b] recv_timeout_def Let_def del: make_move.simps)
qed

section \<open>The peer cache\<close>

definition peers_inv :: "('w, 'n) p2p \<Rightarrow> bool" where
  "peers_inv s \<longleftrightarrow> hm_wf (p_peers s) \<and> (\<forall>(peer, addresses) \<in> set (p_peers s). addresses \<noteq> [])"

lemma peers_inv_updates [simp]:
  "peers_inv (s\<lparr>p_running := b\<rparr>) = peers_inv s" "peers_inv (s\<lparr>p_listen_address := a\<rparr>) = peers_inv s"
  "peers_inv (s\<lparr>p_schedule := ms\<rparr>) = peers_inv s"
  by (simp_all add: peers_inv_def)

lemma push_address_inv:
  assumes "hm_wf m" "\<forall>(peer, addresses) \<in> set m. addresses \<noteq> []"
  shows "hm_wf (push_address p a m) \<and> (\<forall>(peer, addresses) \<in> set (push_address p a m). addresses \<noteq> [])"
  using assms set_push_address [of _ _ p a m] by (fastforce simp: push_address_def)

lemma begin_call_peers: "p_peers (snd (begin_call c s)) = p_peers s"
  by (cases c) (auto simp: send_command_def Let_def split: option.splits)

lemma make_move_peers: "peers_inv s \<Longrightarrow> peers_inv (make_move L h s m)"
proof (induction L h s m rule: make_move.induct)
  case (1 L h s)
  have "peers_inv (handle_command L c (s\<lparr>p_commands := rest\<rparr>))" for c rest
    using 1 push_address_inv [of "p_peers s"]
    by (cases c) (auto simp: peers_inv_def send_reply_def split: prod.splits sum.splits)
  then show ?case using 1 by (auto split: list.splits)
next
  case (2 L h s e)
  then show ?case
    by (cases e) (auto simp: peers_inv_def answer_pending_def answer_provider_query_def answer_providing_query_def
      send_reply_def count_event_def split: option.splits prod.splits)
qed (simp add: peers_inv_def begin_call_peers)

definition no_peers :: "('w, 'n) p2p \<Rightarrow> bool" where
  "no_peers s \<longleftrightarrow> p_peers s = []"

interpretation known_peers: state_machine "make_move L h" no_peers peers_inv for L h
  by unfold_locales (simp add: no_peers_def peers_inv_def, rule make_move_peers)

lemma started_peers:
  assumes "start_client L h peer listen autonat private n schedule = (r, s)"
  shows "peers_inv s"
proof (rule start_client_induct [OF assms, where P = peers_inv])
  show "peers_inv (new_endpoint peer autonat private w n schedule)" for w
    by (rule known_peers.init_inv) (simp add: no_peers_def new_endpoint_def)
qed (auto intro: make_move_peers)

lemma push_new: "p \<notin> fst ` set m \<Longrightarrow> push_address p a m = m @ [(p, [a])]"
proof -
  assume p: "p \<notin> fst ` set m"
  then have "map_of m p = None" by (simp add: map_of_eq_None_iff)
  moreover have "p \<notin> fst ` set m \<Longrightarrow> AList.update p v m = m @ [(p, v)]" for v by (induction m) auto
  ultimately show ?thesis using p by (simp add: push_address_def)
qed

lemma push_known: "p \<notin> fst ` set m \<Longrightarrow> push_address p a (m @ [(p, as)]) = m @ [(p, as @ [a])]"
  unfolding push_address_def by (induction m) (auto simp: map_add_def)

abbreviation push_all :: "(peer_id, multiaddr list) hmap \<Rightarrow> (peer_id \<times> multiaddr) list \<Rightarrow> (peer_id, multiaddr list) hmap" where
  "push_all \<equiv> foldl (\<lambda>m (p, a). push_address p a m)"

lemma push_all_known: "p \<notin> fst ` set m \<Longrightarrow> push_all (m @ [(p, as)]) (map (Pair p) bs) = m @ [(p, as @ bs)]"
  by (induction bs arbitrary: as) (simp_all add: push_known)

definition pairs :: "(peer_id, multiaddr list) hmap \<Rightarrow> (peer_id \<times> multiaddr) list" where
  "pairs m = concat (map (\<lambda>(p, as). map (Pair p) as) m)"

lemma push_all_pairs:
  assumes "hm_wf (m0 @ m)" "\<forall>(p, as) \<in> set m. as \<noteq> []"
  shows "push_all m0 (pairs m) = m0 @ m"
  using assms
proof (induction m arbitrary: m0)
  case (Cons pas m)
  obtain p a as where pas: "pas = (p, a # as)" using Cons.prems(2) by (cases pas; cases "snd pas") auto
  have p: "p \<notin> fst ` set m0" using Cons.prems(1) pas by (auto simp: hm_wf_def)
  have "push_all m0 (map (Pair p) (a # as)) = m0 @ [pas]"
    using push_new [OF p] push_all_known [OF p, of "[a]" as] pas by simp
  then show ?case using Cons.IH [of "m0 @ [pas]"] Cons.prems by (simp add: pairs_def pas)
qed (simp add: pairs_def)


lemma visit_seq_all: "length es + length elements \<le> MAX_PEER_CACHE_ENTRIES \<Longrightarrow> visit_seq c es elements None = Inr (es @ elements)"
  by (induction elements arbitrary: es) auto

text \<open>
  An endpoint whose loop takes one command during each of the next \<open>n\<close> waits, among any number
  of events of the swarm.
\<close>

fun occurs :: "move \<Rightarrow> bool" where
  "occurs (Occurs _) = True"
| "occurs _ = False"

definition serving :: "nat \<Rightarrow> ('w, 'n) p2p \<Rightarrow> bool" where
  "serving n s \<longleftrightarrow> p_running s \<and> p_commands s = [] \<and> n \<le> length (p_schedule s)
     \<and> list_all (\<lambda>moves. filter (\<lambda>m. \<not> occurs m) moves = [TakeCommand]) (take n (p_schedule s))"

lemma one_command:
  assumes "filter (\<lambda>m. \<not> occurs m) moves = [TakeCommand]"
  obtains es es' where "moves = map Occurs es @ TakeCommand # map Occurs es'"
proof -
  have all: "\<forall>m \<in> set ms. occurs m \<Longrightarrow> \<exists>es. ms = map Occurs es" for ms
    by (induction ms) (auto elim!: occurs.elims intro: exI [of _ "_ # _"])
  obtain us vs where "moves = us @ TakeCommand # vs" "\<forall>m \<in> set us. occurs m" "filter (\<lambda>m. \<not> occurs m) vs = []"
    using assms by (auto simp: filter_eq_Cons_iff)
  then show ?thesis using all [of us] all [of vs] that by (auto simp: filter_empty_conv)
qed

definition same_endpoint :: "('w, 'n) p2p \<Rightarrow> ('w, 'n) p2p \<Rightarrow> bool" where
  "same_endpoint s t \<longleftrightarrow> p_peers t = p_peers s \<and> p_running t = p_running s \<and> p_commands t = p_commands s
     \<and> p_relay_private t = p_relay_private s \<and> p_privacy_relays t = p_privacy_relays s \<and> p_schedule t = p_schedule s
     \<and> (\<forall>ch r. map_of (p_replies s) ch = Some r \<longrightarrow> map_of (p_replies t) ch = Some r)"

lemma event_same:
  assumes "\<forall>p q n. fst (h p q n) \<noteq> None"
  shows "same_endpoint s (make_move L h s (Occurs e))"
proof (cases e)
  case (RpcRequest peer request channel)
  obtain response n where "h peer request (p_node s) = (Some response, n)"
    using assms by (cases "h peer request (p_node s)") (metis fst_conv option.exhaust)
  then show ?thesis using RpcRequest by (simp add: same_endpoint_def)
qed (auto simp: same_endpoint_def count_event_def answer_pending_def answer_provider_query_def
    answer_providing_query_def send_reply_def map_add_Some_iff split: option.splits)

lemma events_same:
  assumes "\<forall>p q n. fst (h p q n) \<noteq> None"
  shows "same_endpoint s (foldl (make_move L h) s (map Occurs es))"
proof (induction es arbitrary: s)
  case (Cons e es)
  then show ?case using event_same [OF assms, where s = s and L = L and e = e] Cons [of "make_move L h s (Occurs e)"]
    by (simp add: same_endpoint_def del: make_move.simps)
qed (simp add: same_endpoint_def)

text \<open>A wait in which the loop takes the one command of the queue, among other events.\<close>

lemma command_taken:
  assumes h: "\<forall>p q n. fst (h p q n) \<noteq> None" and "filter (\<lambda>m. \<not> occurs m) moves = [TakeCommand]"
    and s: "channels_inv s" "p_running s" "p_commands s = [CmdAddPeer p a ch]"
    and t: "t = foldl (make_move L h) s moves"
  shows "p_peers t = push_address p a (p_peers s) \<and> p_running t \<and> p_commands t = [] \<and> p_relay_private t = p_relay_private s
    \<and> p_privacy_relays t = p_privacy_relays s \<and> p_schedule t = p_schedule s
    \<and> map_of (p_replies t) ch = Some (UnitReply (Inr ()))"
proof -
  obtain es es' where m: "moves = map Occurs es @ TakeCommand # map Occurs es'" using one_command [OF assms(2)] .
  define u where "u = foldl (make_move L h) s (map Occurs es)"
  define v where "v = make_move L h u TakeCommand"
  have u: "same_endpoint s u" "channels_inv u"
    unfolding u_def by (rule events_same [OF h]) (rule reply_once.run_inv [OF s(1)])
  then have "ch \<in> set (open_channels u)" using s(3) by (simp add: same_endpoint_def open_channels_def)
  then have new: "map_of (p_replies u) ch = None"
    using channels_inv_distinct [OF u(2)] by (auto simp: map_of_eq_None_iff)
  have "same_endpoint v t" using events_same [OF h, where s = v and L = L and es = es'] by (simp add: t m u_def v_def del: make_move.simps)
  moreover have "p_peers v = push_address p a (p_peers s) \<and> p_running v \<and> p_commands v = [] \<and> p_relay_private v = p_relay_private s
    \<and> p_privacy_relays v = p_privacy_relays s \<and> p_schedule v = p_schedule s
    \<and> map_of (p_replies v) ch = Some (UnitReply (Inr ()))"
    using u(1) s(2,3) new by (simp add: v_def same_endpoint_def send_reply_def map_add_def)
  ultimately show ?thesis by (simp add: same_endpoint_def)
qed

lemma add_peer_served:
  assumes h: "\<forall>p q n. fst (h p q n) \<noteq> None" and "serving (Suc n) s" "channels_inv s"
    and "p_relay_private s \<longrightarrow> via (p_privacy_relays s) a"
  shows "\<exists>t. add_peer L h p a s = (Inr (), t) \<and> p_peers t = push_address p a (p_peers s) \<and> serving n t
    \<and> channels_inv t \<and> p_relay_private t = p_relay_private s \<and> p_privacy_relays t = p_privacy_relays s"
proof -
  obtain moves rest where sched: "p_schedule s = moves # rest" "filter (\<lambda>m. \<not> occurs m) moves = [TakeCommand]"
    and s: "p_running s" "p_commands s = []" and n: "n \<le> length rest"
      "list_all (\<lambda>moves. filter (\<lambda>m. \<not> occurs m) moves = [TakeCommand]) (take n rest)"
    using assms(2) by (cases "p_schedule s") (auto simp: serving_def)
  let ?ch = "p_channels s"
  define s1 where "s1 = snd (begin_call (AddPeer p a) s)"
  define t where "t = foldl (make_move L h) (s1\<lparr>p_schedule := rest\<rparr>) moves"
  have b: "begin_call (AddPeer p a) s = (Inr ?ch, s1)"
    using s assms(4) by (auto simp: s1_def send_command_def Let_def configured_via)
  then have s1: "s1 = s\<lparr>p_channels := ?ch + 1, p_commands := [CmdAddPeer p a ?ch]\<rparr>"
    using s by (auto simp: send_command_def Let_def split: if_splits)
  have "channels_inv s1" unfolding s1_def by (rule begin_call_channels) (rule assms(3))
  then have inv: "channels_inv (s1\<lparr>p_schedule := rest\<rparr>)" by simp
  note t = command_taken [OF h sched(2) inv _ _ t_def, of p a ?ch]
  have "take_schedule (\<lambda>_. True) L h s1 = t" using sched by (simp add: take_schedule_def t_def s1)
  then have "add_peer L h p a s = (Inr (), t)"
    using t s by (simp add: add_peer_def finish_call_run [OF b] recv_timeout_def Let_def s1)
  then show ?thesis using t s n reply_once.run_inv [OF inv, of L h moves] by (auto simp: serving_def s1 t_def)
qed

lemma add_entries_served:
  assumes h: "\<forall>p q n. fst (h p q n) \<noteq> None"
    and "list_all2 (\<lambda>(p, a) (peer, address). peer_parse T p = Inr peer \<and> addr_parse T a = Inr address) entries pas"
    and "serving (length entries) s" "channels_inv s"
    and "\<forall>(peer, address) \<in> set pas. p_relay_private s \<longrightarrow> via (p_privacy_relays s) address"
  shows "\<exists>t. add_entries T L h n entries s = (Inr (n + length entries), t) \<and> p_peers t = push_all (p_peers s) pas"
  using assms(2-)
proof (induction entries pas arbitrary: n s rule: list_all2_induct)
  case (Cons e entries pa pas)
  obtain p a peer address where e: "e = (p, a)" "pa = (peer, address)" by (metis surj_pair)
  obtain t where t: "add_peer L h peer address s = (Inr (), t)" "p_peers t = push_address peer address (p_peers s)"
    "serving (length entries) t" "channels_inv t" "p_relay_private t = p_relay_private s" "p_privacy_relays t = p_privacy_relays s"
    using add_peer_served [OF h, where n = "length entries" and s = s and a = address and L = L and p = peer] Cons.prems e by auto
  have "\<forall>(peer, address) \<in> set pas. p_relay_private t \<longrightarrow> via (p_privacy_relays t) address"
    using Cons.prems(3) t(5,6) by auto
  then obtain u where "add_entries T L h (n + 1) entries t = (Inr (n + 1 + length entries), u)"
    "p_peers u = push_all (p_peers t) pas" using Cons.IH [OF t(3,4)] by blast
  then show ?case using Cons.hyps(1) e t by (simp add: bind_m_def)
qed simp

lemma cache_read:
  assumes "fs_faults (get (p_node s)) = []" "node_at (get (p_node s)) path = Some (File bytes mode)"
    "length bytes \<le> MAX_PEER_CACHE_BYTES"
  shows "on_node_fs get put (read_peer_cache T path) s = (Inr (Some bytes), s\<lparr>p_node := put (get (p_node s)) (p_node s)\<rparr>)"
proof -
  have "min (Suc MAX_PEER_CACHE_BYTES) (2 ^ 64 - 1) = Suc MAX_PEER_CACHE_BYTES" by (simp add: MAX_PEER_CACHE_BYTES_def)
  then have "read_peer_cache T path (get (p_node s)) = (Inr (Some bytes), get (p_node s))"
    using assms by (simp add: read_peer_cache_def path_exists_def syscall_def ret_io_def read_limited_def bind_io_def read_file_def)
  then show ?thesis by (simp add: on_node_fs_def)
qed

lemma load_served:
  assumes h: "\<forall>p q n. fst (h p q n) \<noteq> None"
    and "\<And>f n. get (put f n) = f" "fs_faults (get (p_node s)) = []" "node_at (get (p_node s)) path = Some (File bytes mode)"
    "length bytes \<le> MAX_PEER_CACHE_BYTES" "parse_peer_cache T bytes = Inr entries"
    "list_all2 (\<lambda>(p, a) (peer, address). peer_parse T p = Inr peer \<and> addr_parse T a = Inr address) entries pas"
    "serving (length entries) s" "channels_inv s"
    "\<forall>(peer, address) \<in> set pas. p_relay_private s \<longrightarrow> via (p_privacy_relays s) address"
  shows "\<exists>t. load_peer_cache get put T L h path s = (Inr (length entries), t) \<and> p_peers t = push_all (p_peers s) pas"
proof -
  let ?f = "get (p_node s)"
  let ?s = "s\<lparr>p_node := put ?f (p_node s)\<rparr>"
  have r: "on_node_fs get put (read_peer_cache T path) s = (Inr (Some bytes), ?s)"
    using cache_read [of get s path bytes mode put T] assms(3-5) by simp
  have "serving (length entries) ?s" "channels_inv ?s"
    using assms(8,9) by (simp_all add: serving_def channels_inv_def channels_def open_channels_def)
  from add_entries_served [OF h assms(7) this, where L = L and n = 0]
  show ?thesis using assms(6,10) r by (simp add: load_peer_cache_def bind_m_def)
qed

lemma saved_bytes:
  assumes "save_peer_cache get put T path s = (Inr (), s')" "\<And>f n. get (put f n) = f"
  obtains bytes where "cache_to_vec_pretty T (cache_entries T (p_peers s)) = Inr bytes"
    "length (cache_entries T (p_peers s)) \<le> MAX_PEER_CACHE_ENTRIES" "length bytes \<le> MAX_PEER_CACHE_BYTES"
    "node_at (get (p_node s')) path = Some (File bytes (Some (6 * 8 * 8)))"
proof -
  obtain f where w: "write_peer_cache T path (cache_entries T (p_peers s)) (get (p_node s)) = (Inr (), f)"
    and s': "get (p_node s') = f"
    using assms by (auto simp: save_peer_cache_def on_node_fs_def split: prod.splits)
  obtain bytes g where b: "cache_to_vec_pretty T (cache_entries T (p_peers s)) = Inr bytes"
    "length (cache_entries T (p_peers s)) \<le> MAX_PEER_CACHE_ENTRIES" "length bytes \<le> MAX_PEER_CACHE_BYTES"
    "atomic_replace path bytes (Some (6 * 8 * 8)) g = (Inr (), f)"
    using w by (auto simp: write_peer_cache_def result_simps split: if_splits)
  show ?thesis by (rule that [OF b(1-3)]) (use atomic_replace_outcome [OF b(4)] s' in simp)
qed

lemma cache_entries_pairs:
  "cache_entries T m = map (\<lambda>(p, a). (peer_to_string T p, addr_to_string T a)) (pairs m)"
  by (induction m) (auto simp: cache_entries_def pairs_def)

lemma pairs_texts:
  assumes "\<forall>(p, as) \<in> set m. peer_parse T (peer_to_string T p) = Inr p \<and> (\<forall>a \<in> set as. addr_parse T (addr_to_string T a) = Inr a)"
  shows "list_all2 (\<lambda>(p, a) (peer, address). peer_parse T p = Inr peer \<and> addr_parse T a = Inr address)
    (cache_entries T m) (pairs m)"
proof -
  have "peer_parse T (peer_to_string T p) = Inr p \<and> addr_parse T (addr_to_string T a) = Inr a" if "(p, a) \<in> set (pairs m)" for p a
    using that assms by (fastforce simp: pairs_def)
  then show ?thesis unfolding cache_entries_pairs by (auto simp: list_all2_map1 intro: list.rel_refl_strong)
qed

section \<open>A concrete endpoint\<close>

text \<open>A swarm that counts its calls, and texts by table.\<close>

definition demo_swarm :: "nat swarm_lib" where
  "demo_swarm =
     \<lparr>sw_new = (\<lambda>_. 0), sw_listen_on = (\<lambda>_ w. (Inr (), Suc w)), sw_dial = (\<lambda>_ w. (Inr (), Suc w)),
      sw_add_peer_address = (\<lambda>_ _ w. Suc w), kad_add_address = (\<lambda>_ _ w. Suc w),
      kad_start_providing = (\<lambda>_ w. (Inr w, Suc w)), kad_get_providers = (\<lambda>_ w. (w, Suc w)),
      rpc_send_request = (\<lambda>_ _ w. (w, Suc w)), rpc_send_response = (\<lambda>_ _ w. Suc w),
      gossip_subscribe = (\<lambda>_ w. (Inr (), Suc w)), gossip_publish = (\<lambda>_ _ w. (Inr (), Suc w))\<rparr>"

definition echo :: "'n rpc_handler" where
  "echo peer request n = (Some request, n)"

definition demo_base :: multiaddr where "demo_base = [Ip4 0x7F000001]"
definition demo_relay :: multiaddr where "demo_relay = [Ip4 0x0A000001, P2pPeer (PeerId [1])]"
definition demo_circuit :: multiaddr where "demo_circuit = demo_relay @ [P2pCircuit, P2pPeer (PeerId [2])]"
definition demo_direct :: multiaddr where "demo_direct = [Ip4 0x0A000002, P2pPeer (PeerId [2])]"

definition demo_endpoint :: "fs \<Rightarrow> move list list \<Rightarrow> (nat, fs) p2p" where
  "demo_endpoint f schedule = (new_endpoint (PeerId [0]) True False 1 f schedule)
     \<lparr>p_listen_addresses := [demo_base], p_listen_address := demo_base\<rparr>"

lemma demo_loopback: "is_loopback demo_base"
  unfolding is_loopback_def demo_base_def by code_simp

lemma demo_started:
  "start_client demo_swarm echo (PeerId [0]) demo_base True False f ([Occurs (NewListenAddr demo_base)] # schedule)
     = (Inr (), demo_endpoint f schedule)"
  by (simp add: start_client_def demo_swarm_def take_schedule_def new_endpoint_def demo_endpoint_def toggles_of_def)

section \<open>Properties\<close>

text \<open>
  C25: Relay-private mode never points the swarm past a configured relay. Whatever calls are made
  on the endpoint from however many threads, and whatever the network does, every address the
  swarm is told to listen on, dial or remember is a circuit through a configured relay or the
  address of such a relay itself; the only exception is the listener it was started with, which
  is a loopback address.
\<close>

theorem relay_private_stays_behind_relays:
  assumes "start_relay_private_bound (recording L) h peer base n schedule = (r, Some s)"
    and "t = foldl (make_move (recording L) h) s moves"
  shows "is_loopback base \<and> list_all (behind_relays base (p_privacy_relays t)) (snd (p_swarm t))
    \<and> (\<forall>(peer, addresses) \<in> set (p_peers t). list_all (via (p_privacy_relays t)) addresses)"
proof -
  have "relay_inv base t" unfolding assms(2) by (rule relay_mode.run_inv) (rule started_private_inv(1) [OF assms(1)])
  then show ?thesis using started_private_inv(2) [OF assms(1)] by (simp add: relay_inv_def)
qed

definition demo_private :: "(nat \<times> swarm_call list, unit) p2p" where
  "demo_private = (new_endpoint (PeerId [0]) False True (1, [SwListen demo_base]) () [])
     \<lparr>p_listen_addresses := [demo_base], p_listen_address := demo_base\<rparr>"

lemma demo_private_started:
  "start_relay_private_bound (recording demo_swarm) echo (PeerId [0]) demo_base () [[Occurs (NewListenAddr demo_base)]]
     = (Inr (), Some demo_private)"
  by (simp add: start_relay_private_bound_def start_client_def recording_def demo_swarm_def take_schedule_def
    new_endpoint_def demo_private_def toggles_of_def demo_loopback)

definition demo_moves :: "move list" where
  "demo_moves = [Begins (DialTo demo_relay), Begins (ConfigurePrivacyRelay demo_relay), Begins (DialTo demo_circuit),
     Begins (AddPeer (PeerId [2]) demo_circuit), Begins (AddPeer (PeerId [2]) demo_direct), TakeCommand, TakeCommand,
     Occurs (IdentifyReceived (PeerId [2]) [demo_direct]), TakeCommand]"

theorem relay_private_stays_behind_relays_witness:
  "let t = foldl (make_move (recording demo_swarm) echo) demo_private demo_moves in
     list_all (behind_relays demo_base (p_privacy_relays t)) (snd (p_swarm t))
     \<and> snd (p_swarm t) = [SwListen demo_base, SwDial demo_relay, SwDial demo_circuit,
         SwAddress (PeerId [2]) demo_circuit, KadAddress (PeerId [2]) demo_circuit]"
proof -
  have "snd (p_swarm (foldl (make_move (recording demo_swarm) echo) demo_private demo_moves)) =
      [SwListen demo_base, SwDial demo_relay, SwDial demo_circuit,
         SwAddress (PeerId [2]) demo_circuit, KadAddress (PeerId [2]) demo_circuit]"
    by (simp add: demo_moves_def demo_private_def new_endpoint_def send_command_def Let_def dial_allowed_def
      uses_configured_circuit_def circuit_relay_def has_circuit_def terminal_peer_def demo_relay_def demo_circuit_def
      demo_direct_def recording_def demo_swarm_def send_reply_def toggles_of_def)
  then show ?thesis
    unfolding Let_def using relay_private_stays_behind_relays [OF demo_private_started refl, of demo_moves] by blast
qed


text \<open>
  C26: A caller is answered at most once. In every state that a started endpoint reaches, no channel
  has had two replies, and a channel that has had its reply is no longer held by the queue or by
  a table of outstanding requests, so that no later event can write to it.
\<close>

theorem channel_answered_once:
  assumes "start_client L h peer listen autonat private n schedule = (r, s)"
    and "t = foldl (make_move L h) s moves"
  shows "distinct (map fst (p_replies t)) \<and> set (map fst (p_replies t)) \<inter> set (open_channels t) = {}"
proof -
  have "channels_inv t" unfolding assms(2) by (rule reply_once.run_inv) (rule started_channels [OF assms(1)])
  then show ?thesis using channels_inv_distinct by fastforce
qed

definition demo_answers :: "move list" where
  "demo_answers = [Begins (FindProviders [7]), Begins (RequestTo (PeerId [2]) example_envelope), TakeCommand, TakeCommand,
     Occurs (FoundProviders 1 []), Occurs (FoundProviders 1 [PeerId [3]]), Occurs (FoundProviders 1 [PeerId [4]]),
     Occurs (FinishedWithNoAdditionalRecord 1), Occurs (RpcOutboundFailure 2 ''timeout''), Occurs (RpcResponse 2 example_envelope)]"

theorem channel_answered_once_witness:
  "let t = foldl (make_move demo_swarm echo) (demo_endpoint empty_fs []) demo_answers in
     distinct (map fst (p_replies t))
     \<and> p_replies t = [(0, ProvidersReply (Inr [PeerId [3]])), (1, EnvelopeReply (Inl ''timeout''))]"
proof -
  have "p_replies (foldl (make_move demo_swarm echo) (demo_endpoint empty_fs []) demo_answers)
      = [(0, ProvidersReply (Inr [PeerId [3]])), (1, EnvelopeReply (Inl ''timeout''))]"
    by (simp add: demo_answers_def demo_endpoint_def new_endpoint_def send_command_def Let_def demo_swarm_def
      answer_provider_query_def answer_pending_def send_reply_def)
  then show ?thesis unfolding Let_def using channel_answered_once [OF demo_started refl, of empty_fs "[]" demo_answers] by blast
qed

text \<open>
  A request gets the response to it. If the loop takes the command and a response with the
  number the swarm gave the request arrives during the wait, the caller receives that response,
  whatever other events come in between, as long as none of them concerns the same request.
\<close>

theorem request_gets_its_response:
  assumes "start_client L h self listen autonat private n schedule = (r, s0)" "s = foldl (make_move L h) s0 moves"
    and "p_running s" "p_commands s = []" "\<forall>p q n. fst (h p q n) \<noteq> None"
    and "rpc_send_request L peer envelope (p_swarm s) = (i, w)"
    and "p_schedule s = (TakeCommand # map Occurs es @ [Occurs (RpcResponse i response)]) # rest"
    and "list_all (unrelated i) es"
  shows "fst (p2p_request L h peer envelope s) = Inr response"
proof (rule request_answered [OF _ assms(3,4) _ assms(6-8)])
  show "channels_inv s" unfolding assms(2) by (rule reply_once.run_inv) (rule started_channels [OF assms(1)])
qed (use assms(5) in blast)

theorem request_gets_its_response_witness:
  "fst (p2p_request demo_swarm echo (PeerId [2]) example_envelope
     (demo_endpoint empty_fs [TakeCommand # map Occurs [RpcRequest (PeerId [2]) example_envelope 5, RpcResponse 0 example_envelope]
        @ [Occurs (RpcResponse 1 example_envelope)]])) = Inr example_envelope"
  by (rule request_gets_its_response [OF demo_started, where moves = "[]" and i = 1 and w = 2 and rest = "[]"
        and es = "[RpcRequest (PeerId [2]) example_envelope 5, RpcResponse 0 example_envelope]"])
     (simp_all add: demo_endpoint_def new_endpoint_def demo_swarm_def echo_def)


text \<open>
  C27: The peer cache gives back the peers it was saved from. After a save that succeeded, an
  endpoint that has no peers yet loads the same file, whatever network events its loop handles
  meanwhile, provided the loop takes each \<open>add_peer\<close> command within its wait and, in
  relay-private mode, every saved address is a circuit through a relay it has configured. It
  loads as many entries as there are addresses and then knows the same peers with the same
  addresses in the same order.
\<close>

theorem peer_cache_round_trip:
  assumes "\<forall>f n. get (put f n) = f" "\<forall>p q n. fst (h p q n) \<noteq> None"
    and "start_client L h self listen autonat private n schedule = (r, s0)" "s = foldl (make_move L h) s0 moves"
    and "save_peer_cache get put T path s = (Inr (), s')"
    and "\<forall>(p, as) \<in> set (p_peers s). peer_parse T (peer_to_string T p) = Inr p
      \<and> (\<forall>a \<in> set as. addr_parse T (addr_to_string T a) = Inr a)"
    and "\<forall>bytes. cache_to_vec_pretty T (cache_entries T (p_peers s)) = Inr bytes \<longrightarrow>
      cache_elements T bytes = Inr (cache_entries T (p_peers s), None) \<and> cache_end T bytes = Inr ()"
    and "start_client L h self' listen' autonat' private' n' schedule' = (r', t0)" "t = foldl (make_move L h) t0 moves'"
    and "serving (length (cache_entries T (p_peers s))) t" "p_peers t = []" "fs_faults (get (p_node t)) = []"
    and "p_relay_private t \<longrightarrow> (\<forall>(p, as) \<in> set (p_peers s). list_all (uses_configured_circuit t) as)"
    and "node_at (get (p_node t)) path = node_at (get (p_node s')) path"
  shows "\<exists>t'. load_peer_cache get put T L h path t = (Inr (length (cache_entries T (p_peers s))), t') \<and> p_peers t' = p_peers s"
proof -
  have lens: "get (put f n) = f" for f n using assms(1) by blast
  obtain bytes where b: "cache_to_vec_pretty T (cache_entries T (p_peers s)) = Inr bytes"
    "length (cache_entries T (p_peers s)) \<le> MAX_PEER_CACHE_ENTRIES" "length bytes \<le> MAX_PEER_CACHE_BYTES"
    "node_at (get (p_node s')) path = Some (File bytes (Some (6 * 8 * 8)))" using saved_bytes [OF assms(5) lens] .
  have p: "parse_peer_cache T bytes = Inr (cache_entries T (p_peers s))"
    using assms(7) b(1,2) by (simp add: parse_peer_cache_def visit_seq_all)
  have "peers_inv s" unfolding assms(4) by (rule known_peers.run_inv) (rule started_peers [OF assms(3)])
  then have "push_all [] (pairs (p_peers s)) = p_peers s" using push_all_pairs [of "[]" "p_peers s"] by (simp add: peers_inv_def)
  moreover have "channels_inv t" unfolding assms(9) by (rule reply_once.run_inv) (rule started_channels [OF assms(8)])
  moreover have "\<forall>(peer, address) \<in> set (pairs (p_peers s)). p_relay_private t \<longrightarrow> via (p_privacy_relays t) address"
    using assms(13) by (fastforce simp: pairs_def list_all_iff configured_via)
  ultimately show ?thesis
    using load_served [OF assms(2) lens assms(12) assms(14) [unfolded b(4)] b(3) p pairs_texts [OF assms(6)] assms(10), where L = L] assms(11)
    by simp
qed

definition demo_text :: p2p_text where
  "demo_text =
     \<lparr>peer_to_string = (\<lambda>_. ''peer''), peer_parse = (\<lambda>_. Inr (PeerId [2])),
      addr_to_string = (\<lambda>a. if a = demo_direct then ''direct'' else ''circuit''),
      addr_parse = (\<lambda>t. Inr (if t = ''direct'' then demo_direct else demo_circuit)),
      cache_elements = (\<lambda>_. Inr ([(''peer'', ''direct''), (''peer'', ''circuit'')], None)), cache_end = (\<lambda>_. Inr ()),
      cache_to_vec_pretty = (\<lambda>_. Inr [1]), custom_error = (\<lambda>_ e. e), io_error_text = (\<lambda>_. ''io'')\<rparr>"

lemma demo_text_simps:
  "peer_parse demo_text p = Inr (PeerId [2])" "cache_elements demo_text b = Inr ([(''peer'', ''direct''), (''peer'', ''circuit'')], None)"
  "addr_parse demo_text (addr_to_string demo_text demo_direct) = Inr demo_direct"
  "addr_parse demo_text (addr_to_string demo_text demo_circuit) = Inr demo_circuit"
  "cache_end demo_text b = Inr ()" "cache_to_vec_pretty demo_text es = Inr [1]"
  by (simp_all add: demo_text_def demo_circuit_def demo_relay_def demo_direct_def)

text \<open>Two peers with three addresses; the names of the peers are their bytes, addresses and files go by table.\<close>

definition demo_other :: multiaddr where "demo_other = [Ip4 0x0A000003, P2pPeer (PeerId [3])]"

definition demo_addresses :: "(string \<times> multiaddr) list" where
  "demo_addresses = [(''direct'', demo_direct), (''circuit'', demo_circuit), (''other'', demo_other)]"

definition demo_cache :: "(string \<times> string) list" where
  "demo_cache = [([CHR 0x02], ''direct''), ([CHR 0x02], ''circuit''), ([CHR 0x03], ''other'')]"

definition cache_text :: p2p_text where
  "cache_text =
     \<lparr>peer_to_string = (\<lambda>p. case p of PeerId bytes \<Rightarrow> map (\<lambda>b. char_of (unat b)) bytes),
      peer_parse = (\<lambda>text. Inr (PeerId (map of_char text))),
      addr_to_string = (\<lambda>a. case find (\<lambda>(_, b). b = a) demo_addresses of None \<Rightarrow> ''?'' | Some (text, _) \<Rightarrow> text),
      addr_parse = (\<lambda>text. ok_or ''address'' (map_of demo_addresses text)),
      cache_elements = (\<lambda>bytes. map_err (\<lambda>_. ''json'') (bind_r (from_slice (table_serde [[], demo_cache]) bytes) (\<lambda>es. Inr (es, None)))),
      cache_end = (\<lambda>bytes. if length bytes = 4 then Inr () else Inl ''trailing''),
      cache_to_vec_pretty = (\<lambda>es. map_err (\<lambda>_. ''json'') (to_vec (table_serde [[], demo_cache]) es)),
      custom_error = (\<lambda>_ e. e), io_error_text = (\<lambda>_. ''io'')\<rparr>"

definition demo_peers :: "(nat, fs) p2p" where
  "demo_peers = foldl (make_move demo_swarm echo) (demo_endpoint empty_fs [])
     [Begins (AddPeer (PeerId [2]) demo_direct), Begins (AddPeer (PeerId [3]) demo_other), TakeCommand, TakeCommand,
      Begins (AddPeer (PeerId [2]) demo_circuit), TakeCommand]"

lemma demo_peers_known:
  "p_peers demo_peers = [(PeerId [2], [demo_direct, demo_circuit]), (PeerId [3], [demo_other])]" "p_node demo_peers = empty_fs"
  by (simp_all add: demo_peers_def demo_endpoint_def new_endpoint_def send_command_def Let_def send_reply_def push_address_def)

lemma cache_text_simps:
  "peer_parse cache_text [CHR 0x02] = Inr (PeerId [2])" "peer_parse cache_text [CHR 0x03] = Inr (PeerId [3])"
  "peer_to_string cache_text (PeerId [2]) = [CHR 0x02]" "peer_to_string cache_text (PeerId [3]) = [CHR 0x03]"
  "addr_to_string cache_text demo_direct = ''direct''" "addr_to_string cache_text demo_circuit = ''circuit''"
  "addr_to_string cache_text demo_other = ''other''"
  "addr_parse cache_text ''direct'' = Inr demo_direct" "addr_parse cache_text ''circuit'' = Inr demo_circuit"
  "addr_parse cache_text ''other'' = Inr demo_other"
  "cache_to_vec_pretty cache_text demo_cache = Inr [0, 0, 0, 1]"
  "cache_elements cache_text [0, 0, 0, 1] = Inr (demo_cache, None)" "cache_end cache_text [0, 0, 0, 1] = Inr ()"
  by code_simp+

lemma demo_entries: "cache_entries cache_text (p_peers demo_peers) = demo_cache"
  by (simp add: demo_peers_known cache_entries_def cache_text_simps demo_cache_def)

lemma demo_replaced:
  "fst (atomic_replace [''c''] [0, 0, 0, 1] (Some (6 * 8 * 8)) empty_fs) = Inr ()
   \<and> fs_faults (snd (atomic_replace [''c''] [0, 0, 0, 1] (Some (6 * 8 * 8)) empty_fs)) = []"
  by code_simp

lemma demo_saved:
  "\<exists>f. save_peer_cache id (\<lambda>f _. f) cache_text [''c''] demo_peers = (Inr (), demo_peers\<lparr>p_node := f\<rparr>) \<and> fs_faults f = []"
proof -
  obtain r f where a: "atomic_replace [''c''] [0, 0, 0, 1] (Some (6 * 8 * 8)) empty_fs = (r, f)" by (rule prod.exhaust)
  then have f: "r = Inr ()" "fs_faults f = []" using demo_replaced by simp_all
  have "create_dir_all [] empty_fs = (Inr (), empty_fs)"
    by (simp add: create_dir_all_def syscall_def empty_fs_def ret_io_def)
  moreover have "length demo_cache = 3" by (simp add: demo_cache_def)
  ultimately have "write_peer_cache cache_text [''c''] (cache_entries cache_text (p_peers demo_peers)) empty_fs = (Inr (), f)"
    using a f(1) by (simp add: write_peer_cache_def path_parent_def bind_m_def from_m_def demo_entries cache_text_simps
      MAX_PEER_CACHE_ENTRIES_def MAX_PEER_CACHE_BYTES_def)
  then show ?thesis using f(2) by (intro exI [of _ f]) (simp add: save_peer_cache_def on_node_fs_def demo_peers_known(2))
qed

definition demo_waits :: "move list list" where
  "demo_waits = [[Occurs ConnectionEstablished, TakeCommand], [TakeCommand, Occurs (RpcRequest (PeerId [3]) example_envelope 5)], [TakeCommand]]"

theorem peer_cache_round_trip_witness:
  "\<exists>s' t'. save_peer_cache id (\<lambda>f _. f) cache_text [''c''] demo_peers = (Inr (), s')
     \<and> load_peer_cache id (\<lambda>f _. f) cache_text demo_swarm echo [''c''] (demo_endpoint (p_node s') demo_waits) = (Inr 3, t')
     \<and> p_peers t' = [(PeerId [2], [demo_direct, demo_circuit]), (PeerId [3], [demo_other])]"
proof -
  obtain f where f: "save_peer_cache id (\<lambda>f _. f) cache_text [''c''] demo_peers = (Inr (), demo_peers\<lparr>p_node := f\<rparr>)"
    "fs_faults f = []" using demo_saved by blast
  let ?t = "demo_endpoint f demo_waits"
  have n: "length demo_cache = 3" by (simp add: demo_cache_def)
  have "\<exists>t'. load_peer_cache id (\<lambda>f _. f) cache_text demo_swarm echo [''c''] ?t
      = (Inr (length (cache_entries cache_text (p_peers demo_peers))), t') \<and> p_peers t' = p_peers demo_peers"
  proof (rule peer_cache_round_trip [OF _ _ demo_started demo_peers_def f(1) _ _ demo_started, where moves' = "[]"])
    show "serving (length (cache_entries cache_text (p_peers demo_peers))) ?t"
      by (simp add: demo_entries n serving_def demo_endpoint_def new_endpoint_def demo_waits_def numeral_3_eq_3)
  qed (simp_all add: demo_entries cache_text_simps echo_def,
       simp_all add: demo_peers_known cache_text_simps f(2) demo_endpoint_def new_endpoint_def)
  then show ?thesis using f(1) unfolding demo_entries n by (auto simp: demo_peers_known(1))
qed

end
