(* ===== verification/Node_P2p.thy ===== *)
theory Node_P2p
  imports Node_Props P2p_Props
begin

text \<open>
  The parts of \<open>crates/peerless-node/src/lib.rs\<close> that open endpoints: \<open>serve_p2p\<close> and its variants, the
  peer cache, the bootstrap addresses of an invitation, and the facade \<open>Peerless\<close> with the audit
  proofs of \<open>LedgerApi\<close>. The endpoint's handler is the node itself, so the node is the state the
  endpoint shares with it.
\<close>

section \<open>Listening\<close>

definition has_membership :: "('h, 's, 'd, 'o) node_env \<Rightarrow> inner \<Rightarrow> bool \<times> inner" where
  "has_membership E n = (has_membership_at n (ne_clock E (in_ticks n)), n\<lparr>in_ticks := in_ticks n + 1\<rparr>)"

definition node_peer :: "('h, 's, 'd, 'o) node_env \<Rightarrow> inner \<Rightarrow> peer_id" where
  "node_peer E n = to_peer_id E (public_of (ne_lib E) (ni_keypair (in_identity n)))"

abbreviation put_fs :: "fs \<Rightarrow> inner \<Rightarrow> inner" where
  "put_fs f n \<equiv> n\<lparr>in_fs := f\<rparr>"

text \<open>
  \<open>network.load_peer_cache(..)?; Ok(network)\<close>. An endpoint that is not returned is dropped, and the node
  goes on with the state its handler left.
\<close>

definition load_known_peers ::
  "('h, 's, 'd, 'o) node_env \<Rightarrow> p2p_text \<Rightarrow> 'w swarm_lib \<Rightarrow> ('w, inner) p2p \<Rightarrow> (node_error + ('w, inner) p2p) \<times> inner" where
  "load_known_peers E T L network =
     (case load_peer_cache in_fs put_fs T L (handle_p2p_or_reject E) (in_peer_cache (p_node network)) network of
        (Inl e, network) \<Rightarrow> (Inl (NdP2p e), p_node network)
      | (Inr _, network) \<Rightarrow> (Inr network, p_node network))"

definition serve_p2p_unrestricted ::
  "('h, 's, 'd, 'o) node_env \<Rightarrow> p2p_text \<Rightarrow> 'w swarm_lib \<Rightarrow> multiaddr \<Rightarrow> move list list \<Rightarrow> inner \<Rightarrow>
     (node_error + ('w, inner) p2p) \<times> inner" where
  "serve_p2p_unrestricted E T L listen schedule n =
     (case start_bound L (handle_p2p_or_reject E) (node_peer E n) listen n schedule of
        (Inl e, network) \<Rightarrow> (Inl (NdP2p e), p_node network)
      | (Inr _, network) \<Rightarrow> load_known_peers E T L network)"

definition serve_p2p ::
  "('h, 's, 'd, 'o) node_env \<Rightarrow> p2p_text \<Rightarrow> 'w swarm_lib \<Rightarrow> multiaddr \<Rightarrow> move list list \<Rightarrow> inner \<Rightarrow>
     (node_error + ('w, inner) p2p) \<times> inner" where
  "serve_p2p E T L listen schedule n =
     (case has_membership E n of (member, n) \<Rightarrow>
        if \<not> member then (Inl NdMembershipRequired, n) else serve_p2p_unrestricted E T L listen schedule n)"

definition serve_p2p_relay_private ::
  "('h, 's, 'd, 'o) node_env \<Rightarrow> p2p_text \<Rightarrow> 'w swarm_lib \<Rightarrow> multiaddr \<Rightarrow> move list list \<Rightarrow> inner \<Rightarrow>
     (node_error + ('w, inner) p2p) \<times> inner" where
  "serve_p2p_relay_private E T L listen schedule n =
     (case has_membership E n of (member, n) \<Rightarrow>
        if \<not> member then (Inl NdMembershipRequired, n)
        else case start_relay_private_bound L (handle_p2p_or_reject E) (node_peer E n) listen n schedule of
          (Inl e, network) \<Rightarrow> (Inl (NdP2p e), (case network of None \<Rightarrow> n | Some network \<Rightarrow> p_node network))
        | (Inr _, None) \<Rightarrow> (Inl (NdP2p ''''), n)
        | (Inr _, Some network) \<Rightarrow> load_known_peers E T L network)"

definition node_save_peer_cache :: "p2p_text \<Rightarrow> (('w, inner) p2p, node_error, unit) action" where
  "node_save_peer_cache T network =
     from_m NdP2p (save_peer_cache in_fs put_fs T (in_peer_cache (p_node network))) network"

text \<open>\<open>address.pop()\<close> takes the last protocol off the address.\<close>

fun apply_bootstrap ::
  "p2p_text \<Rightarrow> 'w swarm_lib \<Rightarrow> inner rpc_handler \<Rightarrow> nat \<Rightarrow> string list \<Rightarrow> (('w, inner) p2p, node_error, nat) action" where
  "apply_bootstrap T L h added [] = pure_m (Inr added)"
| "apply_bootstrap T L h added (v # bootstrap) =
     bind_m (pure_m (map_err NdP2p (addr_parse T v))) (\<lambda>address.
     case terminal_peer address of
       None \<Rightarrow> pure_m (Inl (NdP2p ''invitation bootstrap must end in /p2p/PEER_ID''))
     | Some peer \<Rightarrow>
         bind_m (from_m NdP2p (add_peer L h peer (butlast address))) (\<lambda>_.
         apply_bootstrap T L h (added + 1) bootstrap))"

definition apply_invitation_bootstrap ::
  "('h, 's, 'd, 'o) node_env \<Rightarrow> p2p_text \<Rightarrow> 'w swarm_lib \<Rightarrow> invitation \<Rightarrow> (('w, inner) p2p, node_error, nat) action" where
  "apply_invitation_bootstrap E T L i = apply_bootstrap T L (handle_p2p_or_reject E) 0 (iv_bootstrap i)"

section \<open>The facade\<close>

record peerless_builder =
  pb_storage :: path
  pb_listen :: multiaddr

record peerless =
  pl_node :: inner
  pl_listen :: multiaddr

definition peerless_default :: peerless_builder where
  "peerless_default = \<lparr>pb_storage = [''peerless-data''], pb_listen = [Ip4 0, OtherPart ''udp/0'', OtherPart ''quic-v1'']\<rparr>"

definition peerless_build ::
  "('h, 's, 'd, 'o) node_env \<Rightarrow> peerless_builder \<Rightarrow> nat \<Rightarrow> fs \<times> metadata \<Rightarrow> node_error + peerless" where
  "peerless_build E b ticks world =
     bind_r (node_open E (pb_storage b) ticks world) (\<lambda>n. Inr \<lparr>pl_node = n, pl_listen = pb_listen b\<rparr>)"

definition peerless_start ::
  "('h, 's, 'd, 'o) node_env \<Rightarrow> p2p_text \<Rightarrow> 'w swarm_lib \<Rightarrow> move list list \<Rightarrow> peerless \<Rightarrow> (node_error + ('w, inner) p2p) \<times> inner" where
  "peerless_start E T L schedule p =
     (case has_membership E (pl_node p) of (member, n) \<Rightarrow>
        if \<not> member then (Inl NdMembershipRequired, n) else serve_p2p E T L (pl_listen p) schedule n)"

record audit_proof =
  ap_block_height :: u64
  ap_event :: signed_event
  ap_root :: hash
  ap_proof :: merkle_proof_t

definition completes :: "string \<Rightarrow> signed_event \<Rightarrow> bool" where
  "completes tid e = (case ev_event e of TaskCompleted r \<Rightarrow> er_task_id r = tid | _ \<Rightarrow> False)"

fun completed_event :: "string \<Rightarrow> nat \<Rightarrow> signed_event list \<Rightarrow> (nat \<times> signed_event) option" where
  "completed_event tid index [] = None"
| "completed_event tid index (e # events) =
     (if completes tid e then Some (index, e) else completed_event tid (index + 1) events)"

fun proof_in :: "'z ledger_lib_scheme \<Rightarrow> string \<Rightarrow> block list \<Rightarrow> audit_proof option" where
  "proof_in L tid [] = None"
| "proof_in L tid (b # blocks) =
     (case completed_event tid 0 (bk_events b) of
        None \<Rightarrow> proof_in L tid blocks
      | Some (index, e) \<Rightarrow>
          map_option (\<lambda>p. \<lparr>ap_block_height = bk_height b, ap_event = e, ap_root = bk_events_root b, ap_proof = p\<rparr>)
            (block_proof L b index))"

definition ledger_proof :: "'z ledger_lib_scheme \<Rightarrow> ledger \<Rightarrow> string \<Rightarrow> audit_proof option" where
  "ledger_proof L lg tid = proof_in L tid (lg_blocks lg)"

section \<open>Audit proofs\<close>

lemma completed_event_None: "completed_event tid i es = None \<longleftrightarrow> list_all (\<lambda>e. \<not> completes tid e) es"
  by (induction es arbitrary: i) auto

lemma completed_event_Some:
  "completed_event tid i es = Some (j, e) \<Longrightarrow> i \<le> j \<and> j - i < length es \<and> es ! (j - i) = e \<and> completes tid e"
proof (induction es arbitrary: i)
  case (Cons a es)
  show ?case
  proof (cases "completes tid a")
    case False
    then have "Suc i \<le> j \<and> j - Suc i < length es \<and> es ! (j - Suc i) = e \<and> completes tid e" using Cons by simp
    moreover from this have "j - i = Suc (j - Suc i)" by (simp add: Suc_diff_Suc Suc_le_eq)
    ultimately show ?thesis by simp
  qed (use Cons in simp)
qed simp

text \<open>What \<open>LedgerApi::proof\<close> promises of a list of blocks.\<close>

definition proof_correct :: "'z ledger_lib_scheme \<Rightarrow> string \<Rightarrow> block list \<Rightarrow> audit_proof option \<Rightarrow> bool" where
  "proof_correct L tid blocks r \<longleftrightarrow>
     (case r of
        None \<Rightarrow> \<forall>b \<in> set blocks. list_all (\<lambda>e. \<not> completes tid e) (bk_events b)
      | Some a \<Rightarrow> completes tid (ap_event a) \<and> (\<exists>b \<in> set blocks. ap_event a \<in> set (bk_events b) \<and> ap_block_height a = bk_height b
          \<and> ap_root a = bk_events_root b
          \<and> (\<exists>h. event_hash L (ap_event a) = Inr h \<and> merkle_verify L (ap_proof a) h (bk_events_root b))))"

lemma proof_in_correct:
  assumes "\<forall>b \<in> set blocks. sound_events L b"
  shows "proof_correct L tid blocks (proof_in L tid blocks)"
  using assms
proof (induction blocks)
  case (Cons b blocks)
  show ?case
  proof (cases "completed_event tid 0 (bk_events b)")
    case None
    then have "list_all (\<lambda>e. \<not> completes tid e) (bk_events b)" by (simp only: completed_event_None)
    then show ?thesis using Cons None by (simp add: proof_correct_def split: option.splits)
  next
    case (Some ie)
    then obtain i e where f: "completed_event tid 0 (bk_events b) = Some (i, e)" by (cases ie) simp
    have i: "i < length (bk_events b)" "bk_events b ! i = e" "completes tid e" using completed_event_Some [OF f] by simp_all
    obtain hs where hs: "events_hashes L (bk_events b) = Inr hs" "bk_events_root b = merkle_root L hs"
      using Cons.prems by (auto simp: sound_events_def)
    then have all2: "list_all2 (\<lambda>e h. event_hash L e = Inr h) (bk_events b) hs" by (simp add: events_hashes_def map_r_Inr_iff)
    then have len: "length hs = length (bk_events b)" by (simp add: list_all2_lengthD)
    obtain p where p: "merkle_proof L hs i = Some p" "merkle_verify L p (hs ! i) (merkle_root L hs)"
      using merkle_proof_complete [where L = L and leaves = hs and i = i] i(1) len by (auto split: option.splits)
    have "event_hash L e = Inr (hs ! i)" using list_all2_nthD [OF all2 i(1)] i(2) by simp
    then show ?thesis using f p hs i by (auto simp: proof_correct_def block_proof_def)
  qed
qed (simp add: proof_correct_def)

text \<open>Any blocks offered to a ledger under any consensus engines.\<close>

definition offer :: "'z ledger_lib_scheme \<Rightarrow> ledger \<times> fs \<Rightarrow> (block \<Rightarrow> ledger_error + bool) \<times> block \<Rightarrow> ledger \<times> fs" where
  "offer L st vb = snd (ledger_append L (fst vb) (snd vb) st)"

interpretation offers: state_machine "offer L" "\<lambda>st. \<exists>base s. ledger_open L base s = map_prod Inr id st"
    "\<lambda>st. \<forall>b \<in> set (lg_blocks (fst st)). sound_events L b" for L
proof unfold_locales
  fix st assume "\<exists>base s. ledger_open L base s = map_prod Inr id st"
  then obtain base s where "ledger_open L base s = (Inr (fst st), snd st)" by (cases st) auto
  from ledger_open_stored [OF this] have "chain_ok L (lg_blocks (fst st))" by (simp add: stored_def)
  then show "\<forall>b \<in> set (lg_blocks (fst st)). sound_events L b" using chain_ok_nth(3) by (auto simp: in_set_conv_nth)
next
  fix st :: "ledger \<times> fs" and vb :: "(block \<Rightarrow> ledger_error + bool) \<times> block"
  assume inv: "\<forall>b \<in> set (lg_blocks (fst st)). sound_events L b"
  obtain lg s where st: "st = (lg, s)" by (cases st)
  obtain verifies b where vb: "vb = (verifies, b)" by (cases vb)
  obtain r s' where a: "append_block L verifies lg b s = (r, s')" by (rule prod.exhaust)
  show "\<forall>b \<in> set (lg_blocks (fst (offer L st vb))). sound_events L b"
  proof (cases r)
    case (Inr h)
    then have "append_check L verifies (lg_blocks lg) b = Inr ()" using a by (auto simp: append_block_def result_simps)
    then have "sound_events L b" by (auto simp: append_check_def sound_events_def bind_r_Inr_iff Let_def split: if_splits)
    then show ?thesis using inv a Inr by (simp add: offer_def ledger_append_def st vb)
  qed (use inv a in \<open>simp add: offer_def ledger_append_def st vb\<close>)
qed


section \<open>Relay-private mode and the peer cache\<close>

lemma handle_command_relays:
  "p_privacy_relays (handle_command L c s) = p_privacy_relays s" "p_relay_private (handle_command L c s) = p_relay_private s"
  by (cases c; auto simp: send_reply_def split: prod.splits sum.splits)+

lemma loop_move_relays:
  "loop_move m \<Longrightarrow> p_privacy_relays (make_move L h s m) = p_privacy_relays s
    \<and> p_relay_private (make_move L h s m) = p_relay_private s"
proof (cases m)
  case TakeCommand
  then show ?thesis by (auto simp: handle_command_relays split: list.splits)
next
  case (Occurs e)
  then show ?thesis
    by (cases e) (auto simp: answer_pending_def answer_provider_query_def answer_providing_query_def send_reply_def
      count_event_def split: prod.splits option.splits)
qed simp

lemma started_without_relays:
  assumes "start_relay_private_bound L h peer listen n schedule = (Inr (), Some s)"
  shows "p_privacy_relays s = {}" "p_relay_private s"
proof -
  obtain r1 w where l: "sw_listen_on L listen (sw_new L (toggles_of False True)) = (r1, w)" by (rule prod.exhaust)
  let ?s = "new_endpoint peer False True w n schedule"
  have keep: "p_privacy_relays (foldl (make_move L h) t (filter loop_move ms)) = p_privacy_relays t
      \<and> p_relay_private (foldl (make_move L h) t (filter loop_move ms)) = p_relay_private t" for t ms
    by (induction ms arbitrary: t) (simp_all add: loop_move_relays)
  have "p_privacy_relays (take_schedule loop_move L h ?s) = {} \<and> p_relay_private (take_schedule loop_move L h ?s)"
    unfolding take_schedule_def by (cases "p_schedule ?s") (simp_all add: keep, simp_all add: new_endpoint_def)
  then show "p_privacy_relays s = {}" "p_relay_private s" using assms l
    by (auto simp: start_relay_private_bound_def start_client_def Let_def split: if_splits sum.splits list.splits)
qed

lemma private_load_refused:
  assumes "p_privacy_relays s = {}" "p_relay_private s" "\<And>f n. get (put f n) = f" "fs_faults (get (p_node s)) = []"
    "node_at (get (p_node s)) path = Some (File bytes mode)" "length bytes \<le> MAX_PEER_CACHE_BYTES"
    "parse_peer_cache T bytes = Inr ((p, a) # entries)" "peer_parse T p = Inr peer" "addr_parse T a = Inr address"
  shows "fst (load_peer_cache get put T L h path s)
    = Inl ''relay-private mode accepts peer addresses only through configured relays''"
proof -
  have r: "on_node_fs get put (read_peer_cache T path) s = (Inr (Some bytes), s\<lparr>p_node := put (get (p_node s)) (p_node s)\<rparr>)"
    using cache_read [of get s path bytes mode put T] assms(4-6) by simp
  have "\<not> uses_configured_circuit (s\<lparr>p_node := put (get (p_node s)) (p_node s)\<rparr>) address"
    using assms(1) by (simp add: configured_via via_def)
  then show ?thesis using assms(2,7-9) r by (simp add: load_peer_cache_def bind_m_def add_peer_def finish_call_def)
qed

section \<open>Properties\<close>

text \<open>
  C40: A relay-private node cannot start once its peer cache holds an entry. At the start no relay is
  configured, so the first cached address is refused, a circuit through the node's relay as much
  as a direct address, and the error of the cache is the error of the start.
\<close>

theorem peer_cache_prevents_relay_private_start:
  assumes "has_membership_at n (ne_clock E (in_ticks n))"
    and "start_relay_private_bound L (handle_p2p_or_reject E) (node_peer E n) listen (n\<lparr>in_ticks := in_ticks n + 1\<rparr>) schedule
      = (Inr (), Some s)"
    and "fs_faults (in_fs (p_node s)) = []" "node_at (in_fs (p_node s)) (in_peer_cache (p_node s)) = Some (File bytes mode)"
    and "length bytes \<le> MAX_PEER_CACHE_BYTES" "parse_peer_cache T bytes = Inr ((p, a) # entries)"
    and "peer_parse T p = Inr peer" "addr_parse T a = Inr address"
  shows "fst (serve_p2p_relay_private E T L listen schedule n)
    = Inl (NdP2p ''relay-private mode accepts peer addresses only through configured relays'')"
proof -
  note relays = started_without_relays [OF assms(2)]
  have "fst (load_peer_cache in_fs put_fs T L (handle_p2p_or_reject E) (in_peer_cache (p_node s)) s)
      = Inl ''relay-private mode accepts peer addresses only through configured relays''"
    by (rule private_load_refused [where get = in_fs and put = put_fs, OF relays _ assms(3-8)]) simp
  moreover have "node_peer E (n\<lparr>in_ticks := in_ticks n + 1\<rparr>) = node_peer E n" by (simp add: node_peer_def)
  ultimately show ?thesis using assms(1,2)
    by (cases "load_peer_cache in_fs put_fs T L (handle_p2p_or_reject E) (in_peer_cache (p_node s)) s")
       (simp add: serve_p2p_relay_private_def has_membership_def load_known_peers_def)
qed

definition demo_member :: inner where
  "demo_member = (demo_node (Some \<lparr>mp_network_id = ''n'', mp_permissions =
       [(node_derive demo_lib [1], \<lparr>ma_permissions = {''*''}, ma_expires_at = None\<rparr>)]\<rparr>))
     \<lparr>in_fs := empty_fs\<lparr>fs_nodes := [([''p''], File [1] None)]\<rparr>\<rparr>"

definition demo_relay_endpoint :: "(nat, inner) p2p" where
  "demo_relay_endpoint = (new_endpoint (PeerId [1]) False True 1 (demo_member\<lparr>in_ticks := 1\<rparr>) [])
     \<lparr>p_listen_addresses := [demo_base], p_listen_address := demo_base\<rparr>"

theorem peer_cache_prevents_relay_private_start_witness:
  "fst (serve_p2p_relay_private (demo_env [] [] (\<lambda>_. 0)) demo_text demo_swarm demo_base [[Occurs (NewListenAddr demo_base)]] demo_member)
     = Inl (NdP2p ''relay-private mode accepts peer addresses only through configured relays'')"
proof (rule peer_cache_prevents_relay_private_start [where s = demo_relay_endpoint and bytes = "[1]" and mode = None])
  show "has_membership_at demo_member (ne_clock (demo_env [] [] (\<lambda>_. 0)) (in_ticks demo_member))"
    by (simp add: has_membership_at_def demo_member_def demo_node_def identity_of_def Let_def demo_lib_def example_ledger_lib_def)
  have "node_peer (demo_env [] [] (\<lambda>_. 0)) demo_member = PeerId [1]"
    by (simp add: node_peer_def demo_env_def demo_member_def demo_node_def identity_of_def Let_def demo_lib_def example_ledger_lib_def)
  then show "start_relay_private_bound demo_swarm (handle_p2p_or_reject (demo_env [] [] (\<lambda>_. 0)))
      (node_peer (demo_env [] [] (\<lambda>_. 0)) demo_member) demo_base (demo_member\<lparr>in_ticks := in_ticks demo_member + 1\<rparr>)
      [[Occurs (NewListenAddr demo_base)]] = (Inr (), Some demo_relay_endpoint)"
    by (simp add: start_relay_private_bound_def start_client_def demo_swarm_def take_schedule_def new_endpoint_def
      demo_relay_endpoint_def toggles_of_def demo_loopback demo_member_def demo_node_def)
  show "parse_peer_cache demo_text [1] = Inr ((''peer'', ''direct'') # [(''peer'', ''circuit'')])"
    by (simp add: parse_peer_cache_def demo_text_simps MAX_PEER_CACHE_ENTRIES_def)
  show "addr_parse demo_text ''direct'' = Inr demo_direct" by (simp add: demo_text_def)
qed (simp_all add: demo_relay_endpoint_def new_endpoint_def demo_member_def demo_node_def empty_fs_def node_at_def
    MAX_PEER_CACHE_BYTES_def demo_text_simps)

text \<open>
  C39: Audit proofs are right and complete. Of a ledger that was opened and then offered any blocks
  under any consensus engines, \<open>LedgerApi::proof\<close> returns nothing only if no block records that the
  task was completed; otherwise it returns such an event of a block, with the height and the
  events root of that block and a Merkle proof that verifies the event's hash against the root.
\<close>

theorem audit_proof_is_complete_and_verifies:
  assumes "ledger_open L base s = (Inr lg, s1)" "foldl (offer L) (lg, s1) blocks = (lg', s')"
  shows "proof_correct L tid (lg_blocks lg') (ledger_proof L lg' tid)"
proof -
  have "\<forall>b \<in> set (lg_blocks (fst (foldl (offer L) (lg, s1) blocks))). sound_events L b"
    by (rule offers.reachable_inv) (use assms(1) in \<open>auto intro!: exI [of _ base] exI [of _ s]\<close>)
  then show ?thesis unfolding ledger_proof_def using assms(2) by (intro proof_in_correct) simp
qed


definition audit_event :: signed_event where
  "audit_event = \<lparr>ev_event = TaskCompleted \<lparr>er_task_id = ''t'', er_executor = NodeId (example_sha [1]), er_component = ContentId [],
       er_input = ContentId [], er_output = ContentId [], er_execution_hash = ContentId [], er_started_at = 1, er_completed_at = 2\<rparr>,
     ev_signer = NodeId (example_sha [1]), ev_public_key = [1], ev_signature = [1, 0, 0, 0, 0]\<rparr>"

definition audit_block :: block where
  "audit_block = \<lparr>bk_version = 1, bk_previous = None, bk_height = 0, bk_timestamp = 5, bk_events_root = example_sha [0, 0, 0, 0],
     bk_events = [audit_event], bk_consensus = \<lparr>cp_network_id = ''n'', cp_signatures = [demo_signature [0, 0, 0, 0]]\<rparr>\<rparr>"

definition audit_lib :: ledger_lib where
  "audit_lib = example_ledger_lib [ev_event audit_event] [audit_event] [proposal_of audit_block] [audit_block] []"

lemma audit_appended:
  "\<exists>s. ledger_append audit_lib (quorum_verify audit_lib (demo_quorum ''n'')) audit_block (demo_ledger [], demo_fs)
     = (Inr (example_sha [0, 0, 0, 0]), demo_ledger [audit_block], s)"
proof -
  have o: "ledger_open audit_lib [''l''] demo_fs = (Inr (demo_ledger []), demo_fs)" by code_simp
  have st: "stored audit_lib (demo_ledger []) demo_fs" using ledger_open_stored [OF o] by blast
  have c: "append_check audit_lib (quorum_verify audit_lib (demo_quorum ''n'')) [] audit_block = Inr ()"
    "block_hash audit_lib audit_block = Inr (example_sha [0, 0, 0, 0])" "to_vec_pretty audit_lib audit_block = Inr [0, 0, 0, 0]"
    by code_simp+
  show ?thesis using ledger_append_succeeds [OF st demo_fs_calm(1) _ _ _ c(2,3)] c(1) by (simp add: demo_fs_calm MAX_BLOCK_BYTES_def)
qed

theorem audit_proof_is_complete_and_verifies_witness:
  "\<exists>s a. foldl (offer audit_lib) (demo_ledger [], demo_fs) [(quorum_verify audit_lib (demo_quorum ''n''), audit_block)]
       = (demo_ledger [audit_block], s)
     \<and> ledger_proof audit_lib (demo_ledger [audit_block]) ''t'' = Some a
     \<and> proof_correct audit_lib ''t'' [audit_block] (Some a)"
proof -
  obtain s where s: "foldl (offer audit_lib) (demo_ledger [], demo_fs) [(quorum_verify audit_lib (demo_quorum ''n''), audit_block)]
      = (demo_ledger [audit_block], s)" using audit_appended by (auto simp: offer_def)
  have o: "ledger_open audit_lib [''l''] demo_fs = (Inr (demo_ledger []), demo_fs)" by code_simp
  have "ledger_proof audit_lib (demo_ledger [audit_block]) ''t'' \<noteq> None" by code_simp
  then obtain a where a: "ledger_proof audit_lib (demo_ledger [audit_block]) ''t'' = Some a" by blast
  have "proof_correct audit_lib ''t'' [audit_block] (Some a)"
    using audit_proof_is_complete_and_verifies [OF o s, of "''t''"] unfolding a by simp
  then show ?thesis using s a by blast
qed

end
