(* ===== verification/Rpc.thy ===== *)
theory Rpc
  imports Protocol
begin

text \<open>
  The TCP client and server of \<open>crates/peerless-network/src/lib.rs\<close> and its LAN discovery. A connection is
  what the operating system answers to each call and what the peer sends back for the bytes it
  was sent; a datagram socket is the datagrams that arrive.
\<close>

record tcp =
  tcp_connect :: "io_error + unit"
  tcp_set_read_timeout :: "io_error + unit"
  tcp_write :: "bytes \<Rightarrow> io_error + unit"
  tcp_answer :: "bytes \<Rightarrow> bytes"

definition rpc_request :: "signed_envelope serde \<Rightarrow> tcp \<Rightarrow> signed_envelope \<Rightarrow> network_error + signed_envelope" where
  "rpc_request S c envelope =
     bind_r (map_err NetIo (tcp_connect c)) (\<lambda>_.
     bind_r (map_err NetIo (tcp_set_read_timeout c)) (\<lambda>_.
     bind_r (write_frame S [] envelope) (\<lambda>out.
     bind_r (map_err NetIo (tcp_write c out)) (\<lambda>_.
     bind_r (read_frame S (tcp_answer c out)) (\<lambda>(response, _). Inr response)))))"

text \<open>What the thread of one connection writes: nothing when the request cannot be read or the answer not be framed.\<close>

definition serve_connection :: "signed_envelope serde \<Rightarrow> (signed_envelope \<Rightarrow> signed_envelope) \<Rightarrow> bytes \<Rightarrow> bytes" where
  "serve_connection S handler stream =
     (case read_frame S stream of
        Inl _ \<Rightarrow> []
      | Inr (m, _) \<Rightarrow> (case write_frame S [] (handler m) of Inl _ \<Rightarrow> [] | Inr out \<Rightarrow> out))"

record peer_announcement =
  pa_node :: string
  pa_address :: string
  pa_expires_at :: u64

definition announce :: "peer_announcement serde \<Rightarrow> (bytes \<Rightarrow> io_error + unit) \<Rightarrow> peer_announcement \<Rightarrow> network_error + unit" where
  "announce S send_to announcement =
     bind_r (map_err NetJson (to_vec S announcement)) (\<lambda>bytes. map_err NetIo (send_to bytes))"

text \<open>A datagram longer than the buffer of 2048 bytes is cut off.\<close>

definition receive_announcement :: "peer_announcement serde \<Rightarrow> io_error + unit \<Rightarrow> io_error + bytes \<Rightarrow> network_error + peer_announcement" where
  "receive_announcement S timeout_set datagram =
     bind_r (map_err NetIo timeout_set) (\<lambda>_.
     bind_r (map_err NetIo datagram) (\<lambda>bytes. map_err NetJson (from_slice S (take 2048 bytes))))"

lemma read_own_frame:
  assumes "serde_at S e" "write_frame S [] e = Inr out"
  shows "read_frame S out = Inr (e, [])"
  using read_written_frame [OF assms, of "[]"] by auto

text \<open>A request over a working connection to a server returns what the server's handler answers.\<close>

lemma request_reaches_handler:
  assumes "serde_at S e" "serde_at S (handler e)" "write_frame S [] e = Inr out" "write_frame S [] (handler e) = Inr answer"
    and "tcp_connect c = Inr ()" "tcp_set_read_timeout c = Inr ()" "tcp_write c out = Inr ()"
    and "tcp_answer c out = serve_connection S handler out"
  shows "rpc_request S c e = Inr (handler e)"
  using assms read_own_frame [OF assms(1,3)] read_own_frame [OF assms(2,4)]
  by (simp add: rpc_request_def serve_connection_def)

text \<open>A handler whose answer does not fit a frame leaves the client with an unexpected end of the stream.\<close>

lemma oversized_answer_closes:
  assumes "serde_at S e" "write_frame S [] e = Inr out" "write_frame S [] (handler e) = Inl x"
    and "tcp_connect c = Inr ()" "tcp_set_read_timeout c = Inr ()" "tcp_write c out = Inr ()"
    and "tcp_answer c out = serve_connection S handler out"
  shows "rpc_request S c e = Inl (NetIo UnexpectedEof)"
  using assms read_own_frame [OF assms(1,2)] by (simp add: rpc_request_def serve_connection_def read_frame_def read_exact_def)

lemma announcement_round_trip:
  assumes "serde_at S a" "to_vec S a = Inr bytes" "length bytes \<le> 2048"
  shows "receive_announcement S (Inr ()) (Inr bytes) = Inr a"
  using assms by (auto simp: receive_announcement_def serde_at_def)

end
