(* ===== verification/Browser.thy ===== *)
theory Browser
  imports P2p
begin

text \<open>\<open>crates/peerless-browser/src/lib.rs\<close>: the bootstrap configuration of a browser node and its check.\<close>

record browser_bootstrap =
  bb_webtransport :: "string list"
  bb_webrtc :: "string list"
  bb_websocket :: "string list"
  bb_relay_only :: bool

definition parses :: "p2p_text \<Rightarrow> string \<Rightarrow> bool" where
  "parses T v = (case addr_parse T v of Inl _ \<Rightarrow> False | Inr _ \<Rightarrow> True)"

definition is_circuit :: "p2p_text \<Rightarrow> string \<Rightarrow> bool" where
  "is_circuit T v = (case addr_parse T v of Inl _ \<Rightarrow> False | Inr address \<Rightarrow> list_ex (\<lambda>p. p = P2pCircuit) address)"

definition bootstrap_validate :: "p2p_text \<Rightarrow> browser_bootstrap \<Rightarrow> bool" where
  "bootstrap_validate T b =
     (if \<not> list_all (parses T) (bb_webtransport b @ bb_webrtc b @ bb_websocket b) then False
      else if bb_relay_only b then
        bb_webtransport b = [] \<and> bb_webrtc b = [] \<and> bb_websocket b \<noteq> [] \<and> list_all (is_circuit T) (bb_websocket b)
      else bb_webtransport b \<noteq> [] \<or> bb_webrtc b \<noteq> [] \<or> bb_websocket b \<noteq> [])"

text \<open>An accepted configuration names a transport, and a relay-only one names circuits and nothing else.\<close>

lemma bootstrap_validate_sound:
  assumes "bootstrap_validate T b"
  shows "bb_webtransport b @ bb_webrtc b @ bb_websocket b \<noteq> []"
    "bb_relay_only b \<Longrightarrow> v \<in> set (bb_webtransport b @ bb_webrtc b @ bb_websocket b) \<Longrightarrow>
       \<exists>address. addr_parse T v = Inr address \<and> has_circuit address"
  using assms by (cases "addr_parse T v"; auto simp: bootstrap_validate_def is_circuit_def has_circuit_def list_all_iff split: if_splits)+

end
