(* ===== verification/Spec2Isabelle.thy ===== *)
theory Spec2Isabelle
  imports Onion_Cell Onion_Fragment Ledger_Chain State_Store Anon_Auth_Props Node_Restart Node_Tasks Node_Transfer
    Node_P2p Rpc Browser
begin

text \<open>
  \<^bold>\<open>Verification of the peerless framework.\<close>

  The program is a set of Rust crates under \<open>src/crates\<close> for a network without servers: nodes with
  key-derived identities exchange signed envelopes, store content under its hash, keep mergeable
  documents and a signed hash chain, run WebAssembly tasks for each other, hand out anonymous
  credentials and talk through onion circuits. Each theory models one crate or one part of it and
  follows the order of the source. Definitions keep the names of the source; where a name is taken
  or would clash, a prefix names the type (\<open>cas_put\<close> is \<open>FileCas::put\<close>, \<open>rw_check\<close> is
  \<open>ReplayWindow::check\<close>).

  \<^bold>\<open>Shared theories.\<close>
  \<^item> \<open>Prelude\<close>: machine integers as words, byte strings, \<open>Result\<close> as a sum with \<open>bind_r\<close> for \<open>?\<close>, actions
    on a state, slices, big-endian encodings, hash maps as association lists, and the interfaces
    \<open>state_machine\<close>, \<open>wire_codec\<close> and \<open>once_guard\<close> that several components instantiate.
  \<^item> \<open>Formatting\<close>: the decimal and hexadecimal text the code prints. \<open>Float64\<close>: binary64 arithmetic.
  \<^item> \<open>Filesystem\<close>: directories and files in which every system call may fail; the faults to come are a
    list in the state, so a statement about all states is one about all failures of calls.
    A call that fails has no effect, except that a write and \<open>create_dir_all\<close> may stop in the middle; a
    sync can fail but changes nothing that a later call sees (loss of power is not modelled).

  \<^bold>\<open>Components.\<close>
  \<^item> \<open>Core\<close> (\<open>peerless-core\<close>): content and node identifiers, tasks, capabilities.
  \<^item> \<open>Storage\<close> (\<open>peerless-storage\<close>): bounded reads, atomic files, the content-addressed store. The lemmas show
    that a replaced file is the old or the new one whatever fails, that the search for a free temporary
    name ends, and that stored content reads back.
  \<^item> \<open>Identity\<close>, \<open>Protocol\<close> (\<open>peerless-identity\<close>, \<open>peerless-protocol\<close>, the frames of \<open>peerless-network\<close>): keys on
    disk, signed envelopes and execution records, length-prefixed frames and their round trip.
  \<^item> \<open>Merkle\<close>, \<open>Ledger\<close>, \<open>Ledger_Chain\<close> (\<open>peerless-ledger\<close>): Merkle proofs (complete, and
    sound for encoded events up to collisions of the hash), signed events, memberships and
    invitations, quorum and Byzantine engines (both interpret \<open>consensus_engine\<close>), and the chain on disk:
    what is appended is what a restart reads.
  \<^item> \<open>State_Store\<close> (\<open>peerless-state\<close>): documents over an Automerge parameter; changes on disk are never lost.
  \<^item> \<open>Anon_Auth\<close>, \<open>Anon_Auth_Props\<close> (\<open>peerless-anonymous-auth\<close>): scopes, epochs, blind issuance, redemption;
    each credential counts once and no member passes the issue limit. The nonce store reads the system
    clock, every other operation takes the time as an argument; the model keeps the two apart.
  \<^item> \<open>Compute\<close>, \<open>Wasm\<close> (\<open>peerless-compute\<close>): agreement on outputs, eligibility, placement, the executors.
  \<^item> \<open>Onion_Types\<close>, \<open>Onion_Replay\<close>, \<open>Onion_Setup\<close>, \<open>Onion_Cell\<close>, \<open>Onion_Fragment\<close> (\<open>peerless-onion-protocol\<close>):
    replay window, circuit setup, cells of up to three hops, fragments; delivery, key agreement,
    fresh nonces in all cells that leave a sender and bounds of the reassembler.
  \<^item> \<open>Rpc\<close> (\<open>peerless-network/src/lib.rs\<close>): a request over TCP, a served connection, LAN announcements.
  \<^item> \<open>P2p\<close>, \<open>P2p_Props\<close> (\<open>peerless-network/src/p2p.rs\<close>): the endpoint \<open>P2pRpc\<close>: addresses, the queue of commands, the
    event loop, the methods and the peer cache. Relay-private mode never points the swarm past a
    configured relay, a caller is answered at most once, a saved cache loads back if the loop serves
    the calls and the mode admits the addresses.
  \<^item> \<open>Browser\<close> (\<open>peerless-browser/src/lib.rs\<close>): the check of a bootstrap configuration.
  \<^item> \<open>Node_Metadata\<close> (\<open>peerless-node/src/metadata.rs\<close>): the tables and the effect of each statement.
  \<^item> \<open>Node\<close> (\<open>peerless-node/src/lib.rs\<close>): \<open>Inner\<close> as the record \<open>inner\<close>, memberships, revocations, request budgets,
    \<open>PeerlessNode::open\<close>. \<open>Node_Handle\<close>: \<open>handle\<close> with the handler of every message. \<open>Node_Client\<close>: content transfer,
    remote, verified and sharded execution, replication and gossip. \<open>Node_P2p\<close>: the calls that open
    endpoints, bootstrap addresses, the facade \<open>Peerless\<close> and its audit proofs.
  \<^item> \<open>Node_Props\<close>: bounds on requests and uploads, refused requests change nothing. \<open>Node_Members\<close>: revoked members
    stay locked out until a new policy is installed. \<open>Node_Restart\<close>: what keeps a node from opening its files again. \<open>Node_Tasks\<close>: one task at
    a time over all interleavings of requests with running tasks (the step relation \<open>task_step\<close>).
    \<open>Node_Client_Props\<close>: results of remote executions are authentic, agreed on and cover the input; the
    locale \<open>peer_runs\<close> has the laws of one remote run. \<open>Node_Transfer\<close>: transferred content is stored.

  \<^bold>\<open>How the parts interact.\<close> \<open>Node\<close> holds the state that \<open>Storage\<close>, \<open>Ledger_Chain\<close>, \<open>State_Store\<close> and \<open>Node_Metadata\<close>
  work on; \<open>Node_Handle\<close> and \<open>Node_Client\<close> call them and exchange the envelopes of \<open>Protocol\<close>. \<open>Node_P2p\<close> makes the
  node the handler of a \<open>P2p\<close> endpoint. \<open>Node_Client\<close> sees the network as the record \<open>network\<close> of the methods it
  calls, with an arbitrary state, so its results hold for every behaviour of the other nodes.

  \<^bold>\<open>Parameters.\<close> Third-party code is an argument: hashing, hexadecimal and key libraries are the fields of
  \<open>hash_lib\<close>, \<open>id_lib\<close>, \<open>ledger_lib\<close>, \<open>token_lib\<close> and \<open>onion_lib\<close>, JSON is a \<open>serde\<close> pair, Automerge and Wasmtime
  are records of their operations. What the code relies on is a named predicate (\<open>sha_ok\<close>, \<open>sign_ok\<close>,
  \<open>serde_at\<close>, \<open>am_ok\<close>, \<open>aead_ok\<close>, \<open>limits_memory\<close> and the like) and each is shown to hold of a concrete
  instance in the witness of the theorem that uses it. Clocks, random values and process identifiers
  are arguments as well.

  For the node they are the fields of \<open>node_env\<close>; the libp2p swarm is \<open>swarm_lib\<close>, and the text of peers and
  addresses \<open>p2p_text\<close>.

  \<^bold>\<open>Steps.\<close> A modelled operation is one step, and operations follow each other. A handler is one step
  except the execution of a task, which is split where the code releases its locks. The endpoint's loop
  and the threads that call it interleave as the moves of a schedule. The shards of a wave run one after
  another. Two operations of the node take several locks in turn, so that another thread can come
  between: \<open>register_issued_membership\<close> is composed of \<open>register_check\<close> and \<open>register_commit\<close>, and
  \<open>late_registration_readmits\<close> shows what a revocation between the two leads to; \<open>append_ledger_block\<close> is the
  append followed by \<open>apply_revocations\<close>. The statements on members are about whole operations.

  \<^bold>\<open>Bounds and fuel.\<close> The only loop with fuel is the search for a temporary name: its fuel exceeds
  the number of files and faults, and it is shown to end earlier. Every other recursion is
  structural or has a termination proof.

  \<^bold>\<open>Not modelled.\<close> The libp2p protocols, timers and sockets are third-party code or input and output: the
  swarm is a parameter. \<open>CircuitRelay\<close> configures a relay of that library and counts its events; the
  accept loop of \<open>RpcServer\<close> and the binding of \<open>LanDiscovery\<close> only start threads and sockets. \<open>peer_capability\<close>,
  \<open>peer_capability_p2p\<close> and \<open>remote_execute\<close> over TCP repeat modelled exchanges. \<open>FileCas::stats\<close> and the other counters
  for display, the command line and its demonstration, and the JavaScript bindings of the browser
  crate hold no state of their own.
\<close>

end
